(* ===== verification/Prelude.thy ===== *)
theory Prelude
  imports Complex_Main "HOL-Library.AList"
begin

section \<open>Prelude: Python values and containers shared by the components\<close>

text \<open>
  What the components share. A Python float is an exact rational (\<open>pyfloat\<close>), so rounding is not
  part of the model. A \<open>str\<close> is a \<open>string\<close> whose characters stand for the code points below 256;
  \<open>strip\<close>, \<open>splitlines\<close> and \<open>isalnum\<close> follow Python's tables on that range. A \<open>dict\<close> is an
  association list in insertion order: \<open>dict_set\<close> overwrites in place or appends at the end and
  \<open>dict_pop\<close> removes, which is what Python does. A bounded \<open>deque\<close> is a list that drops from
  the front. The theory also declares the collections of lemmas the component proofs use.
\<close>

named_theorems frame_simps \<open>which fields an operation leaves alone\<close>
named_theorems legal_simps \<open>evaluation of the transition table\<close>
named_theorems inv_intros \<open>preservation of the component invariants\<close>

type_synonym pyfloat = rat
type_synonym time = rat

subsection \<open>Strings\<close>

definition is_space :: "char \<Rightarrow> bool" where
  "is_space c \<longleftrightarrow> c \<in> set [CHR 0x09, CHR 0x0A, CHR 0x0B, CHR 0x0C, CHR 0x0D, CHR 0x1C,
     CHR 0x1D, CHR 0x1E, CHR 0x1F, CHR 0x20, CHR 0x85, CHR 0xA0]"

definition strip_of :: "(char \<Rightarrow> bool) \<Rightarrow> string \<Rightarrow> string" where
  "strip_of P s = rev (dropWhile P (rev (dropWhile P s)))"

abbreviation strip :: "string \<Rightarrow> string" where
  "strip \<equiv> strip_of is_space"

abbreviation blank :: "string \<Rightarrow> bool" where
  "blank s \<equiv> strip s = []"

definition startswith :: "string \<Rightarrow> string \<Rightarrow> bool" where
  "startswith p s \<longleftrightarrow> take (length p) s = p"

definition is_linebreak :: "char \<Rightarrow> bool" where
  "is_linebreak c \<longleftrightarrow> c \<in> set [CHR 0x0A, CHR 0x0B, CHR 0x0C, CHR 0x0D, CHR 0x1C, CHR 0x1D,
     CHR 0x1E, CHR 0x85]"

text \<open>A carriage return and the line feed after it end one line.\<close>

definition after_break :: "char \<Rightarrow> string \<Rightarrow> string" where
  "after_break c cs =
     (case cs of [] \<Rightarrow> [] | d # ds \<Rightarrow> if c = CHR 0x0D \<and> d = CHR 0x0A then ds else cs)"

lemma length_after_break [termination_simp]: "length (after_break c cs) < Suc (length cs)"
  by (simp add: after_break_def split: list.split)

fun splitlines_from :: "string \<Rightarrow> string \<Rightarrow> string list" where
  "splitlines_from acc [] = (if acc = [] then [] else [rev acc])"
| "splitlines_from acc (c # cs) =
     (if is_linebreak c then rev acc # splitlines_from [] (after_break c cs)
      else splitlines_from (c # acc) cs)"

abbreviation splitlines :: "string \<Rightarrow> string list" where
  "splitlines \<equiv> splitlines_from []"

fun join :: "string \<Rightarrow> string list \<Rightarrow> string" where
  "join sep [] = []"
| "join sep [x] = x"
| "join sep (x # y # zs) = x @ sep @ join sep (y # zs)"

definition digit_char :: "nat \<Rightarrow> char" where
  "digit_char d = ''0123456789'' ! d"

fun str_nat :: "nat \<Rightarrow> string" where
  "str_nat n = (if n < 10 then [digit_char n] else str_nat (n div 10) @ [digit_char (n mod 10)])"

declare str_nat.simps [simp del]

definition str_int :: "int \<Rightarrow> string" where
  "str_int i = (if i < 0 then ''-'' @ str_nat (nat (- i)) else str_nat (nat i))"

lemma in_dropWhile: "\<not> P c \<Longrightarrow> c \<in> set (dropWhile P s) \<longleftrightarrow> c \<in> set s"
  by (induction s) auto

lemma in_strip_of: "\<not> P c \<Longrightarrow> c \<in> set (strip_of P s) \<longleftrightarrow> c \<in> set s"
  by (simp add: strip_of_def in_dropWhile)

lemma strip_of_eq_Nil: "strip_of P s = [] \<longleftrightarrow> (\<forall>c \<in> set s. P c)"
proof
  assume "strip_of P s = []"
  then show "\<forall>c \<in> set s. P c" using in_strip_of [of P _ s] by fastforce
next
  assume "\<forall>c \<in> set s. P c"
  then show "strip_of P s = []" by (auto simp: strip_of_def dest: set_dropWhileD)
qed

lemma strip_strip_eq_Nil [simp]: "strip_of P (strip_of P s) = [] \<longleftrightarrow> strip_of P s = []"
  using in_strip_of [of P _ s] by (auto simp: strip_of_eq_Nil)

lemma not_blank_ConsI: "\<not> is_space c \<Longrightarrow> \<not> blank (c # s)"
  by (auto simp: strip_of_eq_Nil)

lemma not_blank_appendI: "\<not> blank s \<or> \<not> blank t \<Longrightarrow> \<not> blank (s @ t)"
  by (auto simp: strip_of_eq_Nil)

subsection \<open>Dictionaries in insertion order\<close>

type_synonym ('k, 'v) dict = "('k \<times> 'v) list"

abbreviation dict_get :: "('k, 'v) dict \<Rightarrow> 'k \<Rightarrow> 'v option" where
  "dict_get \<equiv> map_of"

abbreviation dict_set :: "'k \<Rightarrow> 'v \<Rightarrow> ('k, 'v) dict \<Rightarrow> ('k, 'v) dict" where
  "dict_set \<equiv> AList.update"

abbreviation dict_pop :: "'k \<Rightarrow> ('k, 'v) dict \<Rightarrow> ('k, 'v) dict" where
  "dict_pop \<equiv> AList.delete"

abbreviation keys :: "('k, 'v) dict \<Rightarrow> 'k list" where
  "keys d \<equiv> map fst d"

definition dict_setdefault :: "'k \<Rightarrow> 'v \<Rightarrow> ('k, 'v) dict \<Rightarrow> ('k, 'v) dict" where
  "dict_setdefault k v d = (case dict_get d k of None \<Rightarrow> d @ [(k, v)] | Some _ \<Rightarrow> d)"

lemma dict_get_set [simp]: "dict_get (dict_set k v d) = (dict_get d)(k \<mapsto> v)"
  by (rule update_conv')

lemma dict_get_pop [simp]: "dict_get (dict_pop k d) = (dict_get d)(k := None)"
  by (rule delete_conv')

lemma set_keys_set [simp]: "fst ` set (dict_set k v d) = insert k (fst ` set d)"
  using dom_update [of k v d] by simp

lemma set_keys_pop [simp]: "fst ` set (dict_pop k d) = fst ` set d - {k}"
  by (induction d) auto

lemma distinct_keys_set [simp]: "distinct (keys (dict_set k v d)) = distinct (keys d)"
  by (induction d) (auto simp: image_iff)

lemma distinct_keys_pop: "distinct (keys d) \<Longrightarrow> distinct (keys (dict_pop k d))"
  by (rule distinct_delete)

lemma dict_get_eq_None: "dict_get d k = None \<longleftrightarrow> k \<notin> fst ` set d"
  by (rule map_of_eq_None_iff)

lemma dict_get_in_keys: "dict_get d k = Some v \<Longrightarrow> k \<in> fst ` set d"
  by (metis dict_get_eq_None option.distinct(1))

lemma dict_get_setdefault:
  "dict_get (dict_setdefault k v d) x =
     (if x = k \<and> dict_get d k = None then Some v else dict_get d x)"
  by (auto simp: dict_setdefault_def map_add_def split: option.splits)

subsection \<open>Bounded deques\<close>

definition deque_append :: "nat \<Rightarrow> 'a list \<Rightarrow> 'a \<Rightarrow> 'a list" where
  "deque_append maxlen xs x = (let ys = xs @ [x] in drop (length ys - maxlen) ys)"

definition lastn :: "nat \<Rightarrow> 'a list \<Rightarrow> 'a list" where
  "lastn n xs = drop (length xs - n) xs"

lemma length_lastn [simp]: "length (lastn n xs) = min n (length xs)"
  by (simp add: lastn_def)

lemma lastn_lastn_append: "lastn n (lastn n xs @ ys) = lastn n (xs @ ys)"
proof -
  have "lastn n xs = drop (length xs - n) xs" by (simp add: lastn_def)
  then show ?thesis
    by (simp add: lastn_def min_def) (auto simp: drop_drop intro!: arg_cong2 [of _ _ _ _ drop])
qed

lemma deque_append_lastn: "deque_append n xs x = lastn n (xs @ [x])"
  by (simp add: deque_append_def lastn_def Let_def)

lemma length_deque_append: "length (deque_append n xs x) = min n (Suc (length xs))"
  by (simp add: deque_append_lastn)

end
