(* ===== verification/Errors.thy ===== *)
theory Errors
  imports Prelude
begin

section \<open>Exceptions\<close>

text \<open>
  The exceptions the code raises or catches: the built-in ones it names and the hierarchy of
  \<open>errors.py\<close>. A raising operation returns \<open>Inl\<close> of one of these. The subclass tests that
  \<open>except\<close> clauses make are the predicates \<open>is_exception\<close>, \<open>is_transient\<close>, \<open>is_tool_error\<close> and
  \<open>is_agent_runtime_error\<close>. \<open>OtherError\<close> stands for an exception class of code outside the
  repository (a provider, a tool function) that is a subclass of \<open>Exception\<close> and of nothing
  the repository names.
\<close>

datatype exn =
    ValueError string
  | TypeError string
  | KeyError string
  | BuiltinRuntimeError string
  | ZeroDivisionError string
  | QueueFull
  | TimeoutError
  | CancelledError
  | OtherError string string
  | AgentRuntimeError string
  | ConfigurationError string
  | InvalidStateTransition string
  | RunNotFoundError string
  | RunQueueFullError int
  | IdempotencyConflictError string
  | ToolError string
  | ToolNotFoundError string
  | LLMError string
  | TransientLLMError string
  | PermanentLLMError string
  | CircuitOpenError string

text \<open>\<open>type(exc).__name__\<close> and \<open>str(exc)\<close>.\<close>

fun class_name :: "exn \<Rightarrow> string" where
  "class_name (ValueError _) = ''ValueError''"
| "class_name (TypeError _) = ''TypeError''"
| "class_name (KeyError _) = ''KeyError''"
| "class_name (BuiltinRuntimeError _) = ''RuntimeError''"
| "class_name (ZeroDivisionError _) = ''ZeroDivisionError''"
| "class_name QueueFull = ''QueueFull''"
| "class_name TimeoutError = ''TimeoutError''"
| "class_name CancelledError = ''CancelledError''"
| "class_name (OtherError n _) = n"
| "class_name (AgentRuntimeError _) = ''AgentRuntimeError''"
| "class_name (ConfigurationError _) = ''ConfigurationError''"
| "class_name (InvalidStateTransition _) = ''InvalidStateTransition''"
| "class_name (RunNotFoundError _) = ''RunNotFoundError''"
| "class_name (RunQueueFullError _) = ''RunQueueFullError''"
| "class_name (IdempotencyConflictError _) = ''IdempotencyConflictError''"
| "class_name (ToolError _) = ''ToolError''"
| "class_name (ToolNotFoundError _) = ''ToolNotFoundError''"
| "class_name (LLMError _) = ''LLMError''"
| "class_name (TransientLLMError _) = ''TransientLLMError''"
| "class_name (PermanentLLMError _) = ''PermanentLLMError''"
| "class_name (CircuitOpenError _) = ''CircuitOpenError''"

fun exn_str :: "exn \<Rightarrow> string" where
  "exn_str (ValueError m) = m"
| "exn_str (TypeError m) = m"
| "exn_str (KeyError k) = [CHR 0x27] @ k @ [CHR 0x27]"
| "exn_str (BuiltinRuntimeError m) = m"
| "exn_str (ZeroDivisionError m) = m"
| "exn_str QueueFull = []"
| "exn_str TimeoutError = []"
| "exn_str CancelledError = []"
| "exn_str (OtherError _ m) = m"
| "exn_str (AgentRuntimeError m) = m"
| "exn_str (ConfigurationError m) = m"
| "exn_str (InvalidStateTransition m) = m"
| "exn_str (RunNotFoundError m) = m"
| "exn_str (RunQueueFullError _) = ''run queue is at capacity''"
| "exn_str (IdempotencyConflictError m) = m"
| "exn_str (ToolError m) = m"
| "exn_str (ToolNotFoundError m) = m"
| "exn_str (LLMError m) = m"
| "exn_str (TransientLLMError m) = m"
| "exn_str (PermanentLLMError m) = m"
| "exn_str (CircuitOpenError m) = m"

text \<open>\<open>isinstance(exc, C)\<close> for the classes the code catches.\<close>

definition is_exception :: "exn \<Rightarrow> bool" where
  "is_exception e \<longleftrightarrow> e \<noteq> CancelledError"

fun is_transient :: "exn \<Rightarrow> bool" where
  "is_transient (TransientLLMError _) = True"
| "is_transient (CircuitOpenError _) = True"
| "is_transient _ = False"

fun is_tool_error :: "exn \<Rightarrow> bool" where
  "is_tool_error (ToolError _) = True"
| "is_tool_error (ToolNotFoundError _) = True"
| "is_tool_error _ = False"

fun is_llm_error :: "exn \<Rightarrow> bool" where
  "is_llm_error (LLMError _) = True"
| "is_llm_error (PermanentLLMError _) = True"
| "is_llm_error e = is_transient e"

fun is_agent_runtime_error :: "exn \<Rightarrow> bool" where
  "is_agent_runtime_error (AgentRuntimeError _) = True"
| "is_agent_runtime_error (ConfigurationError _) = True"
| "is_agent_runtime_error (InvalidStateTransition _) = True"
| "is_agent_runtime_error (RunNotFoundError _) = True"
| "is_agent_runtime_error (RunQueueFullError _) = True"
| "is_agent_runtime_error (IdempotencyConflictError _) = True"
| "is_agent_runtime_error e = (is_tool_error e \<or> is_llm_error e)"

lemma transient_is_exception [simp]: "is_transient e \<Longrightarrow> is_exception e"
  by (cases e) (auto simp: is_exception_def)

lemma transient_is_llm_error: "is_transient e \<Longrightarrow> is_llm_error e"
  by (cases e) auto

lemma tool_error_is_exception [simp]: "is_tool_error e \<Longrightarrow> is_exception e"
  by (cases e) (auto simp: is_exception_def)

end
