(* ===== verification/Models.thy ===== *)
theory Models
  imports Errors
begin

section \<open>Domain objects\<close>

text \<open>
  \<open>models.py\<close>: run states, agent kinds, messages, LLM requests and responses and the run
  record, with the checks of their \<open>__post_init__\<close> methods as constructors that may fail, and
  the dictionary forms \<open>to_dict\<close> and \<open>from_dict\<close>. \<open>pyval\<close> is the JSON-like Python value these
  dictionaries, event payloads and parsed LLM answers are made of.
\<close>

datatype pyval =
    PNone
  | PBool bool
  | PInt int
  | PFloat pyfloat
  | PStr string
  | PList "pyval list"
  | PDict "(string \<times> pyval) list"

fun truthy :: "pyval \<Rightarrow> bool" where
  "truthy PNone = False"
| "truthy (PBool b) = b"
| "truthy (PInt i) = (i \<noteq> 0)"
| "truthy (PFloat f) = (f \<noteq> 0)"
| "truthy (PStr s) = (s \<noteq> [])"
| "truthy (PList xs) = (xs \<noteq> [])"
| "truthy (PDict d) = (d \<noteq> [])"

text \<open>\<open>str(value)\<close>: the identity on strings; \<open>repr\<close> is the text of every other value.\<close>

definition py_str :: "(pyval \<Rightarrow> string) \<Rightarrow> pyval \<Rightarrow> string" where
  "py_str repr v = (case v of PStr s \<Rightarrow> s | _ \<Rightarrow> repr v)"

definition opt_val :: "('a \<Rightarrow> pyval) \<Rightarrow> 'a option \<Rightarrow> pyval" where
  "opt_val f v = (case v of None \<Rightarrow> PNone | Some x \<Rightarrow> f x)"

subsection \<open>Run states and agent kinds\<close>

datatype run_state =
  CREATED | READY | RUNNING | WAITING | SUCCEEDED | FAILED | CANCELLED

datatype agent_kind = SIMPLE | REACT | REFLECTION | PLAN_SOLVE

fun state_value :: "run_state \<Rightarrow> string" where
  "state_value CREATED = ''created''"
| "state_value READY = ''ready''"
| "state_value RUNNING = ''running''"
| "state_value WAITING = ''waiting''"
| "state_value SUCCEEDED = ''succeeded''"
| "state_value FAILED = ''failed''"
| "state_value CANCELLED = ''cancelled''"

fun kind_value :: "agent_kind \<Rightarrow> string" where
  "kind_value SIMPLE = ''simple''"
| "kind_value REACT = ''react''"
| "kind_value REFLECTION = ''reflection''"
| "kind_value PLAN_SOLVE = ''plan_solve''"

definition all_states :: "run_state list" where
  "all_states = [CREATED, READY, RUNNING, WAITING, SUCCEEDED, FAILED, CANCELLED]"

definition all_kinds :: "agent_kind list" where
  "all_kinds = [SIMPLE, REACT, REFLECTION, PLAN_SOLVE]"

text \<open>\<open>AgentKind(value)\<close>: the member with that value, or \<open>ValueError\<close>.\<close>

definition agent_kind_of :: "string \<Rightarrow> exn + agent_kind" where
  "agent_kind_of v =
     (case List.find (\<lambda>k. kind_value k = v) all_kinds of
        Some k \<Rightarrow> Inr k
      | None \<Rightarrow> Inl (ValueError ([CHR 0x27] @ v @ [CHR 0x27] @ '' is not a valid AgentKind'')))"

lemma in_all_states [simp]: "s \<in> set all_states"
  by (cases s) (simp_all add: all_states_def)

lemma state_value_inject [simp]: "state_value a = state_value b \<longleftrightarrow> a = b"
  by (cases a; cases b) simp_all

lemma kind_value_inject [simp]: "kind_value a = kind_value b \<longleftrightarrow> a = b"
  by (cases a; cases b) simp_all

lemma agent_kind_of_value [simp]: "agent_kind_of (kind_value k) = Inr k"
  by (cases k) (simp_all add: agent_kind_of_def all_kinds_def)

subsection \<open>Messages\<close>

record message =
  msg_role :: string
  msg_content :: string
  msg_name :: "string option"

definition mk_message :: "string \<Rightarrow> string \<Rightarrow> string option \<Rightarrow> exn + message" where
  "mk_message role content name =
     (if role \<notin> set [''system'', ''user'', ''assistant'', ''tool'']
      then Inl (ValueError (''unsupported message role: '' @ role))
      else if blank content then Inl (ValueError ''message content must not be empty'')
      else Inr \<lparr>msg_role = role, msg_content = content, msg_name = name\<rparr>)"

definition wf_message :: "message \<Rightarrow> bool" where
  "wf_message m \<longleftrightarrow> msg_role m \<in> set [''system'', ''user'', ''assistant'', ''tool'']
     \<and> \<not> blank (msg_content m)"

definition message_to_dict :: "message \<Rightarrow> (string, string) dict" where
  "message_to_dict m =
     (let value = [(''role'', msg_role m), (''content'', msg_content m)]
      in case msg_name m of
           Some n \<Rightarrow> if n \<noteq> [] then dict_set ''name'' n value else value
         | None \<Rightarrow> value)"

text \<open>\<open>value["role"]\<close> raises \<open>KeyError\<close> when the key is missing.\<close>

definition dict_index :: "(string, 'v) dict \<Rightarrow> string \<Rightarrow> exn + 'v" where
  "dict_index d k = (case dict_get d k of None \<Rightarrow> Inl (KeyError k) | Some v \<Rightarrow> Inr v)"

definition message_from_dict :: "(pyval \<Rightarrow> string) \<Rightarrow> (string, pyval) dict \<Rightarrow> exn + message" where
  "message_from_dict repr value =
     (case dict_index value ''role'' of
        Inl e \<Rightarrow> Inl e
      | Inr role \<Rightarrow>
         (case dict_index value ''content'' of
            Inl e \<Rightarrow> Inl e
          | Inr content \<Rightarrow>
              mk_message (py_str repr role) (py_str repr content)
                (case dict_get value ''name'' of
                   None \<Rightarrow> None
                 | Some n \<Rightarrow> if truthy n then Some (py_str repr n) else None)))"

lemma mk_message_Inr [simp]:
  "mk_message r c n = Inr m \<longleftrightarrow>
     m = \<lparr>msg_role = r, msg_content = c, msg_name = n\<rparr> \<and> wf_message m"
  by (auto simp: mk_message_def wf_message_def)

lemma mk_message_known_role:
  "r \<in> {''system'', ''user'', ''assistant'', ''tool''} \<Longrightarrow>
   mk_message r c n =
     (if blank c then Inl (ValueError ''message content must not be empty'')
      else Inr \<lparr>msg_role = r, msg_content = c, msg_name = n\<rparr>)"
  by (auto simp: mk_message_def)

lemma message_dict_roundtrip:
  assumes "wf_message m" and "msg_name m \<noteq> Some []"
  shows "message_from_dict repr (map (\<lambda>(k, v). (k, PStr v)) (message_to_dict m)) = Inr m"
proof (cases "msg_name m")
  case None
  then show ?thesis
    using assms(1) by (simp add: message_from_dict_def message_to_dict_def dict_index_def py_str_def)
next
  case (Some n)
  then show ?thesis
    using assms by (simp add: message_from_dict_def message_to_dict_def dict_index_def py_str_def)
qed

subsection \<open>LLM requests and responses\<close>

record llm_request =
  req_messages :: "message list"
  req_model :: "string option"
  req_temperature :: pyfloat
  req_max_tokens :: int

definition mk_llm_request ::
    "message list \<Rightarrow> string option \<Rightarrow> pyfloat \<Rightarrow> int \<Rightarrow> exn + llm_request" where
  "mk_llm_request messages model temperature max_tokens =
     (if messages = [] then Inl (ValueError ''LLM request requires at least one message'')
      else if temperature < 0 \<or> max_tokens \<le> 0
      then Inl (ValueError ''invalid generation parameters'')
      else Inr \<lparr>req_messages = messages, req_model = model, req_temperature = temperature,
                req_max_tokens = max_tokens\<rparr>)"

text \<open>\<open>LLMRequest(messages)\<close> with the defaults of its other fields.\<close>

definition llm_request :: "message list \<Rightarrow> exn + llm_request" where
  "llm_request messages = mk_llm_request messages None 0 1024"

record llm_response =
  resp_content :: string
  resp_model :: string
  resp_prompt_tokens :: "int option"
  resp_completion_tokens :: "int option"
  resp_finish_reason :: "string option"
  resp_metadata :: "(string \<times> pyval) list"

lemma llm_request_nonempty [simp]:
  "ms \<noteq> [] \<Longrightarrow> llm_request ms = Inr \<lparr>req_messages = ms, req_model = None,
     req_temperature = 0, req_max_tokens = 1024\<rparr>"
  by (simp add: llm_request_def mk_llm_request_def)

subsection \<open>Run records\<close>

record transition_entry =
  te_from :: run_state
  te_to :: run_state
  te_at :: time
  te_reason :: "string option"

record step_entry =
  se_type :: string
  se_name :: string
  se_model :: "string option"
  se_latency :: pyfloat

record run_record =
  rr_id :: string
  rr_input :: string
  rr_kind :: agent_kind
  rr_session_id :: string
  rr_trace_id :: string
  rr_state :: run_state
  rr_output :: "string option"
  rr_error :: "string option"
  rr_created_at :: time
  rr_updated_at :: time
  rr_started_at :: "time option"
  rr_finished_at :: "time option"
  rr_transitions :: "transition_entry list"
  rr_steps :: "step_entry list"
  rr_cancel_requested :: bool

definition mk_run_record ::
    "string \<Rightarrow> string \<Rightarrow> agent_kind \<Rightarrow> string \<Rightarrow> string \<Rightarrow> time \<Rightarrow> exn + run_record" where
  "mk_run_record rid input kind session_id trace_id now =
     (if rid = [] \<or> blank input \<or> session_id = []
      then Inl (ValueError ''run id, input, and session id are required'')
      else Inr \<lparr>rr_id = rid, rr_input = input, rr_kind = kind, rr_session_id = session_id,
                rr_trace_id = trace_id, rr_state = CREATED, rr_output = None, rr_error = None,
                rr_created_at = now, rr_updated_at = now, rr_started_at = None,
                rr_finished_at = None, rr_transitions = [], rr_steps = [],
                rr_cancel_requested = False\<rparr>)"

definition transition_to_dict :: "transition_entry \<Rightarrow> pyval" where
  "transition_to_dict t =
     PDict ([(''from'', PStr (state_value (te_from t))), (''to'', PStr (state_value (te_to t))),
             (''at'', PFloat (te_at t))]
            @ (case te_reason t of None \<Rightarrow> [] | Some r \<Rightarrow> [(''reason'', PStr r)]))"

definition step_to_dict :: "step_entry \<Rightarrow> pyval" where
  "step_to_dict s =
     PDict ([(''type'', PStr (se_type s)), (''name'', PStr (se_name s))]
            @ (case se_model s of None \<Rightarrow> [] | Some m \<Rightarrow> [(''model'', PStr m)])
            @ [(''latency_seconds'', PFloat (se_latency s))])"

definition run_to_dict :: "run_record \<Rightarrow> (string, pyval) dict" where
  "run_to_dict r =
     [(''id'', PStr (rr_id r)),
      (''input'', PStr (rr_input r)),
      (''kind'', PStr (kind_value (rr_kind r))),
      (''session_id'', PStr (rr_session_id r)),
      (''trace_id'', PStr (rr_trace_id r)),
      (''state'', PStr (state_value (rr_state r))),
      (''output'', opt_val PStr (rr_output r)),
      (''error'', opt_val PStr (rr_error r)),
      (''created_at'', PFloat (rr_created_at r)),
      (''updated_at'', PFloat (rr_updated_at r)),
      (''started_at'', opt_val PFloat (rr_started_at r)),
      (''finished_at'', opt_val PFloat (rr_finished_at r)),
      (''transitions'', PList (map transition_to_dict (rr_transitions r))),
      (''steps'', PList (map step_to_dict (rr_steps r)))]"

definition terminal :: "run_state \<Rightarrow> bool" where
  "terminal s \<longleftrightarrow> s \<in> set [SUCCEEDED, FAILED, CANCELLED]"

lemma terminal_simps [simp]:
  "terminal SUCCEEDED" "terminal FAILED" "terminal CANCELLED"
  "\<not> terminal CREATED" "\<not> terminal READY" "\<not> terminal RUNNING" "\<not> terminal WAITING"
  by (simp_all add: terminal_def)

lemma mk_run_record_Inr:
  "mk_run_record i inp k s t now = Inr r \<Longrightarrow>
     rr_id r = i \<and> rr_input r = inp \<and> rr_kind r = k \<and> rr_session_id r = s \<and> rr_trace_id r = t
     \<and> rr_state r = CREATED \<and> rr_transitions r = [] \<and> rr_created_at r = now
     \<and> rr_started_at r = None \<and> rr_finished_at r = None \<and> \<not> rr_cancel_requested r"
  by (auto simp: mk_run_record_def split: if_splits)

end
