(* ===== verification/Config.thy ===== *)
theory Config
  imports Models
begin

section \<open>Configuration\<close>

text \<open>
  The configuration classes of \<open>config.py\<close> with their defaults and their \<open>validate\<close> methods.
  A failing check is \<open>Inl\<close> of the \<open>ConfigurationError\<close> that the code raises.
\<close>

abbreviation config_error :: "string \<Rightarrow> exn + unit" where
  "config_error m \<equiv> Inl (ConfigurationError m)"

record retry_config =
  rc_max_attempts :: int
  rc_base_delay_seconds :: pyfloat
  rc_max_delay_seconds :: pyfloat
  rc_jitter_ratio :: pyfloat

definition retry_defaults :: retry_config where
  "retry_defaults = \<lparr>rc_max_attempts = 4, rc_base_delay_seconds = 1/4, rc_max_delay_seconds = 8,
     rc_jitter_ratio = 1/4\<rparr>"

definition retry_validate :: "retry_config \<Rightarrow> exn + unit" where
  "retry_validate c =
     (if rc_max_attempts c \<le> 0 then config_error ''retry.max_attempts must be positive''
      else if \<not> (0 \<le> rc_base_delay_seconds c \<and> rc_base_delay_seconds c \<le> rc_max_delay_seconds c)
      then config_error ''retry delays must satisfy 0 <= base <= max''
      else if \<not> (0 \<le> rc_jitter_ratio c \<and> rc_jitter_ratio c \<le> 1)
      then config_error ''retry.jitter_ratio must be in [0, 1]''
      else Inr ())"

record rate_limit_config =
  rl_capacity :: pyfloat
  rl_refill_per_second :: pyfloat

definition rate_limit_defaults :: rate_limit_config where
  "rate_limit_defaults = \<lparr>rl_capacity = 20, rl_refill_per_second = 10\<rparr>"

definition rate_limit_validate :: "rate_limit_config \<Rightarrow> exn + unit" where
  "rate_limit_validate c =
     (if rl_capacity c \<le> 0 \<or> rl_refill_per_second c \<le> 0
      then config_error ''rate limit capacity and refill rate must be positive''
      else Inr ())"

record breaker_config =
  cb_failure_threshold :: int
  cb_recovery_timeout_seconds :: pyfloat
  cb_half_open_max_calls :: int

definition breaker_defaults :: breaker_config where
  "breaker_defaults = \<lparr>cb_failure_threshold = 5, cb_recovery_timeout_seconds = 30,
     cb_half_open_max_calls = 1\<rparr>"

definition breaker_validate :: "breaker_config \<Rightarrow> exn + unit" where
  "breaker_validate c =
     (if min (cb_failure_threshold c) (cb_half_open_max_calls c) \<le> 0
      then config_error ''circuit breaker counts must be positive''
      else if cb_recovery_timeout_seconds c < 0
      then config_error ''circuit breaker recovery timeout must be non-negative''
      else Inr ())"

record provider_config =
  pc_backend :: string
  pc_base_url :: string
  pc_model :: string
  pc_api_key_env :: string
  pc_timeout_seconds :: pyfloat
  pc_temperature :: pyfloat
  pc_max_tokens :: int
  pc_mock_delay_seconds :: pyfloat

definition provider_defaults :: provider_config where
  "provider_defaults = \<lparr>pc_backend = ''mock'', pc_base_url = ''http://127.0.0.1:8001/v1'',
     pc_model = ''mock-agent-model'', pc_api_key_env = ''AGENT_LLM_API_KEY'',
     pc_timeout_seconds = 60, pc_temperature = 0, pc_max_tokens = 1024,
     pc_mock_delay_seconds = 0\<rparr>"

definition provider_validate :: "provider_config \<Rightarrow> exn + unit" where
  "provider_validate c =
     (if pc_backend c \<notin> set [''mock'', ''openai_compatible'']
      then config_error ''provider.backend must be mock or openai_compatible''
      else if pc_backend c = ''openai_compatible''
        \<and> \<not> (startswith ''http://'' (pc_base_url c) \<or> startswith ''https://'' (pc_base_url c))
      then config_error ''provider.base_url must be an HTTP(S) URL''
      else if blank (pc_model c) \<or> pc_timeout_seconds c \<le> 0 \<or> pc_max_tokens c \<le> 0
      then config_error ''provider model, timeout, and max_tokens are invalid''
      else if pc_temperature c < 0 \<or> pc_mock_delay_seconds c < 0
      then config_error ''provider temperatures and delays must be non-negative''
      else Inr ())"

record runtime_config =
  cf_max_concurrency :: int
  cf_queue_capacity :: int
  cf_queue_retry_after_seconds :: int
  cf_thread_workers :: int
  cf_max_agent_steps :: int
  cf_tool_timeout_seconds :: pyfloat
  cf_run_timeout_seconds :: pyfloat
  cf_run_retention_seconds :: pyfloat
  cf_max_run_records :: int
  cf_history_messages :: int
  cf_audit_capacity :: int

definition runtime_defaults :: runtime_config where
  "runtime_defaults = \<lparr>cf_max_concurrency = 10, cf_queue_capacity = 100,
     cf_queue_retry_after_seconds = 1, cf_thread_workers = 10, cf_max_agent_steps = 8,
     cf_tool_timeout_seconds = 30, cf_run_timeout_seconds = 300,
     cf_run_retention_seconds = 3600, cf_max_run_records = 10000, cf_history_messages = 20,
     cf_audit_capacity = 10000\<rparr>"

definition runtime_validate :: "runtime_config \<Rightarrow> exn + unit" where
  "runtime_validate c =
     (let vals = [cf_max_concurrency c, cf_queue_capacity c, cf_queue_retry_after_seconds c,
                  cf_thread_workers c, cf_max_agent_steps c, cf_max_run_records c,
                  cf_history_messages c, cf_audit_capacity c];
          minimum_records = cf_max_concurrency c + cf_queue_capacity c
      in if (\<exists>v \<in> set vals. v \<le> 0) \<or> cf_tool_timeout_seconds c \<le> 0
            \<or> cf_run_timeout_seconds c \<le> 0 \<or> cf_run_retention_seconds c \<le> 0
         then config_error ''runtime limits and timeouts must be positive''
         else if cf_max_run_records c < minimum_records
         then config_error ''runtime.max_run_records must cover active and queued runs''
         else Inr ())"

record app_config =
  ac_provider :: provider_config
  ac_retry :: retry_config
  ac_rate_limit :: rate_limit_config
  ac_circuit_breaker :: breaker_config
  ac_runtime :: runtime_config

definition app_defaults :: app_config where
  "app_defaults = \<lparr>ac_provider = provider_defaults, ac_retry = retry_defaults,
     ac_rate_limit = rate_limit_defaults, ac_circuit_breaker = breaker_defaults,
     ac_runtime = runtime_defaults\<rparr>"

definition app_validate :: "app_config \<Rightarrow> exn + unit" where
  "app_validate c =
     (case provider_validate (ac_provider c) of Inl e \<Rightarrow> Inl e | Inr _ \<Rightarrow>
     (case retry_validate (ac_retry c) of Inl e \<Rightarrow> Inl e | Inr _ \<Rightarrow>
     (case rate_limit_validate (ac_rate_limit c) of Inl e \<Rightarrow> Inl e | Inr _ \<Rightarrow>
     (case breaker_validate (ac_circuit_breaker c) of Inl e \<Rightarrow> Inl e | Inr _ \<Rightarrow>
      runtime_validate (ac_runtime c)))))"

lemma runtime_validateD:
  assumes "runtime_validate c = Inr ()"
  shows "0 < cf_max_concurrency c" "0 < cf_queue_capacity c" "0 < cf_max_agent_steps c"
    "0 < cf_max_run_records c" "0 < cf_history_messages c" "0 < cf_audit_capacity c"
    "0 < cf_run_retention_seconds c"
    "cf_max_concurrency c + cf_queue_capacity c \<le> cf_max_run_records c"
  using assms by (auto simp: runtime_validate_def Let_def split: if_splits)

lemma retry_validateD:
  assumes "retry_validate c = Inr ()"
  shows "0 < rc_max_attempts c" "0 \<le> rc_base_delay_seconds c"
    "rc_base_delay_seconds c \<le> rc_max_delay_seconds c" "0 \<le> rc_jitter_ratio c"
    "rc_jitter_ratio c \<le> 1"
  using assms by (auto simp: retry_validate_def split: if_splits)

lemma breaker_validateD:
  assumes "breaker_validate c = Inr ()"
  shows "0 < cb_failure_threshold c" "0 < cb_half_open_max_calls c"
    "0 \<le> cb_recovery_timeout_seconds c"
  using assms by (auto simp: breaker_validate_def split: if_splits)

lemma rate_limit_validateD:
  assumes "rate_limit_validate c = Inr ()"
  shows "0 < rl_capacity c" "0 < rl_refill_per_second c"
  using assms by (auto simp: rate_limit_validate_def split: if_splits)

lemma runtime_defaults_valid [simp]: "runtime_validate runtime_defaults = Inr ()"
  by (simp add: runtime_validate_def runtime_defaults_def)

end
