(* ===== verification/Fsm.thy ===== *)
theory Fsm
  imports Models
begin

section \<open>The run life-cycle state machine\<close>

text \<open>
  \<open>fsm.py\<close>. The whitelist of transitions, the three transition operations of \<open>StateMachine\<close>,
  \<open>_apply\<close>, and the table of per-run locks with \<open>_lock_for\<close> and \<open>discard\<close>. A run record is
  passed in and returned updated; the hook (\<open>AgentRuntime._on_transition\<close> in the program) is a
  parameter that updates the caller's world \<open>'w\<close>. \<open>None\<close> is the missing hook. A lock is its
  \<open>locked()\<close> flag; taking it, running the body and giving it back, also when the body raises, is
  \<open>with_lock\<close>. Nothing between the two suspends (the hook emits an event, which is synchronous),
  so a transition is one step of the event loop.
\<close>

definition legal_transitions :: "(run_state \<times> run_state) list" where
  "legal_transitions =
     [(CREATED, READY), (CREATED, CANCELLED),
      (READY, RUNNING), (READY, CANCELLED),
      (RUNNING, WAITING), (RUNNING, SUCCEEDED), (RUNNING, FAILED), (RUNNING, CANCELLED),
      (WAITING, RUNNING), (WAITING, FAILED), (WAITING, CANCELLED),
      (FAILED, READY)]"

definition can_transition :: "run_state \<Rightarrow> run_state \<Rightarrow> bool" where
  "can_transition source target \<longleftrightarrow> (source, target) \<in> set legal_transitions"

type_synonym 'w hook = "run_record \<Rightarrow> run_state \<Rightarrow> run_state \<Rightarrow> string \<Rightarrow> 'w \<Rightarrow> 'w"
type_synonym locks = "(string, bool) dict"

subsection \<open>Locks\<close>

definition lock_for :: "string \<Rightarrow> locks \<Rightarrow> locks" where
  "lock_for rid ls = dict_setdefault rid False ls"

definition with_lock :: "string \<Rightarrow> (locks \<Rightarrow> 'a \<times> locks) \<Rightarrow> locks \<Rightarrow> 'a \<times> locks" where
  "with_lock rid body ls =
     (let (r, ls') = body (dict_set rid True (lock_for rid ls)) in (r, dict_set rid False ls'))"

definition discard :: "string \<Rightarrow> locks \<Rightarrow> locks" where
  "discard rid ls =
     (case dict_get ls rid of
        Some locked \<Rightarrow> if \<not> locked then dict_pop rid ls else ls
      | None \<Rightarrow> ls)"

definition locks_free :: "locks \<Rightarrow> bool" where
  "locks_free ls \<longleftrightarrow> (\<forall>(rid, locked) \<in> set ls. \<not> locked)"

subsection \<open>Transitions\<close>

text \<open>\<open>_apply\<close>: the record first, then the hook on the updated record.\<close>

definition apply_record :: "time \<Rightarrow> run_state \<Rightarrow> run_state \<Rightarrow> string \<Rightarrow> run_record \<Rightarrow> run_record" where
  "apply_record now source target reason run =
     (let run1 = run\<lparr>rr_state := target, rr_updated_at := now\<rparr>;
          run2 = (if target = RUNNING \<and> rr_started_at run1 = None
                  then run1\<lparr>rr_started_at := Some now\<rparr> else run1);
          run3 = (if target \<in> set [SUCCEEDED, FAILED, CANCELLED]
                  then run2\<lparr>rr_finished_at := Some now\<rparr> else run2);
          entry = \<lparr>te_from = source, te_to = target, te_at = now,
                   te_reason = (if reason \<noteq> [] then Some reason else None)\<rparr>
      in run3\<lparr>rr_transitions := rr_transitions run3 @ [entry]\<rparr>)"

definition apply_transition ::
    "'w hook option \<Rightarrow> time \<Rightarrow> run_state \<Rightarrow> run_state \<Rightarrow> string \<Rightarrow> run_record \<times> 'w \<Rightarrow> run_record \<times> 'w"
where
  "apply_transition hook now source target reason rw =
     (let run = apply_record now source target reason (fst rw)
      in (run, case hook of Some h \<Rightarrow> h run source target reason (snd rw) | None \<Rightarrow> snd rw))"

definition illegal_message :: "run_state \<Rightarrow> run_state \<Rightarrow> string" where
  "illegal_message source target =
     ''illegal run state transition: '' @ state_value source @ '' -> '' @ state_value target"

definition transition ::
    "'w hook option \<Rightarrow> time \<Rightarrow> run_state \<Rightarrow> string \<Rightarrow> run_record \<times> 'w \<Rightarrow> locks \<Rightarrow>
     ((exn + unit) \<times> run_record \<times> 'w) \<times> locks" where
  "transition hook now target reason rw =
     with_lock (rr_id (fst rw)) (\<lambda>ls.
       let source = rr_state (fst rw) in
       (if \<not> can_transition source target
        then (Inl (InvalidStateTransition (illegal_message source target)), rw)
        else (Inr (), apply_transition hook now source target reason rw), ls))"

definition transition_if_current ::
    "'w hook option \<Rightarrow> time \<Rightarrow> run_state \<Rightarrow> run_state \<Rightarrow> string \<Rightarrow> run_record \<times> 'w \<Rightarrow> locks \<Rightarrow>
     ((exn + bool) \<times> run_record \<times> 'w) \<times> locks" where
  "transition_if_current hook now expected target reason rw =
     with_lock (rr_id (fst rw)) (\<lambda>ls.
       (if rr_state (fst rw) \<noteq> expected then (Inr False, rw)
        else if \<not> can_transition expected target
        then (Inl (InvalidStateTransition (illegal_message expected target)), rw)
        else (Inr True, apply_transition hook now expected target reason rw), ls))"

definition transition_if_allowed ::
    "'w hook option \<Rightarrow> time \<Rightarrow> run_state \<Rightarrow> string \<Rightarrow> run_record \<times> 'w \<Rightarrow> locks \<Rightarrow>
     (bool \<times> run_record \<times> 'w) \<times> locks" where
  "transition_if_allowed hook now target reason rw =
     with_lock (rr_id (fst rw)) (\<lambda>ls.
       let source = rr_state (fst rw) in
       (if \<not> can_transition source target then (False, rw)
        else (True, apply_transition hook now source target reason rw), ls))"

subsection \<open>The transition table\<close>

lemma can_transition_table [legal_simps]:
  "can_transition CREATED t \<longleftrightarrow> t = READY \<or> t = CANCELLED"
  "can_transition READY t \<longleftrightarrow> t = RUNNING \<or> t = CANCELLED"
  "can_transition RUNNING t \<longleftrightarrow> t = WAITING \<or> t = SUCCEEDED \<or> t = FAILED \<or> t = CANCELLED"
  "can_transition WAITING t \<longleftrightarrow> t = RUNNING \<or> t = FAILED \<or> t = CANCELLED"
  "can_transition SUCCEEDED t \<longleftrightarrow> False"
  "can_transition FAILED t \<longleftrightarrow> t = READY"
  "can_transition CANCELLED t \<longleftrightarrow> False"
  by (auto simp: can_transition_def legal_transitions_def)

lemma can_cancel: "can_transition s CANCELLED \<longleftrightarrow> \<not> terminal s"
  by (cases s) (simp_all add: legal_simps)

lemma terminal_exit: "terminal s \<Longrightarrow> can_transition s t \<Longrightarrow> s = FAILED \<and> t = READY"
  by (cases s) (simp_all add: legal_simps)

lemma into_ready: "can_transition s READY \<longleftrightarrow> s = CREATED \<or> s = FAILED"
  by (cases s) (simp_all add: legal_simps)

subsection \<open>Effect on the lock table\<close>

lemma locks_free_get: "locks_free ls \<Longrightarrow> dict_get ls r = Some b \<Longrightarrow> \<not> b"
  by (auto simp: locks_free_def dest: map_of_SomeD)

lemma locks_free_set: "locks_free ls \<Longrightarrow> locks_free (dict_set r False ls)"
  by (induction ls) (auto simp: locks_free_def)

lemma locks_free_release:
  "locks_free ls \<Longrightarrow> locks_free (dict_set r False (dict_set r True (lock_for r ls)))"
proof (induction ls)
  case (Cons a ls)
  then show ?case
    by (cases a; cases "fst a = r")
      (auto simp: locks_free_def lock_for_def dict_setdefault_def split: option.splits)
qed (simp add: locks_free_def lock_for_def dict_setdefault_def)

lemma locks_free_lock_for: "locks_free ls \<Longrightarrow> locks_free (lock_for r ls)"
  by (auto simp: lock_for_def dict_setdefault_def locks_free_def split: option.splits)

lemma with_lock_const:
  "with_lock r (\<lambda>ls. (x, ls)) ls = (x, dict_set r False (dict_set r True (lock_for r ls)))"
  by (simp add: with_lock_def)

lemma snd_with_lock_const:
  "snd (with_lock r (\<lambda>ls. (x, ls)) ls) = dict_set r False (dict_set r True (lock_for r ls))"
  by (simp add: with_lock_const)

lemma snd_transition:
  "snd (transition h now t rs rw ls) =
     dict_set (rr_id (fst rw)) False (dict_set (rr_id (fst rw)) True (lock_for (rr_id (fst rw)) ls))"
  "snd (transition_if_current h now e t rs rw ls) =
     dict_set (rr_id (fst rw)) False (dict_set (rr_id (fst rw)) True (lock_for (rr_id (fst rw)) ls))"
  "snd (transition_if_allowed h now t rs rw ls) =
     dict_set (rr_id (fst rw)) False (dict_set (rr_id (fst rw)) True (lock_for (rr_id (fst rw)) ls))"
  by (simp_all add: transition_def transition_if_current_def transition_if_allowed_def Let_def
      snd_with_lock_const)

lemma locks_free_discard: "locks_free ls \<Longrightarrow> locks_free (discard r ls)"
  by (auto simp: discard_def locks_free_def AList.delete_eq split: option.splits if_splits)

subsection \<open>Well-formed runs\<close>

text \<open>Replaying a recorded history against the whitelist; \<open>None\<close> at the first illegal entry.\<close>

fun replay :: "run_state \<Rightarrow> transition_entry list \<Rightarrow> run_state option" where
  "replay s [] = Some s"
| "replay s (t # ts) =
     (if te_from t = s \<and> can_transition s (te_to t) then replay (te_to t) ts else None)"

definition wf_run :: "run_record \<Rightarrow> bool" where
  "wf_run r \<longleftrightarrow> rr_id r \<noteq> [] \<and> \<not> blank (rr_input r) \<and> rr_session_id r \<noteq> []
     \<and> replay CREATED (rr_transitions r) = Some (rr_state r)
     \<and> (rr_state r \<in> {RUNNING, WAITING, SUCCEEDED} \<longrightarrow> rr_started_at r \<noteq> None)
     \<and> (terminal (rr_state r) \<longrightarrow> rr_finished_at r \<noteq> None)"

lemma replay_append: "replay s (ts @ us) = Option.bind (replay s ts) (\<lambda>t. replay t us)"
  by (induction ts arbitrary: s) auto

lemma apply_record_state [simp]:
  "rr_state (apply_record now s t rs r) = t"
  by (simp add: apply_record_def Let_def)

lemma apply_record_frame [simp]:
  "rr_id (apply_record now s t rs r) = rr_id r"
  "rr_input (apply_record now s t rs r) = rr_input r"
  "rr_kind (apply_record now s t rs r) = rr_kind r"
  "rr_session_id (apply_record now s t rs r) = rr_session_id r"
  "rr_trace_id (apply_record now s t rs r) = rr_trace_id r"
  "rr_output (apply_record now s t rs r) = rr_output r"
  "rr_error (apply_record now s t rs r) = rr_error r"
  "rr_created_at (apply_record now s t rs r) = rr_created_at r"
  "rr_steps (apply_record now s t rs r) = rr_steps r"
  "rr_cancel_requested (apply_record now s t rs r) = rr_cancel_requested r"
  by (simp_all add: apply_record_def Let_def)

lemma apply_record_updated [simp]: "rr_updated_at (apply_record now s t rs r) = now"
  by (simp add: apply_record_def Let_def)

lemma apply_record_history:
  "rr_transitions (apply_record now s t rs r) =
     rr_transitions r @ [\<lparr>te_from = s, te_to = t, te_at = now,
       te_reason = (if rs \<noteq> [] then Some rs else None)\<rparr>]"
  by (simp add: apply_record_def Let_def)

lemma apply_record_times:
  "rr_started_at (apply_record now s t rs r) =
     (if t = RUNNING \<and> rr_started_at r = None then Some now else rr_started_at r)"
  "rr_finished_at (apply_record now s t rs r) =
     (if terminal t then Some now else rr_finished_at r)"
  by (auto simp: apply_record_def Let_def terminal_def)

lemma wf_run_new: "mk_run_record i inp k s t now = Inr r \<Longrightarrow> wf_run r"
  by (auto simp: mk_run_record_def wf_run_def split: if_splits)

lemma wf_apply_record [inv_intros]:
  assumes "wf_run r" and "can_transition (rr_state r) t"
  shows "wf_run (apply_record now (rr_state r) t rs r)"
  using assms
  by (cases "rr_state r")
    (auto simp: wf_run_def apply_record_history apply_record_times replay_append legal_simps)

text \<open>A completed history of a run that succeeded or was cancelled cannot be extended.\<close>

lemma replay_final:
  "replay s (ts @ us) \<noteq> None \<Longrightarrow> replay s ts = Some SUCCEEDED \<or> replay s ts = Some CANCELLED \<Longrightarrow>
   us = []"
  by (cases us) (auto simp: replay_append legal_simps)

end
