(* ===== verification/Metrics.thy ===== *)
theory Metrics
  imports Models "HOL-Library.List_Lexorder" "HOL-Library.Char_ord"
begin

section \<open>Metrics\<close>

text \<open>
  \<open>metrics.py\<close>: the registry of named floats (a \<open>defaultdict(float)\<close>), its updates, the
  \<open>timer\<close> context manager and the Prometheus text. Every update holds the registry's thread
  lock for its whole body, so updates are sequential. The number format \<open>.9g\<close> is the
  parameter \<open>fmt\<close>.
\<close>

type_synonym metrics = "(string, pyfloat) dict"

definition metric :: "metrics \<Rightarrow> string \<Rightarrow> pyfloat" where
  "metric m k = (case dict_get m k of None \<Rightarrow> 0 | Some v \<Rightarrow> v)"

definition increment :: "string \<Rightarrow> pyfloat \<Rightarrow> metrics \<Rightarrow> metrics" where
  "increment k v m = dict_set k (metric m k + v) m"

definition set_metric :: "string \<Rightarrow> pyfloat \<Rightarrow> metrics \<Rightarrow> metrics" where
  "set_metric k v m = dict_set k v m"

definition timer :: "string \<Rightarrow> pyfloat \<Rightarrow> metrics \<Rightarrow> metrics" where
  "timer k elapsed m =
     increment (k @ ''_seconds_count'') 1 (increment (k @ ''_seconds_sum'') elapsed m)"

definition snapshot :: "metrics \<Rightarrow> (string, pyfloat) dict" where
  "snapshot m = m"

text \<open>\<open>str.isalnum\<close> on code points below 256.\<close>

definition is_alnum :: "char \<Rightarrow> bool" where
  "is_alnum c \<longleftrightarrow>
     (let n = of_char c :: nat in
      48 \<le> n \<and> n \<le> 57 \<or> 65 \<le> n \<and> n \<le> 90 \<or> 97 \<le> n \<and> n \<le> 122
      \<or> n \<in> set [170, 178, 179, 181, 185, 186, 188, 189, 190]
      \<or> 192 \<le> n \<and> n \<noteq> 215 \<and> n \<noteq> 247)"

definition sanitize :: "string \<Rightarrow> string" where
  "sanitize value = map (\<lambda>c. if is_alnum c \<or> c = CHR ''_'' then c else CHR ''_'') value"

definition render_prometheus :: "(pyfloat \<Rightarrow> string) \<Rightarrow> metrics \<Rightarrow> string" where
  "render_prometheus fmt m =
     join [CHR 0x0A]
       (''# TYPE agent_runtime_metric gauge'' #
        map (\<lambda>(k, v). ''agent_runtime_'' @ sanitize k @ '' '' @ fmt v) (sort_key fst (snapshot m)))
     @ [CHR 0x0A]"

lemma metric_increment [simp]:
  "metric (increment k v m) j = (if j = k then metric m k + v else metric m j)"
  by (simp add: metric_def increment_def)

lemma metric_set [simp]: "metric (set_metric k v m) j = (if j = k then v else metric m j)"
  by (simp add: metric_def set_metric_def)

lemma metric_Nil [simp]: "metric [] k = 0"
  by (simp add: metric_def)

lemma distinct_increment [simp]: "distinct (keys (increment k v m)) = distinct (keys m)"
  by (simp add: increment_def)

text \<open>The order of increments does not matter: a counter is the sum of what was added to it.\<close>

lemma metric_fold_increment:
  "metric (fold (\<lambda>(k, v). increment k v) ops m) j =
     metric m j + sum_list (map snd (filter (\<lambda>(k, v). k = j) ops))"
  by (induction ops arbitrary: m) (auto simp: algebra_simps)

lemma sanitize_chars: "c \<in> set (sanitize s) \<Longrightarrow> is_alnum c \<or> c = CHR ''_''"
  by (auto simp: sanitize_def split: if_splits)

lemma length_sanitize [simp]: "length (sanitize s) = length s"
  by (simp add: sanitize_def)

end
