(* ===== verification/Events.thy ===== *)
theory Events
  imports Metrics
begin

section \<open>Event bus and audit trail\<close>

text \<open>
  \<open>events.py\<close>: the bounded audit trail, the subscriptions with a bounded queue and a fixed
  number of workers each, and the operations of \<open>EventBus\<close>. Queue items are \<open>Some event\<close> or the
  shutdown mark \<open>None\<close>. A subscription worker takes two steps, \<open>worker_get\<close> and \<open>worker_done\<close>,
  because it suspends while its handler runs; whether the handler raised is the argument \<open>ok\<close>.
  The bus writes to the metrics registry and draws event ids from \<open>uuid4\<close>, so its operations act
  on the \<open>world\<close> of these three. \<open>uuids\<close> is the stream of \<open>uuid4().hex\<close> values.
\<close>

record event =
  ev_id :: string
  ev_topic :: string
  ev_trace_id :: string
  ev_agent_id :: string
  ev_timestamp :: time
  ev_payload :: "(string, pyval) dict"

definition event_to_dict :: "event \<Rightarrow> (string, pyval) dict" where
  "event_to_dict e =
     [(''id'', PStr (ev_id e)), (''topic'', PStr (ev_topic e)),
      (''trace_id'', PStr (ev_trace_id e)), (''agent_id'', PStr (ev_agent_id e)),
      (''timestamp'', PFloat (ev_timestamp e)), (''payload'', PDict (ev_payload e))]"

record subscription =
  sub_topic :: string
  sub_queue :: "event option list"
  sub_maxsize :: nat
  sub_workers :: nat
  sub_tasks :: nat
  sub_busy :: nat
  sub_unfinished :: nat

record event_bus =
  eb_audit :: "event list"
  eb_capacity :: nat
  eb_subs :: "subscription list"
  eb_started :: bool

record world =
  w_metrics :: metrics
  w_bus :: event_bus
  w_uuids :: nat

definition uuid4 :: "(nat \<Rightarrow> string) \<Rightarrow> world \<Rightarrow> string \<times> world" where
  "uuid4 uuids w = (uuids (w_uuids w), w\<lparr>w_uuids := Suc (w_uuids w)\<rparr>)"

definition w_increment :: "string \<Rightarrow> pyfloat \<Rightarrow> world \<Rightarrow> world" where
  "w_increment k v w = w\<lparr>w_metrics := increment k v (w_metrics w)\<rparr>"

definition w_set :: "string \<Rightarrow> pyfloat \<Rightarrow> world \<Rightarrow> world" where
  "w_set k v w = w\<lparr>w_metrics := set_metric k v (w_metrics w)\<rparr>"

subsection \<open>Audit trail\<close>

definition audit_new :: "int \<Rightarrow> exn + event list \<times> nat" where
  "audit_new capacity =
     (if capacity \<le> 0 then Inl (ValueError ''audit capacity must be positive'')
      else Inr ([], nat capacity))"

definition audit_record :: "event \<Rightarrow> event_bus \<Rightarrow> event_bus" where
  "audit_record e b = b\<lparr>eb_audit := deque_append (eb_capacity b) (eb_audit b) e\<rparr>"

definition audit_list :: "string option \<Rightarrow> event_bus \<Rightarrow> (string, pyval) dict list" where
  "audit_list trace b =
     map event_to_dict
       (filter (\<lambda>e. case trace of None \<Rightarrow> True | Some t \<Rightarrow> ev_trace_id e = t) (eb_audit b))"

subsection \<open>Subscribing, starting, publishing\<close>

definition bus_new :: "int \<Rightarrow> exn + event_bus" where
  "bus_new capacity =
     (case audit_new capacity of
        Inl e \<Rightarrow> Inl e
      | Inr (evs, cap) \<Rightarrow>
          Inr \<lparr>eb_audit = evs, eb_capacity = cap, eb_subs = [], eb_started = False\<rparr>)"

definition subscribe :: "string \<Rightarrow> int \<Rightarrow> int \<Rightarrow> event_bus \<Rightarrow> exn + event_bus" where
  "subscribe topic max_concurrency queue_size b =
     (if eb_started b
      then Inl (BuiltinRuntimeError ''subscriptions must be registered before EventBus.start'')
      else if max_concurrency \<le> 0 \<or> queue_size \<le> 0
      then Inl (ValueError ''subscription limits must be positive'')
      else Inr (b\<lparr>eb_subs := eb_subs b @
        [\<lparr>sub_topic = topic, sub_queue = [], sub_maxsize = nat queue_size,
          sub_workers = nat max_concurrency, sub_tasks = 0, sub_busy = 0,
          sub_unfinished = 0\<rparr>]\<rparr>))"

definition bus_start :: "event_bus \<Rightarrow> event_bus" where
  "bus_start b =
     (if eb_started b then b
      else b\<lparr>eb_started := True,
             eb_subs := map (\<lambda>s. s\<lparr>sub_tasks := sub_workers s\<rparr>) (eb_subs b)\<rparr>)"

definition sub_full :: "subscription \<Rightarrow> bool" where
  "sub_full s \<longleftrightarrow> sub_maxsize s \<le> length (sub_queue s)"

definition sub_put :: "event option \<Rightarrow> subscription \<Rightarrow> subscription" where
  "sub_put x s = s\<lparr>sub_queue := sub_queue s @ [x], sub_unfinished := Suc (sub_unfinished s)\<rparr>"

definition matches :: "string \<Rightarrow> subscription \<Rightarrow> bool" where
  "matches topic s \<longleftrightarrow> sub_topic s \<in> set [topic, ''*'']"

fun deliver :: "event \<Rightarrow> subscription list \<Rightarrow> metrics \<Rightarrow> subscription list \<times> metrics" where
  "deliver e [] m = ([], m)"
| "deliver e (s # ss) m =
     (if \<not> matches (ev_topic e) s
      then (let (ss', m') = deliver e ss m in (s # ss', m'))
      else if sub_full s
      then (let (ss', m') = deliver e ss (increment ''event_deliveries_dropped_total'' 1 m)
            in (s # ss', m'))
      else (let (ss', m') = deliver e ss m in (sub_put (Some e) s # ss', m')))"

definition emit ::
    "(nat \<Rightarrow> string) \<Rightarrow> time \<Rightarrow> string \<Rightarrow> string \<Rightarrow> string \<Rightarrow> (string, pyval) dict \<Rightarrow> world \<Rightarrow> world" where
  "emit uuids now topic trace_id agent_id payload w =
     (let (i, w1) = uuid4 uuids w;
          e = \<lparr>ev_id = i, ev_topic = topic, ev_trace_id = trace_id, ev_agent_id = agent_id,
               ev_timestamp = now, ev_payload = payload\<rparr>;
          b = audit_record e (w_bus w1);
          m = increment ''events_published_total'' 1 (w_metrics w1);
          (subs, m') = deliver e (eb_subs b) m
      in w1\<lparr>w_bus := b\<lparr>eb_subs := subs\<rparr>, w_metrics := m'\<rparr>)"

subsection \<open>Subscription workers\<close>

text \<open>
  \<open>worker_get i\<close>: an idle worker of subscription \<open>i\<close> takes the next item; on the shutdown mark
  it returns. \<open>worker_done i ok\<close>: a busy worker's handler finished. Both are \<open>None\<close> where no
  worker can take that step.
\<close>

definition worker_get :: "nat \<Rightarrow> event_bus \<Rightarrow> event_bus option" where
  "worker_get i b =
     (if i < length (eb_subs b) \<and> sub_busy (eb_subs b ! i) < sub_tasks (eb_subs b ! i)
      then let s = eb_subs b ! i in
        (case sub_queue s of
           [] \<Rightarrow> None
         | None # q \<Rightarrow>
             Some (b\<lparr>eb_subs := (eb_subs b)[i := s\<lparr>sub_queue := q, sub_tasks := sub_tasks s - 1,
               sub_unfinished := sub_unfinished s - 1\<rparr>]\<rparr>)
         | Some e # q \<Rightarrow>
             Some (b\<lparr>eb_subs := (eb_subs b)[i := s\<lparr>sub_queue := q,
               sub_busy := Suc (sub_busy s)\<rparr>]\<rparr>))
      else None)"

definition worker_done :: "nat \<Rightarrow> bool \<Rightarrow> world \<Rightarrow> world option" where
  "worker_done i ok w =
     (let b = w_bus w in
      if i < length (eb_subs b) \<and> 0 < sub_busy (eb_subs b ! i)
      then let s = eb_subs b ! i in
        Some (w\<lparr>w_metrics := increment (if ok then ''event_deliveries_total''
                                         else ''event_handler_errors_total'') 1 (w_metrics w),
                w_bus := b\<lparr>eb_subs := (eb_subs b)[i := s\<lparr>sub_busy := sub_busy s - 1,
                  sub_unfinished := sub_unfinished s - 1\<rparr>]\<rparr>\<rparr>)
      else None)"

text \<open>
  \<open>close\<close> awaits \<open>queue.put(None)\<close> once per task of each subscription: \<open>close_put i\<close> is one such
  put, blocked while the queue is full. When every task has returned, \<open>close_finish\<close> ends it.
\<close>

definition close_put :: "nat \<Rightarrow> event_bus \<Rightarrow> event_bus option" where
  "close_put i b =
     (if eb_started b \<and> i < length (eb_subs b) \<and> \<not> sub_full (eb_subs b ! i)
      then Some (b\<lparr>eb_subs := (eb_subs b)[i := sub_put None (eb_subs b ! i)]\<rparr>)
      else None)"

definition close_finish :: "event_bus \<Rightarrow> event_bus option" where
  "close_finish b =
     (if \<not> eb_started b then Some b
      else if \<forall>s \<in> set (eb_subs b). sub_tasks s = 0 then Some (b\<lparr>eb_started := False\<rparr>)
      else None)"

subsection \<open>What the operations leave alone\<close>

lemma w_increment_frame [simp]:
  "w_bus (w_increment k v w) = w_bus w" "w_uuids (w_increment k v w) = w_uuids w"
  "w_metrics (w_increment k v w) = increment k v (w_metrics w)"
  by (simp_all add: w_increment_def)

lemma w_set_frame [simp]:
  "w_bus (w_set k v w) = w_bus w" "w_uuids (w_set k v w) = w_uuids w"
  "w_metrics (w_set k v w) = set_metric k v (w_metrics w)"
  by (simp_all add: w_set_def)

lemma uuid4_simps [simp]:
  "fst (uuid4 U w) = U (w_uuids w)"
  "w_uuids (snd (uuid4 U w)) = Suc (w_uuids w)"
  "w_bus (snd (uuid4 U w)) = w_bus w" "w_metrics (snd (uuid4 U w)) = w_metrics w"
  by (simp_all add: uuid4_def)

lemma metric_deliver:
  "k \<noteq> ''event_deliveries_dropped_total'' \<Longrightarrow> metric (snd (deliver e ss m)) k = metric m k"
  by (induction e ss m rule: deliver.induct) (auto split: prod.splits)

lemma w_uuids_emit [simp]: "w_uuids (emit U now t tr a p w) = Suc (w_uuids w)"
  by (simp add: emit_def uuid4_def Let_def split: prod.splits)

lemma eb_frame_emit [simp]:
  "eb_capacity (w_bus (emit U now t tr a p w)) = eb_capacity (w_bus w)"
  "eb_started (w_bus (emit U now t tr a p w)) = eb_started (w_bus w)"
  by (simp_all add: emit_def uuid4_def Let_def audit_record_def split: prod.splits)

lemma eb_audit_emit:
  "eb_audit (w_bus (emit U now t tr a p w)) =
     deque_append (eb_capacity (w_bus w)) (eb_audit (w_bus w))
       \<lparr>ev_id = U (w_uuids w), ev_topic = t, ev_trace_id = tr, ev_agent_id = a,
        ev_timestamp = now, ev_payload = p\<rparr>"
  by (simp add: emit_def uuid4_def Let_def audit_record_def split: prod.splits)

lemma w_metrics_emit:
  "w_metrics (emit U now t tr a p w) =
     snd (deliver \<lparr>ev_id = U (w_uuids w), ev_topic = t, ev_trace_id = tr, ev_agent_id = a,
            ev_timestamp = now, ev_payload = p\<rparr> (eb_subs (w_bus w))
          (increment ''events_published_total'' 1 (w_metrics w)))"
  by (simp add: emit_def uuid4_def Let_def audit_record_def split: prod.splits)

lemma eb_subs_emit:
  "eb_subs (w_bus (emit U now t tr a p w)) =
     fst (deliver \<lparr>ev_id = U (w_uuids w), ev_topic = t, ev_trace_id = tr, ev_agent_id = a,
            ev_timestamp = now, ev_payload = p\<rparr> (eb_subs (w_bus w))
          (increment ''events_published_total'' 1 (w_metrics w)))"
  by (simp add: emit_def uuid4_def Let_def audit_record_def split: prod.splits)

lemma metric_emit [simp]:
  assumes "k \<noteq> ''events_published_total''" and "k \<noteq> ''event_deliveries_dropped_total''"
  shows "metric (w_metrics (emit U now t tr a p w)) k = metric (w_metrics w) k"
  using assms(1) by (simp add: w_metrics_emit metric_deliver [OF assms(2)])

subsection \<open>Publishing is local to each subscription\<close>

definition deliver_one :: "event \<Rightarrow> subscription \<Rightarrow> subscription" where
  "deliver_one e s =
     (if matches (ev_topic e) s \<and> \<not> sub_full s then sub_put (Some e) s else s)"

lemma fst_deliver: "fst (deliver e ss m) = map (deliver_one e) ss"
  by (induction e ss m rule: deliver.induct) (auto simp: deliver_one_def split: prod.splits)

lemma dropped_deliver:
  "metric (snd (deliver e ss m)) ''event_deliveries_dropped_total'' =
     metric m ''event_deliveries_dropped_total''
     + of_nat (length (filter (\<lambda>s. matches (ev_topic e) s \<and> sub_full s) ss))"
  by (induction e ss m rule: deliver.induct) (auto split: prod.splits)

subsection \<open>Bus invariant\<close>

definition wf_sub :: "subscription \<Rightarrow> bool" where
  "wf_sub s \<longleftrightarrow> 0 < sub_maxsize s \<and> length (sub_queue s) \<le> sub_maxsize s
     \<and> sub_unfinished s = length (sub_queue s) + sub_busy s
     \<and> sub_busy s \<le> sub_tasks s \<and> sub_tasks s \<le> sub_workers s"

definition wf_bus :: "event_bus \<Rightarrow> bool" where
  "wf_bus b \<longleftrightarrow> 0 < eb_capacity b \<and> length (eb_audit b) \<le> eb_capacity b
     \<and> (\<forall>s \<in> set (eb_subs b). wf_sub s)
     \<and> (\<not> eb_started b \<longrightarrow> (\<forall>s \<in> set (eb_subs b). sub_busy s = 0 \<and> sub_tasks s = 0))"

lemma wf_bus_new: "bus_new cap = Inr b \<Longrightarrow> wf_bus b"
  by (auto simp: bus_new_def audit_new_def wf_bus_def split: if_splits sum.splits)

lemma wf_sub_put: "wf_sub s \<Longrightarrow> \<not> sub_full s \<Longrightarrow> wf_sub (sub_put x s)"
  by (simp add: wf_sub_def sub_put_def sub_full_def)

lemma wf_sub_deliver_one: "wf_sub s \<Longrightarrow> wf_sub (deliver_one e s)"
  by (simp add: deliver_one_def wf_sub_put)

lemma deliver_one_frame [simp]:
  "sub_busy (deliver_one e s) = sub_busy s" "sub_tasks (deliver_one e s) = sub_tasks s"
  by (simp_all add: deliver_one_def sub_put_def)

lemma wf_bus_subscribe [inv_intros]: "wf_bus b \<Longrightarrow> subscribe t c q b = Inr b' \<Longrightarrow> wf_bus b'"
  by (auto simp: subscribe_def wf_bus_def wf_sub_def split: if_splits)

lemma wf_bus_start [inv_intros]: "wf_bus b \<Longrightarrow> wf_bus (bus_start b)"
  by (auto simp: bus_start_def wf_bus_def wf_sub_def)

lemma wf_bus_emit [inv_intros]:
  "wf_bus (w_bus w) \<Longrightarrow> wf_bus (w_bus (emit U now t tr a p w))"
  by (auto simp: wf_bus_def eb_audit_emit eb_subs_emit fst_deliver length_deque_append
      wf_sub_deliver_one)

lemma wf_bus_update:
  assumes "wf_bus b" and "eb_started b" and "wf_sub s"
  shows "wf_bus (b\<lparr>eb_subs := (eb_subs b)[i := s]\<rparr>)"
  using assms by (auto simp: wf_bus_def dest: set_update_subset_insert [THEN subsetD])

lemma wf_bus_worker_get [inv_intros]:
  assumes b: "wf_bus b" and g: "worker_get i b = Some b'"
  shows "wf_bus b'"
proof -
  let ?s = "eb_subs b ! i"
  have i: "i < length (eb_subs b)" and busy: "sub_busy ?s < sub_tasks ?s"
    using g by (auto simp: worker_get_def split: if_splits)
  then have s: "wf_sub ?s" and started: "eb_started b"
    using b by (auto simp: wf_bus_def)
  then show ?thesis
    using g b i busy
    by (auto simp: worker_get_def Let_def split: list.splits option.splits
        intro!: wf_bus_update) (auto simp: wf_sub_def)
qed

lemma wf_bus_worker_done [inv_intros]:
  assumes b: "wf_bus (w_bus w)" and g: "worker_done i ok w = Some w'"
  shows "wf_bus (w_bus w')"
proof -
  let ?s = "eb_subs (w_bus w) ! i"
  have i: "i < length (eb_subs (w_bus w))" and busy: "0 < sub_busy ?s"
    using g by (auto simp: worker_done_def Let_def split: if_splits)
  then have s: "wf_sub ?s" and started: "eb_started (w_bus w)"
    using b by (auto simp: wf_bus_def)
  then show ?thesis
    using g b i busy
    by (auto simp: worker_done_def Let_def intro!: wf_bus_update) (auto simp: wf_sub_def)
qed

lemma wf_bus_close_put [inv_intros]: "wf_bus b \<Longrightarrow> close_put i b = Some b' \<Longrightarrow> wf_bus b'"
  by (auto simp: close_put_def split: if_splits intro!: wf_bus_update wf_sub_put)
    (simp add: wf_bus_def)

lemma wf_bus_close_finish [inv_intros]: "wf_bus b \<Longrightarrow> close_finish b = Some b' \<Longrightarrow> wf_bus b'"
  by (force simp: close_finish_def wf_bus_def wf_sub_def split: if_splits)

subsection \<open>Runs of the bus and the delivery ledger\<close>

datatype bus_op =
    Subscribe string int int
  | Start
  | Emit time string string string "(string, pyval) dict"
  | Worker_get nat
  | Worker_done nat bool
  | Close_put nat
  | Close_finish

definition on_bus :: "event_bus option \<Rightarrow> world \<Rightarrow> world" where
  "on_bus r w = (case r of None \<Rightarrow> w | Some b \<Rightarrow> w\<lparr>w_bus := b\<rparr>)"

fun bus_exec :: "(nat \<Rightarrow> string) \<Rightarrow> bus_op \<Rightarrow> world \<Rightarrow> world" where
  "bus_exec U (Subscribe t c q) w =
     (case subscribe t c q (w_bus w) of Inl _ \<Rightarrow> w | Inr b \<Rightarrow> w\<lparr>w_bus := b\<rparr>)"
| "bus_exec U Start w = w\<lparr>w_bus := bus_start (w_bus w)\<rparr>"
| "bus_exec U (Emit now t tr a p) w = emit U now t tr a p w"
| "bus_exec U (Worker_get i) w = on_bus (worker_get i (w_bus w)) w"
| "bus_exec U (Worker_done i ok) w = (case worker_done i ok w of None \<Rightarrow> w | Some w' \<Rightarrow> w')"
| "bus_exec U (Close_put i) w = on_bus (close_put i (w_bus w)) w"
| "bus_exec U Close_finish w = on_bus (close_finish (w_bus w)) w"

text \<open>The deliveries an operation asks for: one per matching subscription of a published event.\<close>

fun demanded :: "bus_op \<Rightarrow> world \<Rightarrow> nat" where
  "demanded (Emit now t tr a p) w = length (filter (matches t) (eb_subs (w_bus w)))"
| "demanded _ w = 0"

fun demanded_all :: "(nat \<Rightarrow> string) \<Rightarrow> bus_op list \<Rightarrow> world \<Rightarrow> nat" where
  "demanded_all U [] w = 0"
| "demanded_all U (x # xs) w = demanded x w + demanded_all U xs (bus_exec U x w)"

fun events_in :: "event option list \<Rightarrow> nat" where
  "events_in [] = 0"
| "events_in (None # q) = events_in q"
| "events_in (Some _ # q) = Suc (events_in q)"

text \<open>Deliveries queued or in a handler, delivered, failed and dropped.\<close>

definition sub_pending :: "subscription \<Rightarrow> nat" where
  "sub_pending s = events_in (sub_queue s) + sub_busy s"

definition ledger :: "world \<Rightarrow> pyfloat" where
  "ledger w = of_nat (sum_list (map sub_pending (eb_subs (w_bus w))))
     + metric (w_metrics w) ''event_deliveries_total''
     + metric (w_metrics w) ''event_handler_errors_total''
     + metric (w_metrics w) ''event_deliveries_dropped_total''"

lemma events_in_snoc [simp]:
  "events_in (q @ [x]) = events_in q + (case x of None \<Rightarrow> 0 | Some _ \<Rightarrow> 1)"
  by (induction q rule: events_in.induct) (auto split: option.splits)

lemma pending_put [simp]:
  "sub_pending (sub_put x s) = sub_pending s + (case x of None \<Rightarrow> 0 | Some _ \<Rightarrow> 1)"
  by (simp add: sub_pending_def sub_put_def)

lemma pending_deliver:
  "sum_list (map sub_pending (map (deliver_one e) ss))
     + length (filter (\<lambda>s. matches (ev_topic e) s \<and> sub_full s) ss)
   = sum_list (map sub_pending ss) + length (filter (matches (ev_topic e)) ss)"
  by (induction ss) (auto simp: deliver_one_def)

lemma pending_update:
  "i < length ss \<Longrightarrow> sub_pending s = sub_pending (ss ! i) \<Longrightarrow>
   sum_list (map sub_pending (ss[i := s])) = sum_list (map sub_pending ss)"
  by (metis list_update_id map_update)

lemma ledger_emit:
  "ledger (emit U now t tr a p w) =
     ledger w + of_nat (length (filter (matches t) (eb_subs (w_bus w))))"
proof -
  let ?e = "\<lparr>ev_id = U (w_uuids w), ev_topic = t, ev_trace_id = tr, ev_agent_id = a,
             ev_timestamp = now, ev_payload = p\<rparr>"
  have "of_nat (sum_list (map sub_pending (map (deliver_one ?e) (eb_subs (w_bus w)))))
      + of_nat (length (filter (\<lambda>s. matches t s \<and> sub_full s) (eb_subs (w_bus w))))
      = (of_nat (sum_list (map sub_pending (eb_subs (w_bus w))))
      + of_nat (length (filter (matches t) (eb_subs (w_bus w)))) :: pyfloat)"
    using arg_cong [OF pending_deliver [of ?e "eb_subs (w_bus w)"], of "of_nat :: nat \<Rightarrow> rat"]
    by simp
  moreover have "metric (w_metrics (emit U now t tr a p w)) ''event_deliveries_dropped_total'' =
      metric (w_metrics w) ''event_deliveries_dropped_total''
      + of_nat (length (filter (\<lambda>s. matches t s \<and> sub_full s) (eb_subs (w_bus w))))"
    by (simp add: w_metrics_emit dropped_deliver)
  ultimately show ?thesis
    by (simp add: ledger_def eb_subs_emit fst_deliver del: map_map)
qed

lemma ledger_worker_get:
  assumes "worker_get i (w_bus w) = Some b"
  shows "ledger (w\<lparr>w_bus := b\<rparr>) = ledger w"
  using assms
  by (auto simp: worker_get_def ledger_def Let_def split: if_splits list.splits option.splits
      intro!: pending_update) (simp_all add: sub_pending_def)

lemma pending_decrease:
  "i < length ss \<Longrightarrow> sub_pending (ss ! i) = Suc (sub_pending s) \<Longrightarrow>
   sum_list (map sub_pending ss) = Suc (sum_list (map sub_pending (ss[i := s])))"
  by (induction ss arbitrary: i) (auto simp: nth_Cons split: nat.splits)

lemma ledger_worker_done:
  assumes "worker_done i ok w = Some w'"
  shows "ledger w' = ledger w"
proof -
  let ?ss = "eb_subs (w_bus w)"
  let ?s = "(?ss ! i)\<lparr>sub_busy := sub_busy (?ss ! i) - 1,
               sub_unfinished := sub_unfinished (?ss ! i) - 1\<rparr>"
  have i: "i < length ?ss" and busy: "0 < sub_busy (?ss ! i)"
    using assms by (auto simp: worker_done_def Let_def split: if_splits)
  have "sum_list (map sub_pending ?ss) = Suc (sum_list (map sub_pending (?ss[i := ?s])))"
    using busy by (intro pending_decrease i) (simp add: sub_pending_def)
  then show ?thesis
    using assms i busy by (auto simp: worker_done_def ledger_def Let_def)
qed

lemma ledger_close_put:
  assumes "close_put i (w_bus w) = Some b"
  shows "ledger (w\<lparr>w_bus := b\<rparr>) = ledger w"
  using assms
  by (auto simp: close_put_def ledger_def split: if_splits intro!: pending_update)

lemma ledger_bus_exec: "ledger (bus_exec U x w) = ledger w + of_nat (demanded x w)"
proof (cases x)
  case (Subscribe t c q)
  then show ?thesis
    by (auto simp: subscribe_def ledger_def sub_pending_def split: sum.splits if_splits)
next
  case Start
  have "map sub_pending (eb_subs (bus_start b)) = map sub_pending (eb_subs b)" for b
    by (simp add: bus_start_def sub_pending_def)
  with Start show ?thesis by (simp add: ledger_def)
next
  case (Worker_get i)
  then show ?thesis by (auto simp: on_bus_def ledger_worker_get split: option.splits)
next
  case (Worker_done i ok)
  then show ?thesis by (auto simp: ledger_worker_done split: option.splits)
next
  case (Close_put i)
  then show ?thesis by (auto simp: on_bus_def ledger_close_put split: option.splits)
next
  case Close_finish
  then show ?thesis
    by (auto simp: on_bus_def close_finish_def ledger_def split: option.splits if_splits)
qed (simp add: ledger_emit)

lemma wf_bus_exec [inv_intros]: "wf_bus (w_bus w) \<Longrightarrow> wf_bus (w_bus (bus_exec U x w))"
  by (cases x) (auto simp: on_bus_def intro: inv_intros split: option.splits sum.splits)

lemma wf_bus_exec_all: "wf_bus (w_bus w) \<Longrightarrow> wf_bus (w_bus (fold (bus_exec U) xs w))"
  by (induction xs arbitrary: w) (auto intro: inv_intros)

lemma ledger_exec_all:
  "ledger (fold (bus_exec U) xs w) = ledger w + of_nat (demanded_all U xs w)"
  by (induction xs arbitrary: w) (auto simp: ledger_bus_exec)

end
