(* ===== verification/Sessions.thy ===== *)
theory Sessions
  imports Models
begin

section \<open>Conversation sessions\<close>

text \<open>
  \<open>sessions.py\<close>, the port \<open>SessionRepository\<close> of \<open>ports.py\<close> and its adapter
  \<open>InMemorySessionRepository\<close>. A session is a deque of messages bounded by \<open>max_messages\<close>.
  \<open>append_turn\<close> appends the two messages one after the other, so when the second one is
  rejected the first one stays; the result is paired with the store for that reason. The locale
  \<open>session_port\<close> is the contract the runtime relies on.
\<close>

record session_store =
  ss_max_messages :: nat
  ss_sessions :: "(string, message list) dict"

definition session_store_new :: "int \<Rightarrow> exn + session_store" where
  "session_store_new max_messages =
     (if max_messages \<le> 0 then Inl (ValueError ''max_messages must be positive'')
      else Inr \<lparr>ss_max_messages = nat max_messages, ss_sessions = []\<rparr>)"

definition session_get :: "session_store \<Rightarrow> string \<Rightarrow> message list" where
  "session_get st sid = (case dict_get (ss_sessions st) sid of None \<Rightarrow> [] | Some h \<Rightarrow> h)"

definition session_put :: "string \<Rightarrow> message list \<Rightarrow> session_store \<Rightarrow> session_store" where
  "session_put sid h st = st\<lparr>ss_sessions := dict_set sid h (ss_sessions st)\<rparr>"

definition append_turn ::
    "string \<Rightarrow> string \<Rightarrow> string \<Rightarrow> session_store \<Rightarrow> (exn + unit) \<times> session_store" where
  "append_turn sid user assistant st =
     (let history = session_get st sid;
          st0 = session_put sid history st
      in case mk_message ''user'' user None of
           Inl e \<Rightarrow> (Inl e, st0)
         | Inr mu \<Rightarrow>
            (let history1 = deque_append (ss_max_messages st) history mu;
                 st1 = session_put sid history1 st0
             in case mk_message ''assistant'' assistant None of
                  Inl e \<Rightarrow> (Inl e, st1)
                | Inr ma \<Rightarrow>
                    (Inr (), session_put sid (deque_append (ss_max_messages st) history1 ma) st1)))"

definition session_clear :: "string \<Rightarrow> session_store \<Rightarrow> session_store" where
  "session_clear sid st = st\<lparr>ss_sessions := dict_pop sid (ss_sessions st)\<rparr>"

definition session_delete :: "string \<Rightarrow> session_store \<Rightarrow> session_store" where
  "session_delete = session_clear"

definition user_message :: "string \<Rightarrow> message" where
  "user_message c = \<lparr>msg_role = ''user'', msg_content = c, msg_name = None\<rparr>"

definition assistant_message :: "string \<Rightarrow> message" where
  "assistant_message c = \<lparr>msg_role = ''assistant'', msg_content = c, msg_name = None\<rparr>"

subsection \<open>The session port\<close>

locale session_port =
  fixes get :: "'s \<Rightarrow> string \<Rightarrow> message list"
    and append :: "string \<Rightarrow> string \<Rightarrow> string \<Rightarrow> 's \<Rightarrow> (exn + unit) \<times> 's"
    and delete :: "string \<Rightarrow> 's \<Rightarrow> 's"
    and bound :: "'s \<Rightarrow> nat"
    and ok :: "'s \<Rightarrow> bool"
  assumes append_ok: "ok s \<Longrightarrow> \<not> blank u \<Longrightarrow> \<not> blank a \<Longrightarrow>
      fst (append sid u a s) = Inr () \<and>
      get (snd (append sid u a s)) sid =
        lastn (bound s) (get s sid @ [user_message u, assistant_message a])"
    and append_other: "ok s \<Longrightarrow> sid' \<noteq> sid \<Longrightarrow> get (snd (append sid u a s)) sid' = get s sid'"
    and append_raises: "ok s \<Longrightarrow> blank u \<or> blank a \<Longrightarrow> \<exists>e. fst (append sid u a s) = Inl e"
    and delete_get: "ok s \<Longrightarrow> get (delete sid s) sid' = (if sid' = sid then [] else get s sid')"
    and bound_append: "bound (snd (append sid u a s)) = bound s"
    and bound_delete: "bound (delete sid s) = bound s"
    and ok_append: "ok s \<Longrightarrow> ok (snd (append sid u a s))"
    and ok_delete: "ok s \<Longrightarrow> ok (delete sid s)"
    and get_bound: "ok s \<Longrightarrow> length (get s sid) \<le> bound s"
    and get_wf: "ok s \<Longrightarrow> m \<in> set (get s sid) \<Longrightarrow> wf_message m"
begin

text \<open>Appending turns (pairs of user and assistant text) one after the other.\<close>

definition append_turns :: "string \<Rightarrow> (string \<times> string) list \<Rightarrow> 's \<Rightarrow> 's" where
  "append_turns sid turns s = fold (\<lambda>(u, a) s. snd (append sid u a s)) turns s"

lemma get_append_turns:
  "ok s \<Longrightarrow> \<forall>(u, a) \<in> set turns. \<not> blank u \<and> \<not> blank a \<Longrightarrow>
   get (append_turns sid turns s) sid =
     lastn (bound s)
       (get s sid @ concat (map (\<lambda>(u, a). [user_message u, assistant_message a]) turns))"
proof (induction turns arbitrary: s)
  case Nil
  then show ?case using get_bound [of s sid] by (simp add: append_turns_def lastn_def)
next
  case (Cons t turns)
  obtain u a where t: "t = (u, a)" by (cases t)
  let ?s = "snd (append sid u a s)"
  have "get (append_turns sid turns ?s) sid =
      lastn (bound s) (get ?s sid
        @ concat (map (\<lambda>(u, a). [user_message u, assistant_message a]) turns))"
    using Cons t by (simp add: ok_append bound_append)
  also have "get ?s sid = lastn (bound s) (get s sid @ [user_message u, assistant_message a])"
    using Cons.prems t by (simp add: append_ok)
  finally show ?case
    by (simp add: append_turns_def t lastn_lastn_append)
qed

lemma get_append_turns_other:
  "ok s \<Longrightarrow> sid' \<noteq> sid \<Longrightarrow> get (append_turns sid turns s) sid' = get s sid'"
  by (induction turns arbitrary: s) (auto simp: append_turns_def append_other ok_append)

end

subsection \<open>The in-memory store keeps the contract\<close>

definition wf_sessions :: "session_store \<Rightarrow> bool" where
  "wf_sessions st \<longleftrightarrow> 0 < ss_max_messages st
     \<and> (\<forall>sid. length (session_get st sid) \<le> ss_max_messages st
              \<and> (\<forall>m \<in> set (session_get st sid). wf_message m))"

lemma session_get_put [simp]:
  "session_get (session_put sid h st) x = (if x = sid then h else session_get st x)"
  by (simp add: session_get_def session_put_def)

lemma ss_max_put [simp]: "ss_max_messages (session_put sid h st) = ss_max_messages st"
  by (simp add: session_put_def)

lemma session_get_clear [simp]:
  "session_get (session_clear sid st) x = (if x = sid then [] else session_get st x)"
  by (simp add: session_get_def session_clear_def)

lemma ss_max_append [simp]: "ss_max_messages (snd (append_turn sid u a st)) = ss_max_messages st"
  by (simp add: append_turn_def Let_def split: sum.splits)

lemma append_turn_cases:
  "append_turn sid u a st =
     (if blank u then (Inl (ValueError ''message content must not be empty''),
                       session_put sid (session_get st sid) st)
      else let h = deque_append (ss_max_messages st) (session_get st sid) (user_message u) in
        if blank a then (Inl (ValueError ''message content must not be empty''),
                         session_put sid h (session_put sid (session_get st sid) st))
        else (Inr (), session_put sid
                (deque_append (ss_max_messages st) h (assistant_message a))
                (session_put sid h (session_put sid (session_get st sid) st))))"
  by (simp add: append_turn_def mk_message_known_role user_message_def assistant_message_def
      Let_def)

lemma wf_user_message [simp]: "wf_message (user_message u) \<longleftrightarrow> \<not> blank u"
  by (simp add: wf_message_def user_message_def)

lemma wf_assistant_message [simp]: "wf_message (assistant_message u) \<longleftrightarrow> \<not> blank u"
  by (simp add: wf_message_def assistant_message_def)

lemma set_deque_append: "m \<in> set (deque_append n xs x) \<Longrightarrow> m = x \<or> m \<in> set xs"
  by (auto simp: deque_append_def Let_def dest: in_set_dropD)

lemma wf_session_put:
  "wf_sessions st \<Longrightarrow> length h \<le> ss_max_messages st \<Longrightarrow> \<forall>m \<in> set h. wf_message m \<Longrightarrow>
   wf_sessions (session_put sid h st)"
  by (simp add: wf_sessions_def)

lemma wf_session_push:
  "wf_sessions st \<Longrightarrow> wf_message m \<Longrightarrow> \<forall>m \<in> set h. wf_message m \<Longrightarrow>
   wf_sessions (session_put sid (deque_append (ss_max_messages st) h m) st)"
  by (auto intro!: wf_session_put simp: length_deque_append dest!: set_deque_append)

lemma wf_append_turn [inv_intros]:
  assumes "wf_sessions st" shows "wf_sessions (snd (append_turn sid u a st))"
proof -
  let ?g = "session_get st sid" and ?n = "ss_max_messages st"
  let ?st0 = "session_put sid ?g st" and ?h = "deque_append ?n ?g (user_message u)"
  have g: "\<forall>m \<in> set ?g. wf_message m" and len: "length ?g \<le> ?n"
    using assms by (auto simp: wf_sessions_def)
  have st0: "wf_sessions ?st0" using assms g len by (simp add: wf_session_put)
  have h: "\<not> blank u \<Longrightarrow> \<forall>m \<in> set ?h. wf_message m"
    using g by (auto dest: set_deque_append)
  have st1: "\<not> blank u \<Longrightarrow> wf_sessions (session_put sid ?h ?st0)"
    using wf_session_push [OF st0, of "user_message u" ?g sid] g by simp
  have "\<not> blank u \<Longrightarrow> \<not> blank a \<Longrightarrow> wf_sessions (session_put sid
      (deque_append ?n ?h (assistant_message a)) (session_put sid ?h ?st0))"
    using wf_session_push [OF st1, of "assistant_message a" ?h sid] h by simp
  with st0 st1 show ?thesis by (simp add: append_turn_cases Let_def)
qed

lemma wf_session_clear [inv_intros]: "wf_sessions st \<Longrightarrow> wf_sessions (session_clear sid st)"
  by (simp add: wf_sessions_def) (simp add: session_clear_def)

lemma wf_session_store_new: "session_store_new n = Inr st \<Longrightarrow> wf_sessions st"
  by (auto simp: session_store_new_def wf_sessions_def session_get_def split: if_splits)

interpretation memory_sessions:
  session_port session_get append_turn session_delete ss_max_messages wf_sessions
proof
  fix s sid sid' u a m
  assume s: "wf_sessions s"
  show "length (session_get s sid) \<le> ss_max_messages s"
    using s by (simp add: wf_sessions_def)
  show "m \<in> set (session_get s sid) \<Longrightarrow> wf_message m"
    using s by (simp add: wf_sessions_def)
  show "wf_sessions (snd (append_turn sid u a s))" using s by (rule inv_intros)
  show "wf_sessions (session_delete sid s)"
    using s by (simp add: session_delete_def inv_intros)
  show "session_get (session_delete sid s) sid' = (if sid' = sid then [] else session_get s sid')"
    by (simp add: session_delete_def)
  show "blank u \<or> blank a \<Longrightarrow> \<exists>e. fst (append_turn sid u a s) = Inl e"
    by (auto simp: append_turn_cases Let_def)
  show "sid' \<noteq> sid \<Longrightarrow> session_get (snd (append_turn sid u a s)) sid' = session_get s sid'"
    by (auto simp: append_turn_cases Let_def)
  show "\<not> blank u \<Longrightarrow> \<not> blank a \<Longrightarrow> fst (append_turn sid u a s) = Inr () \<and>
      session_get (snd (append_turn sid u a s)) sid =
        lastn (ss_max_messages s) (session_get s sid @ [user_message u, assistant_message a])"
    by (simp add: append_turn_cases Let_def deque_append_lastn lastn_lastn_append)
qed (simp_all add: session_delete_def session_clear_def)

end
