(* ===== verification/Task_Queue.thy ===== *)
theory Task_Queue
  imports Models
begin

section \<open>The task queue port and its in-memory adapter\<close>

text \<open>
  \<open>RunTask\<close> and the port \<open>TaskQueue\<close> of \<open>ports.py\<close>, and \<open>InMemoryTaskQueue\<close>, a bounded
  \<open>asyncio.Queue\<close>. \<open>get\<close> suspends on an empty queue, so it is an option here: \<open>None\<close> means the
  caller waits. The locale \<open>task_queue_port\<close> states what the scheduler needs of a queue.
\<close>

record run_task =
  task_run_id :: string
  task_attempt :: int
  task_enqueued_at :: time

definition mk_run_task :: "string \<Rightarrow> int \<Rightarrow> time \<Rightarrow> exn + run_task" where
  "mk_run_task rid attempt now =
     (if rid = [] \<or> attempt \<le> 0
      then Inl (ValueError ''run task requires a run id and a positive attempt'')
      else Inr \<lparr>task_run_id = rid, task_attempt = attempt, task_enqueued_at = now\<rparr>)"

record 'a task_queue =
  tq_capacity :: nat
  tq_items :: "'a list"
  tq_unfinished :: nat

definition queue_new :: "int \<Rightarrow> exn + 'a task_queue" where
  "queue_new capacity =
     (if capacity \<le> 0 then Inl (ValueError ''queue capacity must be positive'')
      else Inr \<lparr>tq_capacity = nat capacity, tq_items = [], tq_unfinished = 0\<rparr>)"

definition queue_full :: "'a task_queue \<Rightarrow> bool" where
  "queue_full q \<longleftrightarrow> tq_capacity q \<le> length (tq_items q)"

definition queue_qsize :: "'a task_queue \<Rightarrow> nat" where
  "queue_qsize q = length (tq_items q)"

definition queue_put_nowait :: "'a \<Rightarrow> 'a task_queue \<Rightarrow> exn + 'a task_queue" where
  "queue_put_nowait x q =
     (if queue_full q then Inl QueueFull
      else Inr (q\<lparr>tq_items := tq_items q @ [x], tq_unfinished := Suc (tq_unfinished q)\<rparr>))"

definition queue_get :: "'a task_queue \<Rightarrow> ('a \<times> 'a task_queue) option" where
  "queue_get q = (case tq_items q of [] \<Rightarrow> None | x # xs \<Rightarrow> Some (x, q\<lparr>tq_items := xs\<rparr>))"

definition queue_task_done :: "'a task_queue \<Rightarrow> exn + 'a task_queue" where
  "queue_task_done q =
     (if tq_unfinished q = 0 then Inl (ValueError ''task_done() called too many times'')
      else Inr (q\<lparr>tq_unfinished := tq_unfinished q - 1\<rparr>))"

definition wf_queue :: "'a task_queue \<Rightarrow> bool" where
  "wf_queue q \<longleftrightarrow> 0 < tq_capacity q \<and> length (tq_items q) \<le> tq_capacity q
     \<and> length (tq_items q) \<le> tq_unfinished q"

locale task_queue_port =
  fixes capacity :: "'q \<Rightarrow> nat"
    and full :: "'q \<Rightarrow> bool"
    and qsize :: "'q \<Rightarrow> nat"
    and put :: "'a \<Rightarrow> 'q \<Rightarrow> exn + 'q"
    and get :: "'q \<Rightarrow> ('a \<times> 'q) option"
    and items :: "'q \<Rightarrow> 'a list"
    and ok :: "'q \<Rightarrow> bool"
  assumes qsize_items: "ok q \<Longrightarrow> qsize q = length (items q)"
    and full_iff: "ok q \<Longrightarrow> full q \<longleftrightarrow> capacity q \<le> length (items q)"
    and put_full: "ok q \<Longrightarrow> full q \<Longrightarrow> put x q = Inl QueueFull"
    and put_room: "ok q \<Longrightarrow> \<not> full q \<Longrightarrow>
      \<exists>q'. put x q = Inr q' \<and> items q' = items q @ [x] \<and> capacity q' = capacity q \<and> ok q'"
    and get_empty: "ok q \<Longrightarrow> items q = [] \<Longrightarrow> get q = None"
    and get_item: "ok q \<Longrightarrow> items q = x # xs \<Longrightarrow>
      \<exists>q'. get q = Some (x, q') \<and> items q' = xs \<and> capacity q' = capacity q \<and> ok q'"
    and bounded: "ok q \<Longrightarrow> length (items q) \<le> capacity q"
begin

text \<open>
  A guarded producer (check \<open>full\<close>, then put) never sees \<open>QueueFull\<close>, and consumers receive the
  accepted items in the order in which they were put.
\<close>

fun put_all :: "'a list \<Rightarrow> 'q \<Rightarrow> 'q" where
  "put_all [] q = q"
| "put_all (x # xs) q = put_all xs (if full q then q else projr (put x q))"

fun get_all :: "nat \<Rightarrow> 'q \<Rightarrow> 'a list" where
  "get_all 0 q = []"
| "get_all (Suc n) q = (case get q of None \<Rightarrow> [] | Some (x, q') \<Rightarrow> x # get_all n q')"

lemma guarded_put: "ok q \<Longrightarrow> \<not> full q \<Longrightarrow> \<exists>q'. put x q = Inr q'"
  using put_room by blast

lemma put_all_items:
  "ok q \<Longrightarrow> ok (put_all xs q) \<and>
   items (put_all xs q) = items q @ take (capacity q - length (items q)) xs"
proof (induction xs arbitrary: q)
  case (Cons x xs)
  show ?case
  proof (cases "full q")
    case True
    then show ?thesis using Cons by (simp add: full_iff)
  next
    case False
    then obtain q' where q': "put x q = Inr q'" "items q' = items q @ [x]"
      "capacity q' = capacity q" "ok q'"
      using put_room [OF Cons.prems False, of x] by blast
    have "length (items q) < capacity q" using False Cons.prems by (simp add: full_iff)
    then have "take (capacity q - length (items q)) (x # xs) =
        x # take (capacity q - Suc (length (items q))) xs"
      by (simp add: take_Cons' Suc_diff_Suc)
    then show ?thesis using Cons.IH [OF q'(4)] False q' by simp
  qed
qed simp

lemma get_all_items: "ok q \<Longrightarrow> get_all n q = take n (items q)"
proof (induction n arbitrary: q)
  case (Suc n)
  show ?case
  proof (cases "items q")
    case Nil
    then show ?thesis using get_empty [OF Suc.prems] by simp
  next
    case (Cons x xs)
    then obtain q' where "get q = Some (x, q')" "items q' = xs" "ok q'"
      using get_item [OF Suc.prems Cons] by blast
    then show ?thesis using Suc.IH [of q'] Cons by simp
  qed
qed simp

lemma fifo:
  "ok q \<Longrightarrow> items q = [] \<Longrightarrow> get_all (length xs) (put_all xs q) = take (capacity q) xs"
  using put_all_items [of q xs] get_all_items [of "put_all xs q" "length xs"]
  by (simp add: min_def)

end

interpretation memory_queue:
  task_queue_port tq_capacity queue_full queue_qsize queue_put_nowait queue_get tq_items wf_queue
proof
  fix q :: "'a task_queue" and x xs
  assume q: "wf_queue q"
  show "queue_qsize q = length (tq_items q)" by (simp add: queue_qsize_def)
  show "queue_full q \<longleftrightarrow> tq_capacity q \<le> length (tq_items q)" by (simp add: queue_full_def)
  show "queue_full q \<Longrightarrow> queue_put_nowait x q = Inl QueueFull"
    by (simp add: queue_put_nowait_def)
  show "\<not> queue_full q \<Longrightarrow> \<exists>q'. queue_put_nowait x q = Inr q' \<and> tq_items q' = tq_items q @ [x]
      \<and> tq_capacity q' = tq_capacity q \<and> wf_queue q'"
    using q by (auto simp: queue_put_nowait_def queue_full_def wf_queue_def)
  show "tq_items q = [] \<Longrightarrow> queue_get q = None" by (simp add: queue_get_def)
  show "tq_items q = x # xs \<Longrightarrow> \<exists>q'. queue_get q = Some (x, q') \<and> tq_items q' = xs
      \<and> tq_capacity q' = tq_capacity q \<and> wf_queue q'"
    using q by (auto simp: queue_get_def wf_queue_def)
  show "length (tq_items q) \<le> tq_capacity q" using q by (simp add: wf_queue_def)
qed

lemma queue_put_nowait_room:
  "\<not> queue_full q \<Longrightarrow> queue_put_nowait x q =
     Inr (q\<lparr>tq_items := tq_items q @ [x], tq_unfinished := Suc (tq_unfinished q)\<rparr>)"
  by (simp add: queue_put_nowait_def)

lemma wf_queue_new: "queue_new c = Inr q \<Longrightarrow> wf_queue q"
  by (auto simp: queue_new_def wf_queue_def split: if_splits)

end
