(* ===== verification/Patterns.thy ===== *)
theory Patterns
  imports Models
begin

section \<open>Agent patterns as coroutines\<close>

text \<open>
  \<open>agents/patterns.py\<close>. A pattern is a coroutine: it returns, raises, or suspends in
  \<open>context.complete\<close> or \<open>context.execute_tool\<close> and goes on with the answer. No pattern catches
  an exception, so an exception at a suspension leaves the coroutine; a continuation only
  receives an answer. The runtime theory drives these coroutines between its own steps, and
  \<open>run_coro\<close> runs one against handlers without interleaving.

  Parameters, collected in \<open>codec\<close>: \<open>json.loads\<close> (\<open>None\<close> is \<open>JSONDecodeError\<close>), \<open>json.dumps\<close>
  and the text of \<open>str\<close> on values that are not strings.
\<close>

datatype 'a coro =
    Ret 'a
  | Raise exn
  | Complete llm_request string "llm_response \<Rightarrow> 'a coro"
  | Execute_tool string "(string \<times> pyval) list" string "string \<Rightarrow> 'a coro"

record codec =
  cd_loads :: "string \<Rightarrow> pyval option"
  cd_dumps :: "pyval \<Rightarrow> string"
  cd_repr :: "pyval \<Rightarrow> string"

record agent_context =
  ctx_task :: string
  ctx_history :: "message list"
  ctx_max_steps :: nat
  ctx_tools :: "(string, pyval) dict list"

text \<open>Constructing an object inside a coroutine: a failing constructor raises.\<close>

definition let_ok :: "exn + 'b \<Rightarrow> ('b \<Rightarrow> 'a coro) \<Rightarrow> 'a coro" where
  "let_ok r k = (case r of Inl e \<Rightarrow> Raise e | Inr x \<Rightarrow> k x)"

definition let_message :: "string \<Rightarrow> string \<Rightarrow> (message \<Rightarrow> 'a coro) \<Rightarrow> 'a coro" where
  "let_message role content = let_ok (mk_message role content None)"

definition await_complete ::
    "message list \<Rightarrow> string \<Rightarrow> (llm_response \<Rightarrow> 'a coro) \<Rightarrow> 'a coro" where
  "await_complete messages step_name k =
     let_ok (llm_request messages) (\<lambda>request. Complete request step_name k)"

subsection \<open>Parsing the model's answers\<close>

definition parse_object :: "codec \<Rightarrow> string \<Rightarrow> (string, pyval) dict" where
  "parse_object c value =
     (let cleaned = strip value;
          cleaned = (if startswith ''```'' cleaned
            then let body = strip (join [CHR 0x0A] (butlast (tl (splitlines cleaned))))
                 in if startswith ''json'' body then strip (drop 4 body) else body
            else cleaned)
      in case cd_loads c cleaned of
           Some (PDict d) \<Rightarrow> d
         | _ \<Rightarrow> [(''final'', PStr value)])"

definition is_plan_trim :: "char \<Rightarrow> bool" where
  "is_plan_trim ch \<longleftrightarrow> ch \<in> set [CHR '' '', CHR ''-'', CHR 0x09]"

definition parse_plan :: "codec \<Rightarrow> string \<Rightarrow> string list" where
  "parse_plan c value =
     (let parsed = (case cd_loads c value of
            Some v \<Rightarrow> v
          | None \<Rightarrow> PList (map (\<lambda>line. PStr (strip_of is_plan_trim line))
                     (filter (\<lambda>line. \<not> blank line) (splitlines value))))
      in case parsed of
           PList items \<Rightarrow>
             (let plan = map (\<lambda>item. strip (py_str (cd_repr c) item))
                    (filter (\<lambda>item. \<not> blank (py_str (cd_repr c) item)) items)
              in if plan \<noteq> [] then plan else [''Answer the task''])
         | _ \<Rightarrow> [strip value])"

text \<open>\<open>decision.get("final")\<close>, stripped, when it is a string with something in it.\<close>

definition final_answer :: "(string, pyval) dict \<Rightarrow> string option" where
  "final_answer decision =
     (case dict_get decision ''final'' of
        Some (PStr s) \<Rightarrow> if blank s then None else Some (strip s)
      | _ \<Rightarrow> None)"

subsection \<open>The four patterns\<close>

definition simple_run :: "agent_context \<Rightarrow> string coro" where
  "simple_run ctx =
     let_message ''system''
       ''You are a reliable assistant. Answer the current request directly and clearly.''
       (\<lambda>sys. let_message ''user'' (ctx_task ctx) (\<lambda>user.
          await_complete (sys # ctx_history ctx @ [user]) ''simple.generate''
            (\<lambda>response. Ret (resp_content response))))"

definition react_system :: "string" where
  "react_system =
     ''You are a ReAct controller. At every turn return one JSON object only. '' @
     ''Use {\"thought\":\"...\",\"action\":\"tool\",\"action_input\":{...}} to call a tool, '' @
     ''or {\"thought\":\"...\",\"final\":\"...\"} to finish. Never invent tool output. '' @
     ''Available tools: ''"

definition react_final :: "codec \<Rightarrow> message list \<Rightarrow> string coro" where
  "react_final c messages =
     let_message ''user'' ''Stop using tools and return {\"thought\":\"...\",\"final\":\"...\"}.''
       (\<lambda>stop. await_complete (messages @ [stop]) ''react.final'' (\<lambda>response.
          Ret (case final_answer (parse_object c (resp_content response)) of
                 Some final \<Rightarrow> final
               | None \<Rightarrow> resp_content response)))"

primrec react_loop :: "codec \<Rightarrow> nat \<Rightarrow> nat \<Rightarrow> message list \<Rightarrow> string coro" where
  "react_loop c 0 index messages = react_final c messages"
| "react_loop c (Suc n) index messages =
     await_complete messages (''react.reason.'' @ str_nat (index + 1)) (\<lambda>response.
       let decision = parse_object c (resp_content response) in
       case final_answer decision of
         Some final \<Rightarrow> Ret final
       | None \<Rightarrow>
          (case dict_get decision ''action'' of
             Some (PStr action) \<Rightarrow>
              (if blank action then Ret (resp_content response)
               else let arguments = (case dict_get decision ''action_input'' of
                                       Some (PDict d) \<Rightarrow> d | _ \<Rightarrow> []) in
                 Execute_tool action arguments (''react.tool.'' @ str_nat (index + 1))
                   (\<lambda>observation.
                      let_message ''assistant'' (resp_content response) (\<lambda>asst.
                      let_message ''user''
                        (''Tool observation for '' @ action @ '':'' @ [CHR 0x0A] @ observation
                         @ [CHR 0x0A] @ ''Continue with one JSON object.'') (\<lambda>obs.
                      react_loop c n (index + 1) (messages @ [asst, obs])))))
           | _ \<Rightarrow> Ret (resp_content response)))"

definition react_run :: "codec \<Rightarrow> agent_context \<Rightarrow> string coro" where
  "react_run c ctx =
     (let tool_text = cd_dumps c (PList (map PDict (ctx_tools ctx))) in
      let_message ''system'' (react_system @ tool_text) (\<lambda>sys.
      let_message ''user'' (ctx_task ctx) (\<lambda>user.
      react_loop c (ctx_max_steps ctx) 0 (sys # ctx_history ctx @ [user]))))"

definition nl :: "string" where
  "nl = [CHR 0x0A]"

definition reflection_run :: "agent_context \<Rightarrow> string coro" where
  "reflection_run ctx =
     let_message ''user'' (ctx_task ctx) (\<lambda>user.
     let_message ''system'' ''Produce a factually grounded first draft.'' (\<lambda>sys1.
     await_complete (sys1 # ctx_history ctx @ [user]) ''reflection.draft'' (\<lambda>draft.
     let_message ''system''
       ''Critique the draft. Identify factual gaps, missing constraints, and unclear reasoning.''
       (\<lambda>sys2.
     let_message ''user''
       (''Task:'' @ nl @ ctx_task ctx @ nl @ nl @ ''Draft:'' @ nl @ resp_content draft) (\<lambda>user2.
     await_complete [sys2, user2] ''reflection.critique'' (\<lambda>critique.
     let_message ''system''
       ''Revise the draft using the critique. Return only the improved final answer.'' (\<lambda>sys3.
     let_message ''user''
       (''Task:'' @ nl @ ctx_task ctx @ nl @ nl @ ''Draft:'' @ nl @ resp_content draft @ nl @ nl
        @ ''Critique:'' @ nl @ resp_content critique) (\<lambda>user3.
     await_complete [sys3, user3] ''reflection.revise'' (\<lambda>revised.
     Ret (resp_content revised))))))))))"

definition plan_synthesize :: "agent_context \<Rightarrow> string list \<Rightarrow> string coro" where
  "plan_synthesize ctx results =
     let_message ''system''
       ''Synthesize the step results into one direct final answer. Do not mention the plan.''
       (\<lambda>sys. let_message ''user''
          (''Task: '' @ ctx_task ctx @ nl @ nl @ ''Step results:'' @ nl @ join nl results) (\<lambda>user.
        await_complete [sys, user] ''plan_solve.synthesize'' (\<lambda>synthesis.
        Ret (resp_content synthesis))))"

fun plan_loop :: "agent_context \<Rightarrow> nat \<Rightarrow> string list \<Rightarrow> string list \<Rightarrow> string coro" where
  "plan_loop ctx index [] results = plan_synthesize ctx results"
| "plan_loop ctx index (step # plan) results =
     let_message ''system''
       ''Solve only the assigned plan step using the task and prior results.'' (\<lambda>sys.
     let_message ''user''
       (''Task: '' @ ctx_task ctx @ nl @ ''Step '' @ str_nat index @ '': '' @ step @ nl
        @ ''Prior results:'' @ nl @ join nl results) (\<lambda>user.
     await_complete [sys, user] (''plan_solve.step.'' @ str_nat index) (\<lambda>response.
     plan_loop ctx (index + 1) plan
       (results @ [''Step '' @ str_nat index @ '' ('' @ step @ ''): '' @ resp_content response]))))"

definition plan_solve_run :: "codec \<Rightarrow> agent_context \<Rightarrow> string coro" where
  "plan_solve_run c ctx =
     let_message ''system''
       ''Create a concise execution plan as a JSON array of strings only.'' (\<lambda>sys.
     let_message ''user'' (ctx_task ctx) (\<lambda>user.
     await_complete (sys # ctx_history ctx @ [user]) ''plan_solve.plan'' (\<lambda>plan_response.
     plan_loop ctx 1 (take (ctx_max_steps ctx) (parse_plan c (resp_content plan_response))) [])))"

fun pattern_run :: "codec \<Rightarrow> agent_kind \<Rightarrow> agent_context \<Rightarrow> string coro" where
  "pattern_run c SIMPLE ctx = simple_run ctx"
| "pattern_run c REACT ctx = react_run c ctx"
| "pattern_run c REFLECTION ctx = reflection_run ctx"
| "pattern_run c PLAN_SOLVE ctx = plan_solve_run c ctx"

subsection \<open>Running a coroutine against handlers\<close>

text \<open>
  \<open>run_coro\<close> threads a state through the calls; a handler that raises ends the run. \<open>call\<close>
  records one call, and the logging handlers keep the list of them.
\<close>

primrec run_coro ::
    "(llm_request \<Rightarrow> string \<Rightarrow> 's \<Rightarrow> (exn + llm_response) \<times> 's) \<Rightarrow>
     (string \<Rightarrow> (string \<times> pyval) list \<Rightarrow> string \<Rightarrow> 's \<Rightarrow> (exn + string) \<times> 's) \<Rightarrow>
     'a coro \<Rightarrow> 's \<Rightarrow> (exn + 'a) \<times> 's" where
  "run_coro llm tool (Ret x) s = (Inr x, s)"
| "run_coro llm tool (Raise e) s = (Inl e, s)"
| "run_coro llm tool (Complete req st k) s =
     (case llm req st s of (Inl e, s') \<Rightarrow> (Inl e, s') | (Inr r, s') \<Rightarrow> run_coro llm tool (k r) s')"
| "run_coro llm tool (Execute_tool n args st k) s =
     (case tool n args st s of (Inl e, s') \<Rightarrow> (Inl e, s') | (Inr r, s') \<Rightarrow> run_coro llm tool (k r) s')"

datatype call = Llm_call llm_request string | Tool_call string "(string \<times> pyval) list" string

fun call_step :: "call \<Rightarrow> string" where
  "call_step (Llm_call _ st) = st"
| "call_step (Tool_call _ _ st) = st"

fun is_llm_call :: "call \<Rightarrow> bool" where
  "is_llm_call (Llm_call _ _) = True"
| "is_llm_call (Tool_call _ _ _) = False"

definition log_llm ::
    "(llm_request \<Rightarrow> string \<Rightarrow> 's \<Rightarrow> (exn + llm_response) \<times> 's) \<Rightarrow>
     llm_request \<Rightarrow> string \<Rightarrow> call list \<times> 's \<Rightarrow> (exn + llm_response) \<times> call list \<times> 's" where
  "log_llm llm req st cs =
     (let (r, s') = llm req st (snd cs) in (r, fst cs @ [Llm_call req st], s'))"

definition log_tool ::
    "(string \<Rightarrow> (string \<times> pyval) list \<Rightarrow> string \<Rightarrow> 's \<Rightarrow> (exn + string) \<times> 's) \<Rightarrow>
     string \<Rightarrow> (string \<times> pyval) list \<Rightarrow> string \<Rightarrow> call list \<times> 's \<Rightarrow> (exn + string) \<times> call list \<times> 's" where
  "log_tool tool n args st cs =
     (let (r, s') = tool n args st (snd cs) in (r, fst cs @ [Tool_call n args st], s'))"

text \<open>The calls a coroutine makes against the given handlers, its result included.\<close>

definition run_logged where
  "run_logged llm tool c s = run_coro (log_llm llm) (log_tool tool) c ([], s)"

definition calls_of where
  "calls_of llm tool c s = fst (snd (run_logged llm tool c s))"

subsection \<open>Bounds on the calls of a coroutine\<close>

primrec within_calls :: "nat \<Rightarrow> nat \<Rightarrow> 'a coro \<Rightarrow> bool" where
  "within_calls L T (Ret x) = True"
| "within_calls L T (Raise e) = True"
| "within_calls L T (Complete req st k) = (0 < L \<and> (\<forall>r. within_calls (L - 1) T (k r)))"
| "within_calls L T (Execute_tool n args st k) = (0 < T \<and> (\<forall>r. within_calls L (T - 1) (k r)))"

lemma within_run:
  "within_calls L T c \<Longrightarrow>
   (case run_coro (log_llm llm) (log_tool tool) c (cs, s) of (r, cs', s') \<Rightarrow>
      \<exists>new. cs' = cs @ new \<and> length (filter is_llm_call new) \<le> L
        \<and> length (filter (\<lambda>x. \<not> is_llm_call x) new) \<le> T)"
proof (induction c arbitrary: L T cs s)
  case (Complete req st k)
  obtain r s' where r: "llm req st s = (r, s')" by (cases "llm req st s")
  show ?case
  proof (cases r)
    case (Inl e)
    then show ?thesis using r Complete.prems by (simp add: log_llm_def)
  next
    case (Inr x)
    have "within_calls (L - 1) T (k x)" using Complete.prems by simp
    from Complete.IH [OF rangeI this, of "cs @ [Llm_call req st]" s'] show ?thesis
      using r Inr Complete.prems by (fastforce simp: log_llm_def split: prod.splits)
  qed
next
  case (Execute_tool n args st k)
  obtain r s' where r: "tool n args st s = (r, s')" by (cases "tool n args st s")
  show ?case
  proof (cases r)
    case (Inl e)
    then show ?thesis using r Execute_tool.prems by (simp add: log_tool_def)
  next
    case (Inr x)
    have "within_calls L (T - 1) (k x)" using Execute_tool.prems by simp
    from Execute_tool.IH [OF rangeI this, of "cs @ [Tool_call n args st]" s'] show ?thesis
      using r Inr Execute_tool.prems by (fastforce simp: log_tool_def split: prod.splits)
  qed
qed simp_all

lemma within_calls_of:
  assumes "within_calls L T c"
  shows "length (filter is_llm_call (calls_of llm tool c s)) \<le> L"
    and "length (filter (\<lambda>x. \<not> is_llm_call x) (calls_of llm tool c s)) \<le> T"
  using within_run [OF assms, where llm = llm and tool = tool and cs = "[]" and s = s]
  by (auto simp: calls_of_def run_logged_def split: prod.splits)

lemma within_let [simp]:
  "within_calls L T (let_ok r k) \<longleftrightarrow> (\<forall>x. r = Inr x \<longrightarrow> within_calls L T (k x))"
  by (auto simp: let_ok_def split: sum.splits)

lemma within_let_message:
  "(\<And>m. within_calls L T (k m)) \<Longrightarrow> within_calls L T (let_message role content k)"
  by (simp add: let_message_def)

lemma within_await:
  "0 < L \<Longrightarrow> (\<And>r. within_calls (L - 1) T (k r)) \<Longrightarrow> within_calls L T (await_complete ms st k)"
  by (simp add: await_complete_def)

lemmas within_intros = within_let_message within_await

lemma within_simple: "within_calls 1 0 (simple_run ctx)"
  by (auto simp: simple_run_def intro!: within_intros)

lemma within_react_loop: "within_calls (Suc n) n (react_loop c n i ms)"
proof (induction n arbitrary: i ms)
  case 0
  show ?case by (auto simp: react_final_def intro!: within_intros)
next
  case (Suc n)
  show ?case
    by (auto simp: Let_def intro!: within_intros Suc.IH split: option.splits pyval.splits)
qed

lemma within_react: "within_calls (Suc (ctx_max_steps ctx)) (ctx_max_steps ctx) (react_run c ctx)"
  by (auto simp: react_run_def Let_def intro!: within_intros within_react_loop)

lemma within_reflection: "within_calls 3 0 (reflection_run ctx)"
  by (auto simp: reflection_run_def intro!: within_intros)

lemma within_plan_loop: "within_calls (Suc (length plan)) 0 (plan_loop ctx i plan results)"
  by (induction plan arbitrary: i results)
    (auto simp: plan_synthesize_def intro!: within_intros)

lemma within_mono: "within_calls L T c \<Longrightarrow> L \<le> L' \<Longrightarrow> T \<le> T' \<Longrightarrow> within_calls L' T' c"
proof (induction c arbitrary: L T L' T')
  case (Complete req st k)
  then show ?case by (auto intro: Complete.IH [OF rangeI, of "L - 1" T] diff_le_mono)
next
  case (Execute_tool n args st k)
  then show ?case by (auto intro: Execute_tool.IH [OF rangeI, of L "T - 1"] diff_le_mono)
qed simp_all

lemma within_plan_solve: "within_calls (ctx_max_steps ctx + 2) 0 (plan_solve_run c ctx)"
  by (auto simp: plan_solve_run_def intro!: within_intros within_mono [OF within_plan_loop])

text \<open>The LLM and tool calls a pattern may make with \<open>n\<close> steps.\<close>

fun llm_budget :: "agent_kind \<Rightarrow> nat \<Rightarrow> nat" where
  "llm_budget SIMPLE n = 1"
| "llm_budget REACT n = n + 1"
| "llm_budget REFLECTION n = 3"
| "llm_budget PLAN_SOLVE n = n + 2"

fun tool_budget :: "agent_kind \<Rightarrow> nat \<Rightarrow> nat" where
  "tool_budget REACT n = n"
| "tool_budget _ n = 0"

lemma within_pattern:
  "within_calls (llm_budget k (ctx_max_steps ctx)) (tool_budget k (ctx_max_steps ctx)) (pattern_run c k ctx)"
  using within_simple within_react within_reflection within_plan_solve by (cases k) auto

subsection \<open>Patterns do not raise, and send well-formed requests\<close>

primrec safe :: "(llm_request \<Rightarrow> bool) \<Rightarrow> 'a coro \<Rightarrow> bool" where
  "safe P (Ret x) = True"
| "safe P (Raise e) = False"
| "safe P (Complete req st k) = (P req \<and> (\<forall>r. safe P (k r)))"
| "safe P (Execute_tool n args st k) = (\<forall>r. safe P (k r))"

definition wf_request :: "llm_request \<Rightarrow> bool" where
  "wf_request req \<longleftrightarrow> req_messages req \<noteq> [] \<and> (\<forall>m \<in> set (req_messages req). wf_message m)
     \<and> 0 \<le> req_temperature req \<and> 0 < req_max_tokens req"

lemma safe_message:
  assumes "role \<in> {''system'', ''user'', ''assistant'', ''tool''}" and "\<not> blank content"
    and "\<And>m. wf_message m \<Longrightarrow> safe P (k m)"
  shows "safe P (let_message role content k)"
  using assms
  by (auto simp: let_message_def let_ok_def mk_message_known_role wf_message_def)

lemma safe_await:
  assumes "ms \<noteq> []" and "\<forall>m \<in> set ms. wf_message m" and "\<And>r. safe wf_request (k r)"
  shows "safe wf_request (await_complete ms st k)"
  using assms by (simp add: await_complete_def let_ok_def wf_request_def)

lemmas safe_intros = safe_message safe_await not_blank_appendI

lemma not_blank_literal:
  "c \<in> set s \<Longrightarrow> \<not> is_space c \<Longrightarrow> \<not> blank s"
  by (auto simp: strip_of_eq_Nil)

text \<open>A decision with an \<open>action\<close> was parsed from an answer that is not blank.\<close>

lemma parse_object_action:
  assumes "cd_loads c [] = None" and "dict_get (parse_object c value) ''action'' = Some v"
  shows "\<not> blank value"
  using assms by (auto simp: parse_object_def startswith_def Let_def)

definition wf_context :: "agent_context \<Rightarrow> bool" where
  "wf_context ctx \<longleftrightarrow> \<not> blank (ctx_task ctx) \<and> (\<forall>m \<in> set (ctx_history ctx). wf_message m)"

lemma safe_simple: "wf_context ctx \<Longrightarrow> safe wf_request (simple_run ctx)"
  unfolding simple_run_def
  by (intro safe_message safe_await) (auto simp: wf_context_def is_space_def intro!: not_blank_ConsI)

lemma safe_reflection: "wf_context ctx \<Longrightarrow> safe wf_request (reflection_run ctx)"
  unfolding reflection_run_def
  by (intro safe_message safe_await) (auto simp: wf_context_def is_space_def intro!: not_blank_ConsI)

lemma safe_plan_loop: "safe wf_request (plan_loop ctx i plan results)"
proof (induction plan arbitrary: i results)
  case Nil
  show ?case
    unfolding plan_loop.simps plan_synthesize_def
    by (intro safe_message safe_await) (auto simp: is_space_def intro!: not_blank_ConsI)
next
  case (Cons a plan)
  show ?case
    unfolding plan_loop.simps
    by (intro safe_message safe_await Cons.IH) (auto simp: is_space_def intro!: not_blank_ConsI)
qed

lemma safe_plan_solve: "wf_context ctx \<Longrightarrow> safe wf_request (plan_solve_run c ctx)"
  unfolding plan_solve_run_def
  by (intro safe_message safe_await safe_plan_loop)
    (auto simp: wf_context_def is_space_def intro!: not_blank_ConsI)

lemma safe_react_loop:
  assumes "cd_loads c [] = None" and "ms \<noteq> []" and "\<forall>m \<in> set ms. wf_message m"
  shows "safe wf_request (react_loop c n i ms)"
  using assms(2,3)
proof (induction n arbitrary: i ms)
  case 0
  show ?case
    unfolding react_loop.simps react_final_def
    by (intro safe_message safe_await)
      (use 0 in \<open>auto simp: is_space_def intro!: not_blank_ConsI\<close>)
next
  case (Suc n)
  have turn: "safe wf_request
      (let_message ''assistant'' (resp_content r) (\<lambda>asst.
       let_message ''user''
         (''Tool observation for '' @ action @ '':'' @ [CHR 0x0A] @ observation
          @ [CHR 0x0A] @ ''Continue with one JSON object.'') (\<lambda>obs.
       react_loop c n (Suc i) (ms @ [asst, obs]))))"
    if "dict_get (parse_object c (resp_content r)) ''action'' = Some v" for r v action observation
    using parse_object_action [OF assms(1) that] Suc.prems
    by (intro safe_message Suc.IH) (auto simp: is_space_def intro!: not_blank_ConsI)
  show ?case
    unfolding react_loop.simps Let_def
    by (rule safe_await [OF Suc.prems])
      (auto intro: turn simp del: append.simps split: option.split pyval.split)
qed

lemma safe_react:
  assumes "wf_context ctx" and "cd_loads c [] = None"
  shows "safe wf_request (react_run c ctx)"
  unfolding react_run_def Let_def react_system_def
  by (intro safe_message safe_react_loop)
    (use assms in \<open>auto simp: wf_context_def is_space_def intro!: not_blank_ConsI\<close>)

lemma safe_pattern:
  "wf_context ctx \<Longrightarrow> cd_loads c [] = None \<Longrightarrow> safe wf_request (pattern_run c k ctx)"
  by (cases k) (simp_all add: safe_simple safe_react safe_reflection safe_plan_solve)

text \<open>A safe coroutine raises only what a handler raised.\<close>

lemma safe_run:
  assumes "safe P c"
    and "\<And>req st s. case llm req st s of (Inl e, _) \<Rightarrow> \<not> Q e | _ \<Rightarrow> True"
    and "\<And>n a st s. case tool n a st s of (Inl e, _) \<Rightarrow> \<not> Q e | _ \<Rightarrow> True"
    and "fst (run_coro llm tool c s) = Inl e"
  shows "\<not> Q e"
  using assms(1,4)
proof (induction c arbitrary: s)
  case (Complete req st k)
  then show ?case
    using assms(2) [of req st s] by (auto split: prod.splits sum.splits)
next
  case (Execute_tool n args st k)
  then show ?case
    using assms(3) [of n args st s] by (auto split: prod.splits sum.splits)
qed simp_all

text \<open>Every request a safe coroutine sends satisfies its predicate.\<close>

lemma log_llm_pair:
  "llm req st s = (r, s') \<Longrightarrow> log_llm llm req st (cs, s) = (r, cs @ [Llm_call req st], s')"
  by (simp add: log_llm_def)

lemma log_tool_pair:
  "tool n args st s = (r, s') \<Longrightarrow>
   log_tool tool n args st (cs, s) = (r, cs @ [Tool_call n args st], s')"
  by (simp add: log_tool_def)

lemma safe_logged:
  "safe P c \<Longrightarrow> \<forall>req st. Llm_call req st \<in> set cs \<longrightarrow> P req \<Longrightarrow>
   Llm_call req st \<in> set (fst (snd (run_coro (log_llm llm) (log_tool tool) c (cs, s)))) \<Longrightarrow> P req"
proof (induction c arbitrary: cs s)
  case (Complete req' st' k)
  obtain r s' where r: "llm req' st' s = (r, s')" by (cases "llm req' st' s")
  show ?case
  proof (cases r)
    case (Inl e)
    with r Complete.prems show ?thesis by (auto simp: log_llm_pair)
  next
    case (Inr x)
    with r Complete.prems show ?thesis
      by (intro Complete.IH [OF rangeI, of x "cs @ [Llm_call req' st']" s'])
        (auto simp: log_llm_pair)
  qed
next
  case (Execute_tool n args st' k)
  obtain r s' where r: "tool n args st' s = (r, s')" by (cases "tool n args st' s")
  show ?case
  proof (cases r)
    case (Inl e)
    with r Execute_tool.prems show ?thesis by (auto simp: log_tool_pair)
  next
    case (Inr x)
    with r Execute_tool.prems show ?thesis
      by (intro Execute_tool.IH [OF rangeI, of x "cs @ [Tool_call n args st']" s'])
        (auto simp: log_tool_pair)
  qed
qed auto

subsection \<open>Which calls, in which order\<close>

lemma run_message_literal [simp]:
  "role \<in> {''system'', ''user'', ''assistant'', ''tool''} \<Longrightarrow> \<not> blank content \<Longrightarrow>
   let_message role content k = k \<lparr>msg_role = role, msg_content = content, msg_name = None\<rparr>"
  by (auto simp: let_message_def let_ok_def mk_message_known_role)

lemma await_nonempty [simp]:
  "ms \<noteq> [] \<Longrightarrow> await_complete ms st k =
     Complete \<lparr>req_messages = ms, req_model = None, req_temperature = 0, req_max_tokens = 1024\<rparr> st k"
  by (simp add: await_complete_def let_ok_def)

text \<open>An LLM that answers every request by the text \<open>answer req step\<close>, and a total tool.\<close>

definition plain_response :: "string \<Rightarrow> llm_response" where
  "plain_response c = \<lparr>resp_content = c, resp_model = [], resp_prompt_tokens = None,
     resp_completion_tokens = None, resp_finish_reason = None, resp_metadata = []\<rparr>"

definition answering :: "(llm_request \<Rightarrow> string \<Rightarrow> string) \<Rightarrow>
    llm_request \<Rightarrow> string \<Rightarrow> 's \<Rightarrow> (exn + llm_response) \<times> 's" where
  "answering f req st s = (Inr (plain_response (f req st)), s)"

definition observing :: "(string \<Rightarrow> (string \<times> pyval) list \<Rightarrow> string) \<Rightarrow>
    string \<Rightarrow> (string \<times> pyval) list \<Rightarrow> string \<Rightarrow> 's \<Rightarrow> (exn + string) \<times> 's" where
  "observing g n args st s = (Inr (g n args), s)"

lemma resp_content_plain [simp]: "resp_content (plain_response c) = c"
  by (simp add: plain_response_def)

end
