(* ===== verification/Runtime.thy ===== *)
theory Runtime
  imports Config Fsm Events Sessions Task_Queue Patterns
begin

section \<open>The agent runtime: state and operations\<close>

text \<open>
  \<open>runtime.py\<close>: the state of \<open>AgentRuntime\<close>, its public operations, the worker loop and
  \<open>_execute\<close>, cut at the points where the coroutines suspend. What runs between two suspension
  points is one function of the state and cannot be interleaved: the locks of \<open>submit\<close>,
  \<open>retry\<close> and the state machine are never held across a suspension, because the in-memory queue,
  the in-memory sessions and the event bus do not suspend.

  A run record is an object shared by the registry and the tasks that work on it. \<open>rt_heap\<close> holds
  every run object ever created, under its id; \<open>rt_runs\<close> are the keys of the dict \<open>_runs\<close> in
  insertion order, so an evicted run leaves \<open>rt_runs\<close> and stays in the heap, where a task that
  still refers to it finds it. \<open>env\<close> collects what does not change: the configuration, the stream
  of \<open>uuid4\<close> values, the JSON codec and the tool descriptions. Each step is given the time
  \<open>now\<close> that its calls of \<open>time.time\<close> and \<open>time.perf_counter\<close> return.
\<close>

record env =
  env_config :: runtime_config
  env_uuids :: "nat \<Rightarrow> string"
  env_codec :: codec
  env_tools :: "(string, pyval) dict list"

subsection \<open>State\<close>

text \<open>
  The suspension points of an execution task (\<open>_execute\<close>): created and not started; inside
  \<open>wait_for\<close>, with the pattern about to run its next segment; in \<open>self.llm.complete\<close>; in
  \<open>self.tools.execute\<close>; inside \<open>wait_for\<close> with the pattern finished; done. Python 3.12 runs the
  pattern in the task itself and does not suspend at \<open>Driving\<close> and \<open>Pattern_done\<close>; earlier versions,
  which the project supports, run it in a task of its own and do.
\<close>

datatype task_result = Returned | Cancelled_task | Raised exn

datatype exec_pc =
    is_not_started: Not_started
  | Driving "string coro"
  | At_llm string "llm_response \<Rightarrow> string coro" time
  | At_tool string "string \<Rightarrow> string coro" time
  | Pattern_done "exn + string"
  | Exec_done task_result

lemma is_not_started_iff [simp]: "is_not_started pc \<longleftrightarrow> pc = Not_started"
  by (cases pc) simp_all

record exec_task =
  et_run :: string
  et_pc :: exec_pc
  et_cancel :: bool
  et_began :: time

datatype worker_pc = W_idle | W_busy string nat | W_dead

record worker =
  wk_pc :: worker_pc
  wk_cancel :: bool

type_synonym idem_entry = "string \<times> string \<times> agent_kind \<times> string option"

record runtime =
  rt_heap :: "string \<rightharpoonup> run_record"
  rt_runs :: "string list"
  rt_completion :: "(string, bool) dict"
  rt_idem :: "(string, idem_entry) dict"
  rt_idem_by_run :: "(string, string) dict"
  rt_queue :: "run_task task_queue"
  rt_workers :: "worker list"
  rt_tasks :: "(string, nat) dict"
  rt_execs :: "exec_task list"
  rt_locks :: locks
  rt_sessions :: session_store
  rt_world :: world
  rt_started :: bool
  rt_closed :: bool
  rt_gathered :: "nat list"

text \<open>\<open>__init__\<close> with the default queue and sessions and a given event bus.\<close>

definition runtime_new :: "env \<Rightarrow> event_bus \<Rightarrow> exn + runtime" where
  "runtime_new E b =
     (case runtime_validate (env_config E) of Inl e \<Rightarrow> Inl e | Inr _ \<Rightarrow>
     (case session_store_new (cf_history_messages (env_config E)) of Inl e \<Rightarrow> Inl e | Inr ss \<Rightarrow>
     (case queue_new (cf_queue_capacity (env_config E)) of Inl e \<Rightarrow> Inl e | Inr q \<Rightarrow>
      Inr \<lparr>rt_heap = Map.empty, rt_runs = [], rt_completion = [], rt_idem = [],
           rt_idem_by_run = [], rt_queue = q, rt_workers = [], rt_tasks = [], rt_execs = [],
           rt_locks = [], rt_sessions = ss,
           rt_world = \<lparr>w_metrics = [], w_bus = b, w_uuids = 0\<rparr>,
           rt_started = False, rt_closed = False, rt_gathered = []\<rparr>)))"

subsection \<open>Access to the shared state\<close>

definition runs_get :: "runtime \<Rightarrow> string \<Rightarrow> run_record option" where
  "runs_get s rid = (if rid \<in> set (rt_runs s) then rt_heap s rid else None)"

definition runs_values :: "runtime \<Rightarrow> run_record list" where
  "runs_values s = List.map_filter (rt_heap s) (rt_runs s)"

definition map_run :: "string \<Rightarrow> (run_record \<Rightarrow> run_record) \<Rightarrow> runtime \<Rightarrow> runtime" where
  "map_run rid f s = s\<lparr>rt_heap := (rt_heap s)(rid := map_option f (rt_heap s rid))\<rparr>"

definition incr :: "string \<Rightarrow> pyfloat \<Rightarrow> runtime \<Rightarrow> runtime" where
  "incr k v s = s\<lparr>rt_world := w_increment k v (rt_world s)\<rparr>"

definition set_gauge :: "string \<Rightarrow> pyfloat \<Rightarrow> runtime \<Rightarrow> runtime" where
  "set_gauge k v s = s\<lparr>rt_world := w_set k v (rt_world s)\<rparr>"

definition emit_run ::
    "env \<Rightarrow> time \<Rightarrow> string \<Rightarrow> string \<Rightarrow> (run_record \<Rightarrow> (string, pyval) dict) \<Rightarrow> runtime \<Rightarrow> runtime" where
  "emit_run E now topic rid payload s =
     (case rt_heap s rid of
        None \<Rightarrow> s
      | Some run \<Rightarrow>
          s\<lparr>rt_world := emit (env_uuids E) now topic (rr_trace_id run) (rr_id run) (payload run)
              (rt_world s)\<rparr>)"

definition update_registry_metrics :: "runtime \<Rightarrow> runtime" where
  "update_registry_metrics s =
     set_gauge ''runs_retained'' (of_nat (length (rt_runs s)))
       (set_gauge ''run_queue_depth'' (of_nat (queue_qsize (rt_queue s))) s)"

text \<open>\<open>_completion_events[run_id]\<close> raises \<open>KeyError\<close> for a run that is not registered.\<close>

definition completion_put :: "string \<Rightarrow> bool \<Rightarrow> runtime \<Rightarrow> exn + runtime" where
  "completion_put rid flag s =
     (case dict_get (rt_completion s) rid of
        None \<Rightarrow> Inl (KeyError rid)
      | Some _ \<Rightarrow> Inr (s\<lparr>rt_completion := dict_set rid flag (rt_completion s)\<rparr>))"

subsection \<open>State machine operations on a run of the runtime\<close>

definition on_transition :: "env \<Rightarrow> time \<Rightarrow> world hook" where
  "on_transition E now run source target reason w =
     emit (env_uuids E) now ''run.state_changed'' (rr_trace_id run) (rr_id run)
       [(''from'', PStr (state_value source)), (''to'', PStr (state_value target)),
        (''reason'', PStr reason)]
       (w_increment (''state_transitions_'' @ state_value source @ ''_to_'' @ state_value target
          @ ''_total'') 1 w)"

definition fsm_store :: "string \<Rightarrow> run_record \<times> world \<Rightarrow> locks \<Rightarrow> runtime \<Rightarrow> runtime" where
  "fsm_store rid rw ls s =
     s\<lparr>rt_heap := (rt_heap s)(rid \<mapsto> fst rw), rt_world := snd rw, rt_locks := ls\<rparr>"

definition fsm_transition ::
    "env \<Rightarrow> time \<Rightarrow> string \<Rightarrow> run_state \<Rightarrow> string \<Rightarrow> runtime \<Rightarrow> (exn + unit) \<times> runtime" where
  "fsm_transition E now rid target reason s =
     (case rt_heap s rid of
        None \<Rightarrow> (Inr (), s)
      | Some run \<Rightarrow>
         (let ((res, rw), ls) = transition (Some (on_transition E now)) now target reason
                (run, rt_world s) (rt_locks s)
          in (res, fsm_store rid rw ls s)))"

definition fsm_if_current ::
    "env \<Rightarrow> time \<Rightarrow> string \<Rightarrow> run_state \<Rightarrow> run_state \<Rightarrow> string \<Rightarrow> runtime \<Rightarrow> (exn + bool) \<times> runtime" where
  "fsm_if_current E now rid expected target reason s =
     (case rt_heap s rid of
        None \<Rightarrow> (Inr False, s)
      | Some run \<Rightarrow>
         (let ((res, rw), ls) = transition_if_current (Some (on_transition E now)) now expected
                target reason (run, rt_world s) (rt_locks s)
          in (res, fsm_store rid rw ls s)))"

definition fsm_if_allowed ::
    "env \<Rightarrow> time \<Rightarrow> string \<Rightarrow> run_state \<Rightarrow> string \<Rightarrow> runtime \<Rightarrow> bool \<times> runtime" where
  "fsm_if_allowed E now rid target reason s =
     (case rt_heap s rid of
        None \<Rightarrow> (False, s)
      | Some run \<Rightarrow>
         (let ((res, rw), ls) = transition_if_allowed (Some (on_transition E now)) now target
                reason (run, rt_world s) (rt_locks s)
          in (res, fsm_store rid rw ls s)))"

subsection \<open>Starting, and reclaiming finished runs\<close>

definition runtime_start :: "env \<Rightarrow> runtime \<Rightarrow> (exn + unit) \<times> runtime" where
  "runtime_start E s =
     (if rt_closed s then (Inl (BuiltinRuntimeError ''runtime has been closed''), s)
      else if rt_started s then (Inr (), s)
      else
        (let w = (rt_world s)\<lparr>w_bus := bus_start (w_bus (rt_world s))\<rparr>;
             s1 = s\<lparr>rt_world := w,
                    rt_workers := replicate (nat (cf_max_concurrency (env_config E)))
                      \<lparr>wk_pc = W_idle, wk_cancel = False\<rparr>\<rparr>;
             s2 = set_gauge ''runtime_concurrency_limit''
                    (of_int (cf_max_concurrency (env_config E))) s1;
             s3 = set_gauge ''run_queue_capacity'' (of_nat (tq_capacity (rt_queue s2))) s2
         in (Inr (), s3\<lparr>rt_started := True\<rparr>)))"

text \<open>\<open>run.finished_at or run.updated_at\<close>: the float 0.0 counts as absent.\<close>

definition finish_key :: "run_record \<Rightarrow> time" where
  "finish_key r =
     (case rr_finished_at r of
        Some t \<Rightarrow> if t \<noteq> 0 then t else rr_updated_at r
      | None \<Rightarrow> rr_updated_at r)"

text \<open>The loop over the overflow: the oldest finished runs that are not removed yet.\<close>

fun pick_overflow :: "nat \<Rightarrow> string list \<Rightarrow> run_record list \<Rightarrow> string list" where
  "pick_overflow 0 remove_ids rs = remove_ids"
| "pick_overflow (Suc n) remove_ids [] = remove_ids"
| "pick_overflow (Suc n) remove_ids (r # rs) =
     (if rr_id r \<in> set remove_ids then pick_overflow (Suc n) remove_ids rs
      else pick_overflow n (remove_ids @ [rr_id r]) rs)"

definition evict :: "string \<Rightarrow> runtime \<Rightarrow> runtime" where
  "evict rid s =
     (let s1 = s\<lparr>rt_runs := removeAll rid (rt_runs s),
                 rt_completion := dict_pop rid (rt_completion s)\<rparr>;
          s2 = (case dict_get (rt_idem_by_run s1) rid of
                  None \<Rightarrow> s1
                | Some key \<Rightarrow> s1\<lparr>rt_idem_by_run := dict_pop rid (rt_idem_by_run s1),
                                 rt_idem := dict_pop key (rt_idem s1)\<rparr>);
          s3 = s2\<lparr>rt_locks := discard rid (rt_locks s2)\<rparr>
      in incr ''runs_evicted_total'' 1 s3)"

definition removable :: "env \<Rightarrow> time \<Rightarrow> int \<Rightarrow> runtime \<Rightarrow> string list" where
  "removable E now reserve s =
     (let cutoff = now - cf_run_retention_seconds (env_config E);
          finished = sort_key finish_key (filter (\<lambda>r. terminal (rr_state r)) (runs_values s));
          remove_ids = map rr_id (filter (\<lambda>r. finish_key r < cutoff) finished);
          retained_after_ttl = int (length (rt_runs s)) - int (length remove_ids);
          overflow = max 0 (retained_after_ttl + reserve - cf_max_run_records (env_config E))
      in pick_overflow (nat overflow) remove_ids finished)"

definition cleanup_runs :: "env \<Rightarrow> time \<Rightarrow> int \<Rightarrow> runtime \<Rightarrow> runtime" where
  "cleanup_runs E now reserve s =
     update_registry_metrics (fold evict (removable E now reserve s) s)"

subsection \<open>Submitting\<close>

text \<open>
  The body of \<open>submit\<close> under the submission lock, after \<open>_cleanup_runs\<close>: first the look-up of
  the idempotency key (\<open>Some\<close> is an early exit), then admission.
\<close>

definition idem_replay ::
    "string \<Rightarrow> agent_kind \<Rightarrow> string option \<Rightarrow> string option \<Rightarrow> runtime \<Rightarrow>
     (exn + string) option \<times> runtime" where
  "idem_replay input kind session_id key s =
     (case key of
        None \<Rightarrow> (None, s)
      | Some k \<Rightarrow>
         (case dict_get (rt_idem s) k of
            None \<Rightarrow> (None, s)
          | Some (rid, prev_input, prev_kind, prev_session) \<Rightarrow>
             (case runs_get s rid of
                None \<Rightarrow> (None, s\<lparr>rt_idem := dict_pop k (rt_idem s)\<rparr>)
              | Some run \<Rightarrow>
                 if input \<noteq> prev_input \<or> kind \<noteq> prev_kind \<or> session_id \<noteq> prev_session
                 then (Some (Inl (IdempotencyConflictError
                         ''idempotency key was already used with a different request'')), s)
                 else (Some (Inr rid), incr ''idempotency_replays_total'' 1 s))))"

definition rejected :: "env \<Rightarrow> runtime \<Rightarrow> exn \<times> runtime" where
  "rejected E s =
     (RunQueueFullError (cf_queue_retry_after_seconds (env_config E)),
      incr ''run_submissions_rejected_total'' 1 s)"

text \<open>\<open>self._queue.put_nowait(RunTask(run.id))\<close>\<close>

definition enqueue :: "time \<Rightarrow> string \<Rightarrow> runtime \<Rightarrow> (exn + unit) \<times> runtime" where
  "enqueue now rid s =
     (case mk_run_task rid 1 now of
        Inl e \<Rightarrow> (Inl e, s)
      | Inr task \<Rightarrow>
         (case queue_put_nowait task (rt_queue s) of
            Inl e \<Rightarrow> (Inl e, s)
          | Inr q \<Rightarrow> (Inr (), s\<lparr>rt_queue := q\<rparr>)))"

definition register_run ::
    "run_record \<Rightarrow> string \<Rightarrow> agent_kind \<Rightarrow> string option \<Rightarrow> string option \<Rightarrow> runtime \<Rightarrow> runtime" where
  "register_run run input kind session_id key s =
     (let rid = rr_id run;
          s1 = s\<lparr>rt_heap := (rt_heap s)(rid \<mapsto> run),
                 rt_runs := (if rid \<in> set (rt_runs s) then rt_runs s else rt_runs s @ [rid]),
                 rt_completion := dict_set rid False (rt_completion s)\<rparr>
      in case key of
           None \<Rightarrow> s1
         | Some k \<Rightarrow> s1\<lparr>rt_idem := dict_set k (rid, input, kind, session_id) (rt_idem s1),
                        rt_idem_by_run := dict_set rid k (rt_idem_by_run s1)\<rparr>)"

definition admit ::
    "env \<Rightarrow> time \<Rightarrow> string \<Rightarrow> agent_kind \<Rightarrow> string option \<Rightarrow> string option \<Rightarrow> runtime \<Rightarrow>
     (exn + string) \<times> runtime" where
  "admit E now input kind session_id key s =
     (if queue_full (rt_queue s)
      then (let (e, s1) = rejected E s in (Inl e, s1))
      else
        (let (rid, w1) = uuid4 (env_uuids E) (rt_world s);
             (sess, w2) = (case session_id of
                             Some sid \<Rightarrow> if sid \<noteq> [] then (sid, w1) else uuid4 (env_uuids E) w1
                           | None \<Rightarrow> uuid4 (env_uuids E) w1);
             (trace, w3) = uuid4 (env_uuids E) w2;
             s0 = s\<lparr>rt_world := w3\<rparr>
         in case mk_run_record rid input kind sess trace now of
              Inl e \<Rightarrow> (Inl e, s0)
            | Inr run \<Rightarrow>
               (let s1 = register_run run input kind session_id key s0;
                    s2 = incr ''runs_submitted_total'' 1 s1;
                    s3 = emit_run E now ''run.created'' rid
                           (\<lambda>r. [(''kind'', PStr (kind_value kind)),
                                 (''session_id'', PStr (rr_session_id r))]) s2
                in case fsm_transition E now rid READY ''accepted'' s3 of
                     (Inl e, s4) \<Rightarrow> (Inl e, s4)
                   | (Inr _, s4) \<Rightarrow>
                      (case enqueue now rid s4 of
                         (Inl e, s5) \<Rightarrow> (Inl e, s5)
                       | (Inr _, s5) \<Rightarrow> (Inr rid, update_registry_metrics s5)))))"

text \<open>\<open>submit\<close>; the kind is a member of the enum (\<open>Inr\<close>) or a text to be converted (\<open>Inl\<close>).\<close>

definition submit_kind :: "string + agent_kind \<Rightarrow> exn + agent_kind" where
  "submit_kind k = (case k of Inl text \<Rightarrow> agent_kind_of text | Inr kind \<Rightarrow> Inr kind)"

definition submit ::
    "env \<Rightarrow> time \<Rightarrow> string \<Rightarrow> string + agent_kind \<Rightarrow> string option \<Rightarrow> string option \<Rightarrow> runtime \<Rightarrow>
     (exn + string) \<times> runtime" where
  "submit E now input_text kind session_id key s =
     (let input = strip input_text in
      if input = [] then (Inl (ValueError ''run input must not be empty''), s)
      else case runtime_start E s of
        (Inl e, s1) \<Rightarrow> (Inl e, s1)
      | (Inr _, s1) \<Rightarrow>
         (case submit_kind kind of
            Inl e \<Rightarrow> (Inl e, s1)
          | Inr kd \<Rightarrow>
             if (case key of Some k \<Rightarrow> k = [] \<or> 128 < length k | None \<Rightarrow> False)
             then (Inl (ValueError ''idempotency key must contain 1 to 128 characters''), s1)
             else
              (case idem_replay input kd session_id key (cleanup_runs E now 1 s1) of
                 (Some r, s2) \<Rightarrow> (r, s2)
               | (None, s2) \<Rightarrow> admit E now input kd session_id key s2)))"

subsection \<open>Queries\<close>

definition runtime_get :: "runtime \<Rightarrow> string \<Rightarrow> exn + run_record" where
  "runtime_get s rid =
     (case runs_get s rid of
        None \<Rightarrow> Inl (RunNotFoundError (''unknown run: '' @ rid))
      | Some run \<Rightarrow> Inr run)"

definition list_runs :: "runtime \<Rightarrow> run_record list" where
  "list_runs s = sort_key (\<lambda>r. - rr_created_at r) (runs_values s)"

text \<open>\<open>wait\<close>: \<open>Inr None\<close> means that the caller suspends on the completion event.\<close>

definition runtime_wait :: "runtime \<Rightarrow> string \<Rightarrow> exn + run_record option" where
  "runtime_wait s rid =
     (case runtime_get s rid of
        Inl e \<Rightarrow> Inl e
      | Inr run \<Rightarrow>
         if terminal (rr_state run) then Inr (Some run)
         else (case dict_get (rt_completion s) rid of
                 None \<Rightarrow> Inl (KeyError rid)
               | Some flag \<Rightarrow> Inr (if flag then Some run else None)))"

definition audit_events :: "string option \<Rightarrow> runtime \<Rightarrow> (string, pyval) dict list" where
  "audit_events trace s = audit_list trace (w_bus (rt_world s))"

subsection \<open>Cancelling, retrying, closing\<close>

definition exec_live :: "exec_task \<Rightarrow> bool" where
  "exec_live x = (case et_pc x of Exec_done _ \<Rightarrow> False | _ \<Rightarrow> True)"

definition task_active :: "runtime \<Rightarrow> nat \<Rightarrow> bool" where
  "task_active s tid \<longleftrightarrow> tid < length (rt_execs s) \<and> exec_live (rt_execs s ! tid)"

text \<open>\<open>task.cancel()\<close> on an execution task; no effect on a task that is done.\<close>

definition task_cancel :: "nat \<Rightarrow> runtime \<Rightarrow> runtime" where
  "task_cancel tid s =
     (if task_active s tid
      then s\<lparr>rt_execs := (rt_execs s)[tid := (rt_execs s ! tid)\<lparr>et_cancel := True\<rparr>]\<rparr>
      else s)"

definition cancel :: "env \<Rightarrow> time \<Rightarrow> string \<Rightarrow> runtime \<Rightarrow> (exn + bool) \<times> runtime" where
  "cancel E now rid s =
     (case runtime_get s rid of
        Inl e \<Rightarrow> (Inl e, s)
      | Inr run \<Rightarrow>
         if terminal (rr_state run) then (Inr False, s)
         else
          (let s1 = map_run rid (\<lambda>r. r\<lparr>rr_cancel_requested := True\<rparr>) s;
               (cancelled, s2) = fsm_if_allowed E now rid CANCELLED ''cancel requested'' s1
           in if \<not> cancelled then (Inr False, s2)
              else
               (let s3 = (case dict_get (rt_tasks s2) rid of
                            None \<Rightarrow> s2 | Some tid \<Rightarrow> task_cancel tid s2)
                in case completion_put rid True s3 of
                     Inl e \<Rightarrow> (Inl e, s3)
                   | Inr s4 \<Rightarrow> (Inr True, incr ''runs_cancelled_total'' 1 s4))))"

definition retry :: "env \<Rightarrow> time \<Rightarrow> string \<Rightarrow> runtime \<Rightarrow> (exn + string) \<times> runtime" where
  "retry E now rid s =
     (case runtime_get s rid of
        Inl e \<Rightarrow> (Inl e, s)
      | Inr run \<Rightarrow>
         if queue_full (rt_queue s)
         then (let (e, s1) = rejected E s in (Inl e, s1))
         else
          (case fsm_transition E now rid READY ''manual retry'' s of
             (Inl e, s1) \<Rightarrow> (Inl e, s1)
           | (Inr _, s1) \<Rightarrow>
              (let s2 = map_run rid (\<lambda>r. r\<lparr>rr_error := None, rr_output := None,
                          rr_finished_at := None, rr_cancel_requested := False\<rparr>) s1
               in case completion_put rid False s2 of
                    Inl e \<Rightarrow> (Inl e, s2)
                  | Inr s3 \<Rightarrow>
                     (case enqueue now rid s3 of
                        (Inl e, s4) \<Rightarrow> (Inl e, s4)
                      | (Inr _, s4) \<Rightarrow>
                          (Inr rid, incr ''runs_retried_total'' 1 (update_registry_metrics s4))))))"

text \<open>
  \<open>close\<close> up to \<open>gather\<close>: every unfinished run is cancelled and its waiters are released, then
  the registered execution tasks and the workers are cancelled.
\<close>

fun close_runs :: "env \<Rightarrow> time \<Rightarrow> string list \<Rightarrow> runtime \<Rightarrow> (exn + unit) \<times> runtime" where
  "close_runs E now [] s = (Inr (), s)"
| "close_runs E now (rid # rids) s =
     (case rt_heap s rid of
        None \<Rightarrow> close_runs E now rids s
      | Some run \<Rightarrow>
         if terminal (rr_state run) then close_runs E now rids s
         else
          (let (_, s1) = fsm_if_allowed E now rid CANCELLED ''runtime shutdown'' s
           in case completion_put rid True s1 of
                Inl e \<Rightarrow> (Inl e, s1)
              | Inr s2 \<Rightarrow> close_runs E now rids s2))"

definition cancel_worker :: "worker \<Rightarrow> worker" where
  "cancel_worker w = (if wk_pc w = W_dead then w else w\<lparr>wk_cancel := True\<rparr>)"

definition close_begin :: "env \<Rightarrow> time \<Rightarrow> runtime \<Rightarrow> (exn + unit) \<times> runtime" where
  "close_begin E now s =
     (if rt_closed s then (Inr (), s)
      else
       (case close_runs E now (rt_runs s) (s\<lparr>rt_closed := True\<rparr>) of
          (Inl e, s1) \<Rightarrow> (Inl e, s1)
        | (Inr _, s1) \<Rightarrow>
           (let active = filter (task_active s1) (map snd (rt_tasks s1));
                s2 = fold task_cancel active s1
            in (Inr (), s2\<lparr>rt_workers := map cancel_worker (rt_workers s2),
                           rt_gathered := active\<rparr>))))"

text \<open>
  The rest of \<open>close\<close>, once the tasks it gathers are done and the event bus has stopped.
\<close>

definition close_end :: "runtime \<Rightarrow> runtime option" where
  "close_end s =
     (if rt_closed s \<and> (\<forall>w \<in> set (rt_workers s). wk_pc w = W_dead)
         \<and> (\<forall>tid \<in> set (rt_gathered s). \<not> task_active s tid)
         \<and> \<not> eb_started (w_bus (rt_world s))
      then Some (s\<lparr>rt_closed := True, rt_started := False\<rparr>) else None)"

subsection \<open>Workers\<close>

definition set_worker :: "nat \<Rightarrow> worker_pc \<Rightarrow> runtime \<Rightarrow> runtime" where
  "set_worker i pc s =
     s\<lparr>rt_workers := (rt_workers s)[i := (rt_workers s ! i)\<lparr>wk_pc := pc\<rparr>]\<rparr>"

text \<open>
  The outer \<open>finally\<close> of the worker loop, after which the worker is at \<open>pc\<close>; a raising
  \<open>task_done\<close> ends it.
\<close>

definition item_done :: "nat \<Rightarrow> worker_pc \<Rightarrow> runtime \<Rightarrow> runtime" where
  "item_done i pc s =
     (case queue_task_done (rt_queue s) of
        Inl _ \<Rightarrow> set_worker i W_dead s
      | Inr q \<Rightarrow> set_worker i pc (update_registry_metrics (s\<lparr>rt_queue := q\<rparr>)))"

text \<open>A worker waiting in \<open>queue.get\<close> receives a task and starts an execution, or skips it.\<close>

definition worker_pick :: "nat \<Rightarrow> runtime \<Rightarrow> runtime option" where
  "worker_pick i s =
     (if i < length (rt_workers s) \<and> wk_pc (rt_workers s ! i) = W_idle
         \<and> \<not> wk_cancel (rt_workers s ! i)
      then
       (case queue_get (rt_queue s) of
          None \<Rightarrow> None
        | Some (task, q) \<Rightarrow>
           (let s1 = s\<lparr>rt_queue := q\<rparr> in
            case runs_get s1 (task_run_id task) of
              None \<Rightarrow> Some (item_done i W_idle s1)
            | Some run \<Rightarrow>
               if terminal (rr_state run) then Some (item_done i W_idle s1)
               else
                (let tid = length (rt_execs s1);
                     s2 = s1\<lparr>rt_execs := rt_execs s1 @
                            [\<lparr>et_run = rr_id run, et_pc = Not_started, et_cancel = False,
                              et_began = 0\<rparr>],
                            rt_tasks := dict_set (rr_id run) tid (rt_tasks s1)\<rparr>
                 in Some (set_worker i (W_busy (rr_id run) tid) s2))))
      else None)"

text \<open>
  \<open>await asyncio.shield(task)\<close> returns when the task is done. A task that was cancelled before
  its first step, or that raised, makes the \<open>await\<close> raise in the worker, which has no handler:
  both \<open>finally\<close> blocks run and the worker ends.
\<close>

definition worker_resume :: "nat \<Rightarrow> runtime \<Rightarrow> runtime option" where
  "worker_resume i s =
     (if i < length (rt_workers s)
      then
       (case wk_pc (rt_workers s ! i) of
          W_busy rid tid \<Rightarrow>
           (if tid < length (rt_execs s)
            then
             (case et_pc (rt_execs s ! tid) of
                Exec_done result \<Rightarrow>
                  Some (item_done i (if result = Returned then W_idle else W_dead)
                         (s\<lparr>rt_tasks := dict_pop rid (rt_tasks s)\<rparr>))
              | _ \<Rightarrow> None)
            else None)
        | _ \<Rightarrow> None)
      else None)"

text \<open>The cancellation requested by \<open>close\<close> reaches a worker.\<close>

definition worker_cancelled :: "nat \<Rightarrow> runtime \<Rightarrow> runtime option" where
  "worker_cancelled i s =
     (if i < length (rt_workers s) \<and> wk_cancel (rt_workers s ! i)
      then
       (case wk_pc (rt_workers s ! i) of
          W_idle \<Rightarrow> Some (set_worker i W_dead s)
        | W_busy rid tid \<Rightarrow> Some (item_done i W_dead (s\<lparr>rt_tasks := dict_pop rid (rt_tasks s)\<rparr>))
        | W_dead \<Rightarrow> None)
      else None)"

subsection \<open>Executing a run\<close>

definition set_exec :: "nat \<Rightarrow> exec_pc \<Rightarrow> runtime \<Rightarrow> runtime" where
  "set_exec tid pc s = s\<lparr>rt_execs := (rt_execs s)[tid := (rt_execs s ! tid)\<lparr>et_pc := pc\<rparr>]\<rparr>"

definition exec_at :: "runtime \<Rightarrow> nat \<Rightarrow> exec_pc option" where
  "exec_at s tid =
     (if tid < length (rt_execs s) then Some (et_pc (rt_execs s ! tid)) else None)"

abbreviation exec_run :: "runtime \<Rightarrow> nat \<Rightarrow> string" where
  "exec_run s tid \<equiv> et_run (rt_execs s ! tid)"

definition run_state_of :: "runtime \<Rightarrow> string \<Rightarrow> run_state option" where
  "run_state_of s rid = map_option rr_state (rt_heap s rid)"

text \<open>The \<open>finally\<close> block of \<open>_execute\<close>.\<close>

definition exec_finally :: "nat \<Rightarrow> runtime \<Rightarrow> runtime" where
  "exec_finally tid s =
     (let rid = exec_run s tid;
          s1 = incr ''runs_active'' (-1) s
      in if (case run_state_of s1 rid of Some st \<Rightarrow> terminal st | None \<Rightarrow> False)
         then (case completion_put rid True s1 of
                 Inl e \<Rightarrow> set_exec tid (Exec_done (Raised e)) s1
               | Inr s2 \<Rightarrow> set_exec tid (Exec_done Returned) (update_registry_metrics s2))
         else set_exec tid (Exec_done Returned) (update_registry_metrics s1))"

text \<open>The \<open>except\<close> clauses of \<open>_execute\<close>.\<close>

definition exec_fail :: "env \<Rightarrow> time \<Rightarrow> nat \<Rightarrow> exn \<Rightarrow> runtime \<Rightarrow> runtime" where
  "exec_fail E now tid e s =
     (let rid = exec_run s tid in
      if e = CancelledError
      then exec_finally tid (snd (fsm_if_allowed E now rid CANCELLED ''task cancelled'' s))
      else
       (let err = class_name e @ '': '' @ exn_str e;
            s1 = map_run rid (\<lambda>r. r\<lparr>rr_error := Some err\<rparr>) s;
            (failed, s2) = fsm_if_allowed E now rid FAILED ''execution error'' s1;
            s3 = (if failed then incr ''runs_failed_total'' 1 s2 else s2);
            s4 = emit_run E now ''run.error'' rid (\<lambda>r. [(''error'', PStr err)]) s3
        in exec_finally tid s4))"

definition exec_context :: "env \<Rightarrow> run_record \<Rightarrow> runtime \<Rightarrow> agent_context" where
  "exec_context E run s =
     \<lparr>ctx_task = rr_input run, ctx_history = session_get (rt_sessions s) (rr_session_id run),
      ctx_max_steps = nat (cf_max_agent_steps (env_config E)), ctx_tools = env_tools E\<rparr>"

text \<open>\<open>_execute\<close> up to \<open>wait_for\<close>.\<close>

definition exec_start :: "env \<Rightarrow> time \<Rightarrow> nat \<Rightarrow> runtime \<Rightarrow> runtime option" where
  "exec_start E now tid s =
     (if (case exec_at s tid of Some pc \<Rightarrow> is_not_started pc | None \<Rightarrow> False)
         \<and> \<not> et_cancel (rt_execs s ! tid)
      then
       (let rid = exec_run s tid;
            s1 = set_gauge ''runtime_concurrency_limit''
                   (of_int (cf_max_concurrency (env_config E))) (incr ''runs_active'' 1 s)
        in if run_state_of s1 rid = Some CANCELLED then Some (exec_finally tid s1)
           else
            (case fsm_transition E now rid RUNNING ''worker acquired'' s1 of
               (Inl e, s2) \<Rightarrow> Some (exec_fail E now tid e s2)
             | (Inr _, s2) \<Rightarrow>
                (case rt_heap s2 rid of
                   None \<Rightarrow> None
                 | Some run \<Rightarrow>
                    (let coro = pattern_run (env_codec E) (rr_kind run) (exec_context E run s2);
                         s3 = set_exec tid (Driving coro) s2
                     in Some (s3\<lparr>rt_execs := (rt_execs s3)[tid :=
                               (rt_execs s3 ! tid)\<lparr>et_began := now\<rparr>]\<rparr>)))))
      else None)"

text \<open>
  The pattern runs to its next suspension, which is in \<open>_complete\<close> or in \<open>_execute_tool\<close>: the first
  halves of the two. A refused transition raises in the pattern, which ends it.
\<close>

definition begin_complete ::
    "env \<Rightarrow> time \<Rightarrow> nat \<Rightarrow> llm_request \<Rightarrow> string \<Rightarrow> (llm_response \<Rightarrow> string coro) \<Rightarrow> runtime \<Rightarrow> runtime" where
  "begin_complete E now tid req step_name k s =
     (let rid = exec_run s tid in
      case fsm_transition E now rid WAITING (''LLM: '' @ step_name) s of
        (Inl e, s1) \<Rightarrow> set_exec tid (Pattern_done (Inl e)) s1
      | (Inr _, s1) \<Rightarrow>
         (let s2 = emit_run E now ''llm.requested'' rid
                (\<lambda>r. [(''step'', PStr step_name),
                      (''messages'', PInt (int (length (req_messages req))))]) s1
          in set_exec tid (At_llm step_name k now) s2))"

definition begin_execute_tool ::
    "env \<Rightarrow> time \<Rightarrow> nat \<Rightarrow> string \<Rightarrow> string \<Rightarrow> (string \<Rightarrow> string coro) \<Rightarrow> runtime \<Rightarrow> runtime" where
  "begin_execute_tool E now tid name step_name k s =
     (let rid = exec_run s tid in
      case fsm_transition E now rid WAITING (''tool: '' @ name) s of
        (Inl e, s1) \<Rightarrow> set_exec tid (Pattern_done (Inl e)) s1
      | (Inr _, s1) \<Rightarrow>
         (let s2 = emit_run E now ''tool.requested'' rid
                (\<lambda>r. [(''step'', PStr step_name), (''tool'', PStr name)]) s1
          in set_exec tid (At_tool name k now) s2))"

definition exec_drive :: "env \<Rightarrow> time \<Rightarrow> nat \<Rightarrow> runtime \<Rightarrow> runtime option" where
  "exec_drive E now tid s =
     (case exec_at s tid of
        Some (Driving coro) \<Rightarrow>
         (case coro of
            Ret output \<Rightarrow> Some (set_exec tid (Pattern_done (Inr output)) s)
          | Raise e \<Rightarrow> Some (set_exec tid (Pattern_done (Inl e)) s)
          | Complete req step_name k \<Rightarrow> Some (begin_complete E now tid req step_name k s)
          | Execute_tool name arguments step_name k \<Rightarrow>
              Some (begin_execute_tool E now tid name step_name k s))
      | _ \<Rightarrow> None)"

lemmas exec_drive_defs = exec_drive_def begin_complete_def begin_execute_tool_def

text \<open>
  The \<open>finally\<close> blocks of \<open>_complete\<close> and \<open>_execute_tool\<close>; a transition that raises there would
  replace the outcome.
\<close>

definition back_to_running :: "env \<Rightarrow> time \<Rightarrow> string \<Rightarrow> string \<Rightarrow> runtime \<Rightarrow> (exn + bool) \<times> runtime" where
  "back_to_running E now rid reason s = fsm_if_current E now rid WAITING RUNNING reason s"

definition resume_reason :: "exec_pc \<Rightarrow> string" where
  "resume_reason pc =
     (case pc of
        At_llm step_name _ _ \<Rightarrow> ''LLM returned: '' @ step_name
      | At_tool name _ _ \<Rightarrow> ''tool returned: '' @ name
      | _ \<Rightarrow> [])"

text \<open>
  The awaited call returns \<open>result\<close> (a provider's answer with its model name, or a tool's text);
  the step is recorded, the run goes back to RUNNING and the pattern continues.
\<close>

definition add_step :: "string \<Rightarrow> step_entry \<Rightarrow> runtime \<Rightarrow> runtime" where
  "add_step rid entry = map_run rid (\<lambda>r. r\<lparr>rr_steps := rr_steps r @ [entry]\<rparr>)"

definition exec_resume ::
    "env \<Rightarrow> time \<Rightarrow> nat \<Rightarrow> exn + string coro \<Rightarrow> runtime \<Rightarrow> runtime" where
  "exec_resume E now tid next s =
     (let reason = resume_reason (et_pc (rt_execs s ! tid)) in
      case back_to_running E now (exec_run s tid) reason s of
        (Inl e, s1) \<Rightarrow> set_exec tid (Pattern_done (Inl e)) s1
      | (Inr _, s1) \<Rightarrow>
         (case next of
            Inl e \<Rightarrow> set_exec tid (Pattern_done (Inl e)) s1
          | Inr coro \<Rightarrow> set_exec tid (Driving coro) s1))"

definition llm_return ::
    "env \<Rightarrow> time \<Rightarrow> nat \<Rightarrow> exn + llm_response \<Rightarrow> runtime \<Rightarrow> runtime option" where
  "llm_return E now tid result s =
     (case exec_at s tid of
        Some (At_llm step_name k began) \<Rightarrow>
         (case result of
            Inl e \<Rightarrow> Some (exec_resume E now tid (Inl e) s)
          | Inr response \<Rightarrow>
              Some (exec_resume E now tid (Inr (k response))
                (add_step (exec_run s tid)
                   \<lparr>se_type = ''llm'', se_name = step_name, se_model = Some (resp_model response),
                    se_latency = now - began\<rparr> s)))
      | _ \<Rightarrow> None)"

definition tool_return ::
    "env \<Rightarrow> time \<Rightarrow> nat \<Rightarrow> exn + string \<Rightarrow> runtime \<Rightarrow> runtime option" where
  "tool_return E now tid result s =
     (case exec_at s tid of
        Some (At_tool name k began) \<Rightarrow>
         (case result of
            Inl e \<Rightarrow> Some (exec_resume E now tid (Inl e) s)
          | Inr observation \<Rightarrow>
              Some (exec_resume E now tid (Inr (k observation))
                (add_step (exec_run s tid)
                   \<lparr>se_type = ''tool'', se_name = name, se_model = None,
                    se_latency = now - began\<rparr> s)))
      | _ \<Rightarrow> None)"

text \<open>\<open>wait_for\<close> returns the pattern's output, or raises what the pattern raised.\<close>

definition exec_success :: "env \<Rightarrow> time \<Rightarrow> nat \<Rightarrow> string \<Rightarrow> runtime \<Rightarrow> runtime" where
  "exec_success E now tid output s =
     (let rid = exec_run s tid;
          s1 = map_run rid (\<lambda>r. r\<lparr>rr_output := Some output\<rparr>) s
      in case rt_heap s1 rid of
           None \<Rightarrow> s1
         | Some run \<Rightarrow>
            (case append_turn (rr_session_id run) (rr_input run) output (rt_sessions s1) of
               (Inl e, ss) \<Rightarrow> exec_fail E now tid e (s1\<lparr>rt_sessions := ss\<rparr>)
             | (Inr _, ss) \<Rightarrow>
                (let s2 = s1\<lparr>rt_sessions := ss\<rparr>;
                     s3 = incr ''run_latency_seconds_sum'' (now - et_began (rt_execs s ! tid)) s2;
                     s4 = incr ''run_latency_seconds_count'' 1 s3
                 in case fsm_if_current E now rid RUNNING SUCCEEDED ''agent completed'' s4 of
                      (Inl e, s5) \<Rightarrow> exec_fail E now tid e s5
                    | (Inr succeeded, s5) \<Rightarrow>
                        exec_finally tid
                          (if succeeded then incr ''runs_succeeded_total'' 1 s5 else s5))))"

definition exec_finish :: "env \<Rightarrow> time \<Rightarrow> nat \<Rightarrow> runtime \<Rightarrow> runtime option" where
  "exec_finish E now tid s =
     (case exec_at s tid of
        Some (Pattern_done r) \<Rightarrow>
         (case r of
            Inl e \<Rightarrow> Some (exec_fail E now tid e s)
          | Inr output \<Rightarrow> Some (exec_success E now tid output s))
      | _ \<Rightarrow> None)"

text \<open>
  An interruption of the task inside \<open>wait_for\<close>: the timeout (\<open>TimeoutError\<close>) or the cancellation
  that \<open>cancel\<close> and \<open>close\<close> asked for (\<open>CancelledError\<close>). The \<open>finally\<close> block of a pending call
  runs first. Where the pattern has a task of its own, that task ends before \<open>wait_for\<close> raises, with a
  suspension in between: this is \<open>llm_return\<close> or \<open>tool_return\<close> with the interruption as the answer, and then
  \<open>exec_finish\<close>. A task that is cancelled before it started never runs.
\<close>

definition interrupt :: "env \<Rightarrow> time \<Rightarrow> nat \<Rightarrow> exn \<Rightarrow> runtime \<Rightarrow> runtime option" where
  "interrupt E now tid e s =
     (case exec_at s tid of
        Some (Driving coro) \<Rightarrow> Some (exec_fail E now tid e s)
      | Some (Pattern_done r) \<Rightarrow> Some (exec_fail E now tid e s)
      | Some (At_llm step_name k began) \<Rightarrow>
          Some (exec_fail E now tid e
            (snd (back_to_running E now (exec_run s tid) (''LLM returned: '' @ step_name) s)))
      | Some (At_tool name k began) \<Rightarrow>
          Some (exec_fail E now tid e
            (snd (back_to_running E now (exec_run s tid) (''tool returned: '' @ name) s)))
      | _ \<Rightarrow> None)"

definition exec_timeout :: "env \<Rightarrow> time \<Rightarrow> nat \<Rightarrow> runtime \<Rightarrow> runtime option" where
  "exec_timeout E now tid s = interrupt E now tid TimeoutError s"

definition exec_cancelled :: "env \<Rightarrow> time \<Rightarrow> nat \<Rightarrow> runtime \<Rightarrow> runtime option" where
  "exec_cancelled E now tid s =
     (if tid < length (rt_execs s) \<and> et_cancel (rt_execs s ! tid)
      then (if is_not_started (et_pc (rt_execs s ! tid))
            then Some (set_exec tid (Exec_done Cancelled_task) s)
            else interrupt E now tid CancelledError s)
      else None)"

end
