(* ===== verification/Runtime_Frame.thy ===== *)
theory Runtime_Frame
  imports Runtime
begin

section \<open>What the building blocks of the runtime change\<close>

text \<open>
  Field by field, the effect of the small operations that \<open>submit\<close>, \<open>cancel\<close>, \<open>retry\<close>,
  \<open>close\<close>, the workers and \<open>_execute\<close> are made of. The lemmas are simplification rules, so that
  the effect of a whole operation on one field is found by \<open>simp\<close>. \<open>active\<close> is the metric
  \<open>runs_active\<close> of a state.
\<close>

definition active :: "runtime \<Rightarrow> pyfloat" where
  "active s = metric (w_metrics (rt_world s)) ''runs_active''"

abbreviation bus_of :: "runtime \<Rightarrow> event_bus" where
  "bus_of s \<equiv> w_bus (rt_world s)"

abbreviation uuids_of :: "runtime \<Rightarrow> nat" where
  "uuids_of s \<equiv> w_uuids (rt_world s)"

subsection \<open>Metrics and events\<close>

lemma incr_fields [simp]:
  "rt_heap (incr k v s) = rt_heap s" "rt_runs (incr k v s) = rt_runs s"
  "rt_completion (incr k v s) = rt_completion s" "rt_idem (incr k v s) = rt_idem s"
  "rt_idem_by_run (incr k v s) = rt_idem_by_run s" "rt_queue (incr k v s) = rt_queue s"
  "rt_workers (incr k v s) = rt_workers s" "rt_tasks (incr k v s) = rt_tasks s"
  "rt_execs (incr k v s) = rt_execs s" "rt_locks (incr k v s) = rt_locks s"
  "rt_sessions (incr k v s) = rt_sessions s" "rt_started (incr k v s) = rt_started s"
  "rt_closed (incr k v s) = rt_closed s" "rt_gathered (incr k v s) = rt_gathered s"
  "bus_of (incr k v s) = bus_of s" "uuids_of (incr k v s) = uuids_of s"
  by (simp_all add: incr_def)

lemma set_gauge_fields [simp]:
  "rt_heap (set_gauge k v s) = rt_heap s" "rt_runs (set_gauge k v s) = rt_runs s"
  "rt_completion (set_gauge k v s) = rt_completion s" "rt_idem (set_gauge k v s) = rt_idem s"
  "rt_idem_by_run (set_gauge k v s) = rt_idem_by_run s" "rt_queue (set_gauge k v s) = rt_queue s"
  "rt_workers (set_gauge k v s) = rt_workers s" "rt_tasks (set_gauge k v s) = rt_tasks s"
  "rt_execs (set_gauge k v s) = rt_execs s" "rt_locks (set_gauge k v s) = rt_locks s"
  "rt_sessions (set_gauge k v s) = rt_sessions s" "rt_started (set_gauge k v s) = rt_started s"
  "rt_closed (set_gauge k v s) = rt_closed s" "rt_gathered (set_gauge k v s) = rt_gathered s"
  "bus_of (set_gauge k v s) = bus_of s" "uuids_of (set_gauge k v s) = uuids_of s"
  by (simp_all add: set_gauge_def)

lemma active_incr [simp]:
  "active (incr k v s) = (if k = ''runs_active'' then active s + v else active s)"
  by (simp add: active_def incr_def)

lemma active_set_gauge [simp]:
  "active (set_gauge k v s) = (if k = ''runs_active'' then v else active s)"
  by (simp add: active_def set_gauge_def)

lemma update_registry_metrics_fields [simp]:
  "rt_heap (update_registry_metrics s) = rt_heap s"
  "rt_runs (update_registry_metrics s) = rt_runs s"
  "rt_completion (update_registry_metrics s) = rt_completion s"
  "rt_idem (update_registry_metrics s) = rt_idem s"
  "rt_idem_by_run (update_registry_metrics s) = rt_idem_by_run s"
  "rt_queue (update_registry_metrics s) = rt_queue s"
  "rt_workers (update_registry_metrics s) = rt_workers s"
  "rt_tasks (update_registry_metrics s) = rt_tasks s"
  "rt_execs (update_registry_metrics s) = rt_execs s"
  "rt_locks (update_registry_metrics s) = rt_locks s"
  "rt_sessions (update_registry_metrics s) = rt_sessions s"
  "rt_started (update_registry_metrics s) = rt_started s"
  "rt_closed (update_registry_metrics s) = rt_closed s"
  "rt_gathered (update_registry_metrics s) = rt_gathered s"
  "bus_of (update_registry_metrics s) = bus_of s"
  "uuids_of (update_registry_metrics s) = uuids_of s"
  "active (update_registry_metrics s) = active s"
  by (simp_all add: update_registry_metrics_def)

lemma emit_run_fields [simp]:
  "rt_heap (emit_run E now t rid p s) = rt_heap s"
  "rt_runs (emit_run E now t rid p s) = rt_runs s"
  "rt_completion (emit_run E now t rid p s) = rt_completion s"
  "rt_idem (emit_run E now t rid p s) = rt_idem s"
  "rt_idem_by_run (emit_run E now t rid p s) = rt_idem_by_run s"
  "rt_queue (emit_run E now t rid p s) = rt_queue s"
  "rt_workers (emit_run E now t rid p s) = rt_workers s"
  "rt_tasks (emit_run E now t rid p s) = rt_tasks s"
  "rt_execs (emit_run E now t rid p s) = rt_execs s"
  "rt_locks (emit_run E now t rid p s) = rt_locks s"
  "rt_sessions (emit_run E now t rid p s) = rt_sessions s"
  "rt_started (emit_run E now t rid p s) = rt_started s"
  "rt_closed (emit_run E now t rid p s) = rt_closed s"
  "rt_gathered (emit_run E now t rid p s) = rt_gathered s"
  "active (emit_run E now t rid p s) = active s"
  by (simp_all add: emit_run_def active_def split: option.split)

lemma emit_run_uuids: "uuids_of s \<le> uuids_of (emit_run E now t rid p s)"
  by (simp add: emit_run_def split: option.split)

lemma emit_run_bus [inv_intros]: "wf_bus (bus_of s) \<Longrightarrow> wf_bus (bus_of (emit_run E now t rid p s))"
  by (simp add: emit_run_def wf_bus_emit split: option.split)

lemma map_run_fields [simp]:
  "rt_heap (map_run rid f s) = (rt_heap s)(rid := map_option f (rt_heap s rid))"
  "rt_runs (map_run rid f s) = rt_runs s" "rt_completion (map_run rid f s) = rt_completion s"
  "rt_idem (map_run rid f s) = rt_idem s" "rt_idem_by_run (map_run rid f s) = rt_idem_by_run s"
  "rt_queue (map_run rid f s) = rt_queue s" "rt_workers (map_run rid f s) = rt_workers s"
  "rt_tasks (map_run rid f s) = rt_tasks s" "rt_execs (map_run rid f s) = rt_execs s"
  "rt_locks (map_run rid f s) = rt_locks s" "rt_sessions (map_run rid f s) = rt_sessions s"
  "rt_started (map_run rid f s) = rt_started s" "rt_closed (map_run rid f s) = rt_closed s"
  "rt_gathered (map_run rid f s) = rt_gathered s" "rt_world (map_run rid f s) = rt_world s"
  "active (map_run rid f s) = active s"
  by (simp_all add: map_run_def active_def)

subsection \<open>Transitions\<close>

lemma on_transition_world [simp]:
  "w_uuids (on_transition E now r q t rs w) = Suc (w_uuids w)"
  "metric (w_metrics (on_transition E now r q t rs w)) ''runs_active'' =
     metric (w_metrics w) ''runs_active''"
  by (simp_all add: on_transition_def)

lemma on_transition_bus [inv_intros]:
  "wf_bus (w_bus w) \<Longrightarrow> wf_bus (w_bus (on_transition E now r q t rs w))"
  by (simp add: on_transition_def wf_bus_emit)

text \<open>The run object after an attempted transition.\<close>

definition moved :: "time \<Rightarrow> run_state \<Rightarrow> string \<Rightarrow> run_record \<Rightarrow> run_record" where
  "moved now t rs r =
     (if can_transition (rr_state r) t then apply_record now (rr_state r) t rs r else r)"

lemma moved_frame [simp]:
  "rr_id (moved now t rs r) = rr_id r" "rr_input (moved now t rs r) = rr_input r"
  "rr_kind (moved now t rs r) = rr_kind r" "rr_session_id (moved now t rs r) = rr_session_id r"
  "rr_trace_id (moved now t rs r) = rr_trace_id r" "rr_output (moved now t rs r) = rr_output r"
  "rr_created_at (moved now t rs r) = rr_created_at r"
  by (simp_all add: moved_def)

lemma moved_state:
  "rr_state (moved now t rs r) = (if can_transition (rr_state r) t then t else rr_state r)"
  by (simp add: moved_def)

lemma wf_moved [inv_intros]: "wf_run r \<Longrightarrow> wf_run (moved now t rs r)"
  by (simp add: moved_def wf_apply_record)

lemma fsm_store_fields [simp]:
  "rt_heap (fsm_store rid rw ls s) = (rt_heap s)(rid \<mapsto> fst rw)"
  "rt_runs (fsm_store rid rw ls s) = rt_runs s"
  "rt_completion (fsm_store rid rw ls s) = rt_completion s"
  "rt_idem (fsm_store rid rw ls s) = rt_idem s"
  "rt_idem_by_run (fsm_store rid rw ls s) = rt_idem_by_run s"
  "rt_queue (fsm_store rid rw ls s) = rt_queue s"
  "rt_workers (fsm_store rid rw ls s) = rt_workers s"
  "rt_tasks (fsm_store rid rw ls s) = rt_tasks s"
  "rt_execs (fsm_store rid rw ls s) = rt_execs s"
  "rt_locks (fsm_store rid rw ls s) = ls"
  "rt_sessions (fsm_store rid rw ls s) = rt_sessions s"
  "rt_started (fsm_store rid rw ls s) = rt_started s"
  "rt_closed (fsm_store rid rw ls s) = rt_closed s"
  "rt_gathered (fsm_store rid rw ls s) = rt_gathered s"
  "rt_world (fsm_store rid rw ls s) = snd rw"
  by (simp_all add: fsm_store_def)

definition fsm_effect ::
    "env \<Rightarrow> time \<Rightarrow> string \<Rightarrow> run_state \<Rightarrow> string \<Rightarrow> bool \<Rightarrow> runtime \<Rightarrow> runtime" where
  "fsm_effect E now rid t rs go s =
     (case rt_heap s rid of
        None \<Rightarrow> s
      | Some r \<Rightarrow>
          fsm_store rid
            (if go then (apply_record now (rr_state r) t rs r,
                         on_transition E now (apply_record now (rr_state r) t rs r) (rr_state r) t rs
                           (rt_world s))
             else (r, rt_world s))
            (dict_set (rr_id r) False (dict_set (rr_id r) True (lock_for (rr_id r) (rt_locks s)))) s)"

definition may_move :: "runtime \<Rightarrow> string \<Rightarrow> run_state \<Rightarrow> bool" where
  "may_move s rid t = (case run_state_of s rid of None \<Rightarrow> False | Some q \<Rightarrow> can_transition q t)"

lemma fsm_transition_eq:
  "fsm_transition E now rid t rs s =
     (case run_state_of s rid of
        None \<Rightarrow> Inr ()
      | Some q \<Rightarrow> if can_transition q t then Inr ()
                  else Inl (InvalidStateTransition (illegal_message q t)),
      fsm_effect E now rid t rs (may_move s rid t) s)"
  by (simp add: fsm_transition_def transition_def fsm_effect_def may_move_def run_state_of_def
      Let_def with_lock_const apply_transition_def split: option.split)

lemma fsm_if_allowed_eq:
  "fsm_if_allowed E now rid t rs s =
     (may_move s rid t, fsm_effect E now rid t rs (may_move s rid t) s)"
  by (simp add: fsm_if_allowed_def transition_if_allowed_def fsm_effect_def may_move_def
      run_state_of_def Let_def with_lock_const apply_transition_def split: option.split)

lemma fsm_if_current_eq:
  "can_transition e t \<Longrightarrow>
   fsm_if_current E now rid e t rs s =
     (Inr (run_state_of s rid = Some e),
      fsm_effect E now rid t rs (run_state_of s rid = Some e) s)"
  by (auto simp: fsm_if_current_def transition_if_current_def fsm_effect_def run_state_of_def
      Let_def with_lock_const apply_transition_def split: option.split)

lemma fsm_effect_fields [simp]:
  "rt_runs (fsm_effect E now rid t rs go s) = rt_runs s"
  "rt_completion (fsm_effect E now rid t rs go s) = rt_completion s"
  "rt_idem (fsm_effect E now rid t rs go s) = rt_idem s"
  "rt_idem_by_run (fsm_effect E now rid t rs go s) = rt_idem_by_run s"
  "rt_queue (fsm_effect E now rid t rs go s) = rt_queue s"
  "rt_workers (fsm_effect E now rid t rs go s) = rt_workers s"
  "rt_tasks (fsm_effect E now rid t rs go s) = rt_tasks s"
  "rt_execs (fsm_effect E now rid t rs go s) = rt_execs s"
  "rt_sessions (fsm_effect E now rid t rs go s) = rt_sessions s"
  "rt_started (fsm_effect E now rid t rs go s) = rt_started s"
  "rt_closed (fsm_effect E now rid t rs go s) = rt_closed s"
  "rt_gathered (fsm_effect E now rid t rs go s) = rt_gathered s"
  "active (fsm_effect E now rid t rs go s) = active s"
  by (simp_all add: fsm_effect_def active_def split: option.split)

lemma fsm_effect_heap:
  "rt_heap (fsm_effect E now rid t rs go s) =
     (rt_heap s)(rid := map_option
        (\<lambda>r. if go then apply_record now (rr_state r) t rs r else r) (rt_heap s rid))"
  by (auto simp: fsm_effect_def fun_eq_iff split: option.split)

lemma fsm_effect_uuids: "uuids_of s \<le> uuids_of (fsm_effect E now rid t rs go s)"
  by (simp add: fsm_effect_def split: option.split)

lemma fsm_effect_bus [inv_intros]:
  "wf_bus (bus_of s) \<Longrightarrow> wf_bus (bus_of (fsm_effect E now rid t rs go s))"
  by (simp add: fsm_effect_def on_transition_bus split: option.split)

lemma fsm_effect_locks [inv_intros]:
  "locks_free (rt_locks s) \<Longrightarrow> locks_free (rt_locks (fsm_effect E now rid t rs go s))"
  by (simp add: fsm_effect_def locks_free_set locks_free_lock_for split: option.split)

text \<open>The states of the runs, as a function of their ids.\<close>

lemma state_fsm_effect [simp]:
  "run_state_of (fsm_effect E now rid t rs go s) =
     (if go \<and> run_state_of s rid \<noteq> None then (run_state_of s)(rid \<mapsto> t) else run_state_of s)"
  by (auto simp: run_state_of_def fsm_effect_heap fun_eq_iff option.map_ident)

lemma state_map_run [simp]:
  "(\<And>r. rr_state (f r) = rr_state r) \<Longrightarrow> run_state_of (map_run rid f s) = run_state_of s"
  by (auto simp: run_state_of_def fun_eq_iff option.map_comp comp_def)

lemma state_heap_cong: "rt_heap s = rt_heap t \<Longrightarrow> run_state_of s = run_state_of t"
  by (simp add: run_state_of_def fun_eq_iff)

lemma state_simple [simp]:
  "run_state_of (incr k v s) = run_state_of s"
  "run_state_of (set_gauge k v s) = run_state_of s"
  "run_state_of (update_registry_metrics s) = run_state_of s"
  "run_state_of (emit_run E now tp rid p s) = run_state_of s"
  by (simp_all add: run_state_of_def fun_eq_iff)

lemma may_move_simps [simp]:
  "may_move (incr k v s) = may_move s"
  "may_move (set_gauge k v s) = may_move s"
  "may_move (update_registry_metrics s) = may_move s"
  "may_move (emit_run E now tp r p s) = may_move s"
  by (simp_all add: may_move_def fun_eq_iff)

subsection \<open>Completion events and tasks\<close>

lemma completion_put_Inr:
  "completion_put rid b s = Inr s' \<longleftrightarrow>
     rid \<in> fst ` set (rt_completion s) \<and>
     s' = s\<lparr>rt_completion := dict_set rid b (rt_completion s)\<rparr>"
  using dict_get_eq_None [of "rt_completion s" rid]
  by (auto simp: completion_put_def split: option.splits)

lemma completion_put_Inl:
  "completion_put rid b s = Inl e \<longleftrightarrow> rid \<notin> fst ` set (rt_completion s) \<and> e = KeyError rid"
  using dict_get_eq_None [of "rt_completion s" rid]
  by (auto simp: completion_put_def split: option.splits)

lemma completion_put_eq:
  "completion_put rid b s =
     (if rid \<in> fst ` set (rt_completion s)
      then Inr (s\<lparr>rt_completion := dict_set rid b (rt_completion s)\<rparr>) else Inl (KeyError rid))"
  using completion_put_Inr [of rid b s] completion_put_Inl [of rid b s] by auto

lemma set_exec_fields [simp]:
  "rt_heap (set_exec tid pc s) = rt_heap s" "rt_runs (set_exec tid pc s) = rt_runs s"
  "rt_completion (set_exec tid pc s) = rt_completion s" "rt_idem (set_exec tid pc s) = rt_idem s"
  "rt_idem_by_run (set_exec tid pc s) = rt_idem_by_run s"
  "rt_queue (set_exec tid pc s) = rt_queue s" "rt_workers (set_exec tid pc s) = rt_workers s"
  "rt_tasks (set_exec tid pc s) = rt_tasks s" "rt_locks (set_exec tid pc s) = rt_locks s"
  "rt_execs (set_exec tid pc s) = (rt_execs s)[tid := (rt_execs s ! tid)\<lparr>et_pc := pc\<rparr>]"
  "rt_sessions (set_exec tid pc s) = rt_sessions s"
  "rt_started (set_exec tid pc s) = rt_started s" "rt_closed (set_exec tid pc s) = rt_closed s"
  "rt_gathered (set_exec tid pc s) = rt_gathered s" "rt_world (set_exec tid pc s) = rt_world s"
  "active (set_exec tid pc s) = active s" "run_state_of (set_exec tid pc s) = run_state_of s"
  by (simp_all add: set_exec_def active_def run_state_of_def fun_eq_iff)

lemma set_worker_fields [simp]:
  "rt_heap (set_worker i pc s) = rt_heap s" "rt_runs (set_worker i pc s) = rt_runs s"
  "rt_completion (set_worker i pc s) = rt_completion s" "rt_idem (set_worker i pc s) = rt_idem s"
  "rt_idem_by_run (set_worker i pc s) = rt_idem_by_run s"
  "rt_queue (set_worker i pc s) = rt_queue s" "rt_tasks (set_worker i pc s) = rt_tasks s"
  "rt_workers (set_worker i pc s) = (rt_workers s)[i := (rt_workers s ! i)\<lparr>wk_pc := pc\<rparr>]"
  "rt_execs (set_worker i pc s) = rt_execs s" "rt_locks (set_worker i pc s) = rt_locks s"
  "rt_sessions (set_worker i pc s) = rt_sessions s"
  "rt_started (set_worker i pc s) = rt_started s" "rt_closed (set_worker i pc s) = rt_closed s"
  "rt_gathered (set_worker i pc s) = rt_gathered s" "rt_world (set_worker i pc s) = rt_world s"
  "active (set_worker i pc s) = active s" "run_state_of (set_worker i pc s) = run_state_of s"
  by (simp_all add: set_worker_def active_def run_state_of_def fun_eq_iff)

lemma state_updates [simp]:
  "run_state_of (s\<lparr>rt_completion := c\<rparr>) = run_state_of s"
  "run_state_of (s\<lparr>rt_queue := q\<rparr>) = run_state_of s"
  "run_state_of (s\<lparr>rt_tasks := d\<rparr>) = run_state_of s"
  "run_state_of (s\<lparr>rt_execs := x\<rparr>) = run_state_of s"
  "run_state_of (s\<lparr>rt_workers := w\<rparr>) = run_state_of s"
  "run_state_of (s\<lparr>rt_sessions := ss\<rparr>) = run_state_of s"
  "run_state_of (s\<lparr>rt_world := wo\<rparr>) = run_state_of s"
  "run_state_of (s\<lparr>rt_closed := b\<rparr>) = run_state_of s"
  "run_state_of (s\<lparr>rt_started := b\<rparr>) = run_state_of s"
  "run_state_of (s\<lparr>rt_idem := im\<rparr>) = run_state_of s"
  "run_state_of (s\<lparr>rt_gathered := g\<rparr>) = run_state_of s"
  by (simp_all add: run_state_of_def fun_eq_iff)

lemma active_updates [simp]:
  "active (s\<lparr>rt_completion := c\<rparr>) = active s" "active (s\<lparr>rt_queue := q\<rparr>) = active s"
  "active (s\<lparr>rt_tasks := d\<rparr>) = active s" "active (s\<lparr>rt_execs := x\<rparr>) = active s"
  "active (s\<lparr>rt_workers := w\<rparr>) = active s" "active (s\<lparr>rt_sessions := ss\<rparr>) = active s"
  "active (s\<lparr>rt_closed := b\<rparr>) = active s" "active (s\<lparr>rt_started := b\<rparr>) = active s"
  "active (s\<lparr>rt_idem := im\<rparr>) = active s" "active (s\<lparr>rt_gathered := g\<rparr>) = active s"
  by (simp_all add: active_def)

end
