(* ===== verification/Runtime_Schedule.thy ===== *)
theory Runtime_Schedule
  imports Runtime_Frame
begin

section \<open>The scheduling invariant\<close>

text \<open>
  Where an unfinished run is. \<open>sched \<sigma> q xs\<close> relates the states of the runs, the run ids in the
  queue and the execution tasks: a READY run is queued or has a task that has not started, a
  RUNNING or WAITING run has exactly one task, at a matching point, and no run is in two places.
  Each lemma is one way in which the runtime changes the three together.
\<close>

fun pc_states :: "exec_pc \<Rightarrow> run_state set" where
  "pc_states Not_started = {READY, CANCELLED}"
| "pc_states (Driving _) = {RUNNING, CANCELLED}"
| "pc_states (Pattern_done _) = {RUNNING, CANCELLED}"
| "pc_states (At_llm _ _ _) = {WAITING, CANCELLED}"
| "pc_states (At_tool _ _ _) = {WAITING, CANCELLED}"
| "pc_states (Exec_done _) = UNIV"

definition live :: "exec_task list \<Rightarrow> nat \<Rightarrow> bool" where
  "live xs tid \<longleftrightarrow> tid < length xs \<and> exec_live (xs ! tid)"

definition sched :: "(string \<rightharpoonup> run_state) \<Rightarrow> string list \<Rightarrow> exec_task list \<Rightarrow> bool" where
  "sched \<sigma> q xs \<longleftrightarrow>
     distinct q
     \<and> (\<forall>rid \<in> set q. \<sigma> rid = Some READY \<or> \<sigma> rid = Some CANCELLED)
     \<and> (\<forall>tid. live xs tid \<longrightarrow> \<sigma> (et_run (xs ! tid)) \<in> Some ` pc_states (et_pc (xs ! tid)))
     \<and> (\<forall>tid. live xs tid \<longrightarrow> et_cancel (xs ! tid) \<longrightarrow> \<sigma> (et_run (xs ! tid)) = Some CANCELLED)
     \<and> (\<forall>i j. live xs i \<longrightarrow> live xs j \<longrightarrow> et_run (xs ! i) = et_run (xs ! j) \<longrightarrow> i = j)
     \<and> (\<forall>tid. live xs tid \<longrightarrow> et_run (xs ! tid) \<notin> set q)
     \<and> (\<forall>rid t. \<sigma> rid = Some t \<longrightarrow> \<not> terminal t \<longrightarrow>
           rid \<in> set q \<or> (\<exists>tid. live xs tid \<and> et_run (xs ! tid) = rid))
     \<and> (\<forall>rid. \<sigma> rid \<noteq> Some CREATED)"

lemma schedD:
  assumes "sched \<sigma> q xs"
  shows sched_distinct: "distinct q"
    and sched_queued: "rid \<in> set q \<Longrightarrow> \<sigma> rid = Some READY \<or> \<sigma> rid = Some CANCELLED"
    and sched_live: "live xs tid \<Longrightarrow> \<sigma> (et_run (xs ! tid)) \<in> Some ` pc_states (et_pc (xs ! tid))"
    and sched_cancel: "live xs tid \<Longrightarrow> et_cancel (xs ! tid) \<Longrightarrow>
      \<sigma> (et_run (xs ! tid)) = Some CANCELLED"
    and sched_one: "live xs i \<Longrightarrow> live xs j \<Longrightarrow> et_run (xs ! i) = et_run (xs ! j) \<Longrightarrow> i = j"
    and sched_apart: "live xs tid \<Longrightarrow> et_run (xs ! tid) \<notin> set q"
    and sched_covered: "\<sigma> rid = Some t \<Longrightarrow> \<not> terminal t \<Longrightarrow>
      rid \<in> set q \<or> (\<exists>tid. live xs tid \<and> et_run (xs ! tid) = rid)"
    and sched_created: "\<sigma> rid \<noteq> Some CREATED"
  using assms unfolding sched_def by blast+

lemma live_pc: "live xs tid \<longleftrightarrow> tid < length xs \<and> (\<forall>r. et_pc (xs ! tid) \<noteq> Exec_done r)"
  by (auto simp: live_def exec_live_def split: exec_pc.splits)

lemma live_states:
  assumes "sched \<sigma> q xs" and "live xs tid"
  obtains t where "\<sigma> (et_run (xs ! tid)) = Some t" "t \<in> pc_states (et_pc (xs ! tid))"
    "t \<in> {READY, RUNNING, WAITING, CANCELLED}"
  using sched_live [OF assms] assms(2) by (cases "et_pc (xs ! tid)") (auto simp: live_pc)

lemma not_live_finished:
  assumes "sched \<sigma> q xs" and "\<sigma> rid = None \<or> \<sigma> rid = Some FAILED \<or> \<sigma> rid = Some SUCCEEDED"
  shows "rid \<notin> set q" and "live xs tid \<Longrightarrow> et_run (xs ! tid) \<noteq> rid"
proof -
  show "rid \<notin> set q" using sched_queued [OF assms(1), of rid] assms(2) by auto
  assume "live xs tid"
  then obtain t where "\<sigma> (et_run (xs ! tid)) = Some t" "t \<in> {READY, RUNNING, WAITING, CANCELLED}"
    using live_states [OF assms(1)] by blast
  then show "et_run (xs ! tid) \<noteq> rid" using assms(2) by auto
qed

lemma sched_empty: "(\<And>rid. \<sigma> rid = None) \<Longrightarrow> sched \<sigma> [] []"
  by (simp add: sched_def live_def)

text \<open>A new run, or a failed one that is retried, enters the queue.\<close>

lemma sched_enqueue:
  assumes s: "sched \<sigma> q xs" and rid: "\<sigma> rid = None \<or> \<sigma> rid = Some FAILED"
  shows "sched (\<sigma>(rid \<mapsto> READY)) (q @ [rid]) xs"
proof -
  have q: "rid \<notin> set q" and l: "\<And>tid. live xs tid \<Longrightarrow> et_run (xs ! tid) \<noteq> rid"
    using not_live_finished [OF s] rid by blast+
  show ?thesis
    unfolding sched_def
    using s q l by (auto simp: sched_def)
qed

text \<open>Cancelling an unfinished run.\<close>

lemma sched_cancel_run:
  assumes s: "sched \<sigma> q xs"
  shows "sched (\<sigma>(rid \<mapsto> CANCELLED)) q xs"
proof -
  have "CANCELLED \<in> pc_states pc" for pc by (cases pc) auto
  then show ?thesis
    unfolding sched_def using s by (auto simp: sched_def)
qed

text \<open>A worker takes the first queue entry: it skips a cancelled run, or starts a task.\<close>

lemma sched_skip:
  assumes s: "sched \<sigma> (rid # q) xs" and rid: "\<sigma> rid = Some CANCELLED"
  shows "sched \<sigma> q xs"
  unfolding sched_def
proof (intro conjI allI impI)
  fix rid' t assume t: "\<sigma> rid' = Some t" "\<not> terminal t"
  then have "rid' \<noteq> rid" using rid by auto
  then show "rid' \<in> set q \<or> (\<exists>tid. live xs tid \<and> et_run (xs ! tid) = rid')"
    using sched_covered [OF s t] by auto
qed (use s in \<open>auto simp: sched_def\<close>)

lemma live_snoc [simp]:
  "live (xs @ [x]) tid \<longleftrightarrow> live xs tid \<or> tid = length xs \<and> exec_live x"
  by (auto simp: live_def nth_append)

lemma nth_snoc_live: "live xs tid \<Longrightarrow> (xs @ [x]) ! tid = xs ! tid"
  by (simp add: live_def nth_append)

lemma sched_pick:
  assumes s: "sched \<sigma> (rid # q) xs" and rid: "\<sigma> rid = Some READY"
    and x: "et_run x = rid" "et_pc x = Not_started" "\<not> et_cancel x"
  shows "sched \<sigma> q (xs @ [x])"
proof -
  have l: "\<And>tid. live xs tid \<Longrightarrow> et_run (xs ! tid) \<noteq> rid"
    using sched_apart [OF s] by auto
  have x': "exec_live x" using x(2) by (simp add: exec_live_def)
  show ?thesis
    unfolding sched_def
  proof (intro conjI allI impI)
    fix rid' t assume t: "\<sigma> rid' = Some t" "\<not> terminal t"
    then show "rid' \<in> set q \<or> (\<exists>tid. live (xs @ [x]) tid \<and> et_run ((xs @ [x]) ! tid) = rid')"
      using sched_covered [OF s t] x x' by (fastforce simp: nth_snoc_live)
  next
    fix i j assume "live (xs @ [x]) i" "live (xs @ [x]) j"
      "et_run ((xs @ [x]) ! i) = et_run ((xs @ [x]) ! j)"
    then show "i = j"
      using sched_one [OF s, of i j] l [of i] l [of j] x x' by (auto simp: nth_snoc_live)
  qed (use s rid x x' in \<open>auto simp: sched_def nth_snoc_live image_iff\<close>)
qed

text \<open>A task advances together with its run, or ends with its run finished.\<close>

lemma live_update:
  "tid < length xs \<Longrightarrow> live (xs[tid := x]) j \<longleftrightarrow> (if j = tid then exec_live x else live xs j)"
  by (auto simp: live_def nth_list_update)

lemma live_less [simp]: "live xs tid \<Longrightarrow> tid < length xs"
  by (simp add: live_def)

lemma sched_advance:
  assumes s: "sched \<sigma> q xs" and l: "live xs tid"
    and x: "et_run x = et_run (xs ! tid)" "et_cancel x = et_cancel (xs ! tid)" "exec_live x"
    and t: "t \<in> pc_states (et_pc x)" "t \<noteq> CREATED" "et_cancel x \<longrightarrow> t = CANCELLED"
  shows "sched (\<sigma>(et_run (xs ! tid) \<mapsto> t)) q (xs[tid := x])"
proof -
  let ?r = "et_run (xs ! tid)"
  have q: "?r \<notin> set q" using sched_apart [OF s l] .
  have other: "live xs j \<Longrightarrow> j \<noteq> tid \<Longrightarrow> et_run (xs ! j) \<noteq> ?r" for j
    using sched_one [OF s _ l] by blast
  show ?thesis
    unfolding sched_def
  proof (intro conjI allI impI)
    fix j assume "live (xs[tid := x]) j"
    then show "(\<sigma>(?r \<mapsto> t)) (et_run (xs[tid := x] ! j)) \<in> Some ` pc_states (et_pc (xs[tid := x] ! j))"
      using sched_live [OF s, of j] other [of j] l x t
      by (cases "j = tid") (auto simp: live_update)
  next
    fix j assume "live (xs[tid := x]) j" "et_cancel (xs[tid := x] ! j)"
    then show "(\<sigma>(?r \<mapsto> t)) (et_run (xs[tid := x] ! j)) = Some CANCELLED"
      using sched_cancel [OF s, of j] other [of j] l x t
      by (cases "j = tid") (auto simp: live_update)
  next
    fix i j assume "live (xs[tid := x]) i" "live (xs[tid := x]) j"
      "et_run (xs[tid := x] ! i) = et_run (xs[tid := x] ! j)"
    then show "i = j"
      using sched_one [OF s, of i j] other [of i] other [of j] l x
      by (cases "i = tid"; cases "j = tid") (auto simp: live_update)
  next
    fix j assume "live (xs[tid := x]) j"
    then show "et_run (xs[tid := x] ! j) \<notin> set q"
      using sched_apart [OF s, of j] q l x by (cases "j = tid") (auto simp: live_update)
  next
    fix rid u assume u: "(\<sigma>(?r \<mapsto> t)) rid = Some u" "\<not> terminal u"
    show "rid \<in> set q \<or> (\<exists>j. live (xs[tid := x]) j \<and> et_run (xs[tid := x] ! j) = rid)"
    proof (cases "rid = ?r")
      case True
      then show ?thesis using l x by (intro disjI2 exI [of _ tid]) (simp add: live_update)
    next
      case False
      then have "\<sigma> rid = Some u" using u by simp
      then show ?thesis
        using sched_covered [OF s _ u(2)] False l by (metis live_less live_update nth_list_update_neq)
    qed
  qed (use s q t in \<open>auto simp: sched_def\<close>)
qed

lemma sched_end:
  assumes s: "sched \<sigma> q xs" and l: "live xs tid" and x: "\<not> exec_live x" and t: "terminal t"
  shows "sched (\<sigma>(et_run (xs ! tid) \<mapsto> t)) q (xs[tid := x])"
proof -
  let ?r = "et_run (xs ! tid)"
  have q: "?r \<notin> set q" using sched_apart [OF s l] .
  have other: "live xs j \<Longrightarrow> j \<noteq> tid \<Longrightarrow> et_run (xs ! j) \<noteq> ?r" for j
    using sched_one [OF s _ l] by blast
  have lv: "live (xs[tid := x]) j \<longleftrightarrow> live xs j \<and> j \<noteq> tid" for j
    using l x by (auto simp: live_update)
  have nth: "j \<noteq> tid \<Longrightarrow> xs[tid := x] ! j = xs ! j" for j by simp
  show ?thesis
    unfolding sched_def lv
  proof (intro conjI allI impI)
    fix rid u assume u: "(\<sigma>(?r \<mapsto> t)) rid = Some u" "\<not> terminal u"
    then have r: "rid \<noteq> ?r" using t by auto
    then consider "rid \<in> set q" | j where "live xs j" "et_run (xs ! j) = rid"
      using sched_covered [OF s, of rid u] u by auto
    then show "rid \<in> set q \<or> (\<exists>j. (live xs j \<and> j \<noteq> tid) \<and> et_run (xs[tid := x] ! j) = rid)"
    proof cases
      case 2
      then have "j \<noteq> tid" using r by auto
      with 2 show ?thesis by (intro disjI2 exI [of _ j]) simp
    qed simp
  next
    fix i j assume "live xs i \<and> i \<noteq> tid" "live xs j \<and> j \<noteq> tid"
      "et_run (xs[tid := x] ! i) = et_run (xs[tid := x] ! j)"
    then show "i = j" using sched_one [OF s, of i j] by simp
  qed (use s q t other in \<open>auto simp: sched_def\<close>)
qed

text \<open>A request to cancel the task of a cancelled run.\<close>

lemma sched_request:
  assumes s: "sched \<sigma> q xs" and l: "live xs tid" and c: "\<sigma> (et_run (xs ! tid)) = Some CANCELLED"
  shows "sched \<sigma> q (xs[tid := (xs ! tid)\<lparr>et_cancel := True\<rparr>])"
proof -
  let ?x = "(xs ! tid)\<lparr>et_cancel := True\<rparr>"
  have x: "exec_live ?x" using l by (simp add: live_def exec_live_def)
  have eq: "et_run (xs[tid := ?x] ! j) = et_run (xs ! j)"
    "et_pc (xs[tid := ?x] ! j) = et_pc (xs ! j)" for j
    using l by (cases "j = tid"; simp)+
  have lv: "live (xs[tid := ?x]) j \<longleftrightarrow> live xs j" for j
    using l x by (auto simp: live_update)
  have cn: "et_cancel (xs[tid := ?x] ! j) \<Longrightarrow> j = tid \<or> et_cancel (xs ! j)" for j
    using l by (cases "j = tid") auto
  show ?thesis
    using s c cn unfolding sched_def eq lv by blast
qed

end
