(* ===== verification/Runtime_Invariant.thy ===== *)
theory Runtime_Invariant
  imports Runtime_Schedule
begin

section \<open>Reachable states of the runtime and their invariant\<close>

text \<open>
  The step relation of the runtime: every operation of its interface, every step of a worker and
  of an execution task, and every answer, timeout or cancellation the environment may produce, in
  any order and with any argument; and its invariant, in six parts that are preserved separately:
  the run objects, the registry, the schedule, the workers, the queue and the surroundings
  (metrics, bus, locks, sessions).
\<close>

subsection \<open>Steps and reachable states\<close>

inductive rt_step :: "env \<Rightarrow> runtime \<Rightarrow> runtime \<Rightarrow> bool" for E where
  start: "rt_step E s (snd (runtime_start E s))"
| submit: "rt_step E s (snd (submit E now text kind session_id key s))"
| cancel: "rt_step E s (snd (cancel E now rid s))"
| retry: "rt_step E s (snd (retry E now rid s))"
| close_begin: "rt_step E s (snd (close_begin E now s))"
| close_end: "close_end s = Some s' \<Longrightarrow> rt_step E s s'"
| worker_pick: "worker_pick i s = Some s' \<Longrightarrow> rt_step E s s'"
| worker_resume: "worker_resume i s = Some s' \<Longrightarrow> rt_step E s s'"
| worker_cancelled: "worker_cancelled i s = Some s' \<Longrightarrow> rt_step E s s'"
| exec_start: "exec_start E now tid s = Some s' \<Longrightarrow> rt_step E s s'"
| exec_drive: "exec_drive E now tid s = Some s' \<Longrightarrow> rt_step E s s'"
| llm_return: "llm_return E now tid result s = Some s' \<Longrightarrow> rt_step E s s'"
| tool_return: "tool_return E now tid answer s = Some s' \<Longrightarrow> rt_step E s s'"
| exec_finish: "exec_finish E now tid s = Some s' \<Longrightarrow> rt_step E s s'"
| exec_timeout: "exec_timeout E now tid s = Some s' \<Longrightarrow> rt_step E s s'"
| exec_cancelled: "exec_cancelled E now tid s = Some s' \<Longrightarrow> rt_step E s s'"
| bus: "rt_step E s (s\<lparr>rt_world := bus_exec (env_uuids E) x (rt_world s)\<rparr>)"

inductive reachable :: "env \<Rightarrow> runtime \<Rightarrow> bool" for E where
  init: "wf_bus b \<Longrightarrow> runtime_new E b = Inr s \<Longrightarrow> reachable E s"
| step: "reachable E s \<Longrightarrow> rt_step E s s' \<Longrightarrow> reachable E s'"

text \<open>What the code relies on from \<open>uuid4().hex\<close>: distinct values, none of them empty.\<close>

definition uuids_ok :: "env \<Rightarrow> bool" where
  "uuids_ok E \<longleftrightarrow> inj (env_uuids E) \<and> (\<forall>n. env_uuids E n \<noteq> [])"

subsection \<open>The parts of the invariant\<close>

abbreviation qids :: "runtime \<Rightarrow> string list" where
  "qids s \<equiv> map task_run_id (tq_items (rt_queue s))"

definition inv_objects :: "env \<Rightarrow> runtime \<Rightarrow> bool" where
  "inv_objects E s \<longleftrightarrow>
     (\<forall>rid r. rt_heap s rid = Some r \<longrightarrow> rr_id r = rid \<and> wf_run r)
     \<and> dom (rt_heap s) \<subseteq> env_uuids E ` {..<uuids_of s}"

definition inv_registry :: "runtime \<Rightarrow> bool" where
  "inv_registry s \<longleftrightarrow>
     distinct (rt_runs s)
     \<and> set (rt_runs s) \<subseteq> dom (rt_heap s)
     \<and> (\<forall>rid t. run_state_of s rid = Some t \<longrightarrow> \<not> terminal t \<longrightarrow> rid \<in> set (rt_runs s))
     \<and> fst ` set (rt_completion s) = set (rt_runs s)
     \<and> (\<forall>rid t. rid \<in> set (rt_runs s) \<longrightarrow> run_state_of s rid = Some t \<longrightarrow>
           dict_get (rt_completion s) rid = Some (terminal t))"

definition inv_idem :: "runtime \<Rightarrow> bool" where
  "inv_idem s \<longleftrightarrow>
     (\<forall>k rid. dict_get (rt_idem_by_run s) rid = Some k \<longleftrightarrow>
        (\<exists>p. dict_get (rt_idem s) k = Some (rid, p)))
     \<and> (\<forall>k rid i kd ss. dict_get (rt_idem s) k = Some (rid, i, kd, ss) \<longrightarrow>
          rid \<in> set (rt_runs s) \<and>
          (\<exists>r. rt_heap s rid = Some r \<and> rr_input r = i \<and> rr_kind r = kd \<and>
               (\<forall>sid. ss = Some sid \<longrightarrow> sid \<noteq> [] \<longrightarrow> rr_session_id r = sid)))"

definition inv_sched :: "runtime \<Rightarrow> bool" where
  "inv_sched s \<longleftrightarrow> sched (run_state_of s) (qids s) (rt_execs s)"

definition busy_count :: "worker list \<Rightarrow> nat" where
  "busy_count ws = length (filter (\<lambda>w. case wk_pc w of W_busy _ _ \<Rightarrow> True | _ \<Rightarrow> False) ws)"

definition inv_workers :: "env \<Rightarrow> runtime \<Rightarrow> bool" where
  "inv_workers E s \<longleftrightarrow>
     length (rt_workers s) \<le> nat (cf_max_concurrency (env_config E))
     \<and> (\<forall>i rid tid. i < length (rt_workers s) \<longrightarrow> wk_pc (rt_workers s ! i) = W_busy rid tid \<longrightarrow>
          tid < length (rt_execs s) \<and> et_run (rt_execs s ! tid) = rid)
     \<and> (\<forall>rid tid. dict_get (rt_tasks s) rid = Some tid \<longrightarrow>
          tid < length (rt_execs s) \<and> et_run (rt_execs s ! tid) = rid)"

text \<open>
  While the runtime is open every execution task has a worker waiting for it; once it is closed,
  the runs of the remaining tasks are cancelled and the remaining workers are being cancelled.
\<close>

definition inv_live :: "runtime \<Rightarrow> bool" where
  "inv_live s \<longleftrightarrow>
     (\<not> rt_closed s \<longrightarrow> (\<forall>tid. live (rt_execs s) tid \<longrightarrow>
          (\<exists>i < length (rt_workers s).
             wk_pc (rt_workers s ! i) = W_busy (et_run (rt_execs s ! tid)) tid)))
     \<and> (rt_closed s \<longrightarrow> (\<forall>tid. live (rt_execs s) tid \<longrightarrow>
          run_state_of s (et_run (rt_execs s ! tid)) = Some CANCELLED))
     \<and> (\<forall>w \<in> set (rt_workers s). wk_cancel w \<longrightarrow> rt_closed s)
     \<and> (rt_closed s \<longrightarrow> (\<forall>w \<in> set (rt_workers s). wk_cancel w \<or> wk_pc w = W_dead))
     \<and> (\<not> rt_started s \<and> \<not> rt_closed s \<longrightarrow> rt_workers s = [])"

definition inv_queue :: "env \<Rightarrow> runtime \<Rightarrow> bool" where
  "inv_queue E s \<longleftrightarrow> wf_queue (rt_queue s)
     \<and> tq_capacity (rt_queue s) = nat (cf_queue_capacity (env_config E))
     \<and> tq_unfinished (rt_queue s) = length (tq_items (rt_queue s)) + busy_count (rt_workers s)"

definition running_task :: "exec_task \<Rightarrow> bool" where
  "running_task x \<longleftrightarrow> exec_live x \<and> \<not> is_not_started (et_pc x)"

definition inv_world :: "runtime \<Rightarrow> bool" where
  "inv_world s \<longleftrightarrow> wf_bus (bus_of s) \<and> locks_free (rt_locks s) \<and> wf_sessions (rt_sessions s)
     \<and> active s = of_nat (length (filter running_task (rt_execs s)))"

definition inv_bound :: "env \<Rightarrow> runtime \<Rightarrow> bool" where
  "inv_bound E s \<longleftrightarrow> int (length (rt_runs s)) \<le> cf_max_run_records (env_config E)"

text \<open>
  \<open>rt_inv0\<close> holds at every point inside \<open>close\<close> too; \<open>rt_inv\<close> holds between steps.
\<close>

definition rt_inv0 :: "env \<Rightarrow> runtime \<Rightarrow> bool" where
  "rt_inv0 E s \<longleftrightarrow> inv_objects E s \<and> inv_registry s \<and> inv_idem s \<and> inv_sched s
     \<and> inv_workers E s \<and> inv_queue E s \<and> inv_world s \<and> inv_bound E s"

definition rt_inv :: "env \<Rightarrow> runtime \<Rightarrow> bool" where
  "rt_inv E s \<longleftrightarrow> rt_inv0 E s \<and> inv_live s"

lemmas rt_inv_defs = inv_objects_def inv_registry_def inv_idem_def inv_sched_def inv_workers_def
  inv_queue_def inv_world_def inv_bound_def

lemma rt_inv0I:
  "inv_objects E s \<Longrightarrow> inv_registry s \<Longrightarrow> inv_idem s \<Longrightarrow> inv_sched s \<Longrightarrow> inv_workers E s \<Longrightarrow>
   inv_queue E s \<Longrightarrow> inv_world s \<Longrightarrow> inv_bound E s \<Longrightarrow> rt_inv0 E s"
  by (simp add: rt_inv0_def)

lemma rt_inv0D:
  assumes "rt_inv0 E s"
  shows "inv_objects E s" "inv_registry s" "inv_idem s" "inv_sched s" "inv_workers E s"
    "inv_queue E s" "inv_world s" "inv_bound E s"
  using assms by (simp_all add: rt_inv0_def)

lemma rt_invD:
  assumes "rt_inv E s"
  shows "rt_inv0 E s" "inv_live s"
  using assms by (simp_all add: rt_inv_def)

lemma rt_inv_new:
  assumes "wf_bus b" and "runtime_new E b = Inr s"
  shows "rt_inv E s"
  using assms
  by (auto simp: runtime_new_def rt_inv_def rt_inv0_def rt_inv_defs inv_live_def run_state_of_def
      active_def live_def busy_count_def locks_free_def queue_new_def session_store_new_def
      wf_queue_def wf_sessions_def session_get_def
      split: sum.splits if_splits dest!: runtime_validateD(4) intro!: sched_empty)

subsection \<open>The schedule is what matters of a state\<close>

text \<open>Steps that change neither run states, queue, tasks nor workers keep the middle parts.\<close>

lemma inv_sched_cong:
  "run_state_of s' = run_state_of s \<Longrightarrow> rt_queue s' = rt_queue s \<Longrightarrow> rt_execs s' = rt_execs s \<Longrightarrow>
   inv_sched s' = inv_sched s"
  by (simp add: inv_sched_def)

lemma inv_workers_cong:
  "rt_workers s' = rt_workers s \<Longrightarrow> rt_execs s' = rt_execs s \<Longrightarrow> rt_tasks s' = rt_tasks s \<Longrightarrow>
   inv_workers E s' = inv_workers E s"
  by (simp add: inv_workers_def)

lemma inv_live_cong:
  "run_state_of s' = run_state_of s \<Longrightarrow> rt_workers s' = rt_workers s \<Longrightarrow>
   rt_execs s' = rt_execs s \<Longrightarrow> rt_closed s' = rt_closed s \<Longrightarrow>
   rt_started s' = rt_started s \<Longrightarrow> inv_live s' = inv_live s"
  by (simp add: inv_live_def)

lemma inv_queue_cong:
  "rt_queue s' = rt_queue s \<Longrightarrow> rt_workers s' = rt_workers s \<Longrightarrow> inv_queue E s' = inv_queue E s"
  by (simp add: inv_queue_def)

lemma inv_bound_cong: "rt_runs s' = rt_runs s \<Longrightarrow> inv_bound E s' = inv_bound E s"
  by (simp add: inv_bound_def)

lemma inv_idem_cong:
  assumes eq: "rt_idem s' = rt_idem s" "rt_idem_by_run s' = rt_idem_by_run s" "rt_runs s' = rt_runs s"
    and heap: "\<And>rid r. rt_heap s rid = Some r \<Longrightarrow> \<exists>r'. rt_heap s' rid = Some r'
      \<and> rr_input r' = rr_input r \<and> rr_kind r' = rr_kind r \<and> rr_session_id r' = rr_session_id r"
    and inv: "inv_idem s"
  shows "inv_idem s'"
  unfolding inv_idem_def eq
proof (intro conjI allI impI)
  fix k rid i kd ss assume k: "dict_get (rt_idem s) k = Some (rid, i, kd, ss)"
  obtain r where r: "rt_heap s rid = Some r" "rr_input r = i" "rr_kind r = kd"
    "\<forall>sid. ss = Some sid \<longrightarrow> sid \<noteq> [] \<longrightarrow> rr_session_id r = sid"
    using inv k unfolding inv_idem_def by blast
  obtain r' where "rt_heap s' rid = Some r'" "rr_input r' = rr_input r" "rr_kind r' = rr_kind r"
    "rr_session_id r' = rr_session_id r"
    using heap [OF r(1)] by blast
  with r show "\<exists>r. rt_heap s' rid = Some r \<and> rr_input r = i \<and> rr_kind r = kd \<and>
      (\<forall>sid. ss = Some sid \<longrightarrow> sid \<noteq> [] \<longrightarrow> rr_session_id r = sid)"
    by simp
  show "rid \<in> set (rt_runs s)" using inv k unfolding inv_idem_def by blast
next
  fix k rid
  show "dict_get (rt_idem_by_run s) rid = Some k \<longleftrightarrow> (\<exists>p. dict_get (rt_idem s) k = Some (rid, p))"
    using inv unfolding inv_idem_def by blast
qed

subsection \<open>Run objects\<close>

lemma wf_run_updates [simp]:
  "wf_run (r\<lparr>rr_output := x\<rparr>) = wf_run r"
  "wf_run (r\<lparr>rr_error := y\<rparr>) = wf_run r"
  "wf_run (r\<lparr>rr_steps := z\<rparr>) = wf_run r"
  "wf_run (r\<lparr>rr_cancel_requested := c\<rparr>) = wf_run r"
  by (simp_all add: wf_run_def)

lemma inv_objects_heap:
  assumes "inv_objects E s" and "uuids_of s \<le> uuids_of s'"
    and "\<And>rid r'. rt_heap s' rid = Some r' \<Longrightarrow>
      \<exists>r. rt_heap s rid = Some r \<and> rr_id r' = rr_id r \<and> (wf_run r \<longrightarrow> wf_run r')"
  shows "inv_objects E s'"
proof -
  have "dom (rt_heap s') \<subseteq> dom (rt_heap s)" using assms(3) by blast
  moreover have "env_uuids E ` {..<uuids_of s} \<subseteq> env_uuids E ` {..<uuids_of s'}"
    using assms(2) by auto
  moreover have wf: "rr_id r' = rid \<and> wf_run r'" if "rt_heap s' rid = Some r'" for rid r'
    using assms(3) [OF that] assms(1) by (auto simp: inv_objects_def)
  moreover have "dom (rt_heap s) \<subseteq> env_uuids E ` {..<uuids_of s}"
    using assms(1) by (simp add: inv_objects_def)
  ultimately have "dom (rt_heap s') \<subseteq> env_uuids E ` {..<uuids_of s'}"
    by order
  then show ?thesis
    using wf unfolding inv_objects_def by simp
qed

lemma objects_fsm_effect:
  assumes "inv_objects E s" and "go \<Longrightarrow> may_move s rid t"
  shows "inv_objects E (fsm_effect E now rid t rs go s)"
proof (rule inv_objects_heap [OF assms(1) fsm_effect_uuids])
  fix i r' assume "rt_heap (fsm_effect E now rid t rs go s) i = Some r'"
  then show "\<exists>r. rt_heap s i = Some r \<and> rr_id r' = rr_id r \<and> (wf_run r \<longrightarrow> wf_run r')"
    using assms(2)
    by (auto simp: fsm_effect_heap may_move_def run_state_of_def split: if_splits
        intro: wf_apply_record)
qed

lemma objects_map_run:
  assumes "inv_objects E s" and "\<And>r. rr_id (f r) = rr_id r"
    and "\<And>r. rt_heap s rid = Some r \<Longrightarrow> wf_run r \<Longrightarrow> wf_run (f r)"
  shows "inv_objects E (map_run rid f s)"
  using assms by (intro inv_objects_heap [OF assms(1)]) (auto split: if_splits)

lemma objects_world:
  "inv_objects E s \<Longrightarrow> rt_heap s' = rt_heap s \<Longrightarrow> uuids_of s \<le> uuids_of s' \<Longrightarrow> inv_objects E s'"
  by (rule inv_objects_heap) auto

lemma idem_fsm_effect: "inv_idem s \<Longrightarrow> inv_idem (fsm_effect E now rid t rs go s)"
  by (cases go) (rule inv_idem_cong [of _ s]; auto simp: fsm_effect_heap)+

lemma idem_map_run:
  "inv_idem s \<Longrightarrow> (\<And>r. rr_input (f r) = rr_input r \<and> rr_kind (f r) = rr_kind r
     \<and> rr_session_id (f r) = rr_session_id r) \<Longrightarrow> inv_idem (map_run rid f s)"
  by (rule inv_idem_cong [of _ s]) auto

subsection \<open>Worlds\<close>

lemma inv_world_cong:
  "wf_bus (bus_of s') \<Longrightarrow> rt_locks s' = rt_locks s \<Longrightarrow> rt_sessions s' = rt_sessions s \<Longrightarrow>
   rt_execs s' = rt_execs s \<Longrightarrow> active s' = active s \<Longrightarrow> inv_world s \<Longrightarrow> inv_world s'"
  by (simp add: inv_world_def)

lemma world_fsm_effect: "inv_world s \<Longrightarrow> inv_world (fsm_effect E now rid t rs go s)"
  by (simp add: inv_world_def fsm_effect_bus fsm_effect_locks)

lemma bus_exec_active [simp]: "active (s\<lparr>rt_world := bus_exec U x (rt_world s)\<rparr>) = active s"
proof -
  have "metric (w_metrics (bus_exec U x w)) ''runs_active'' = metric (w_metrics w) ''runs_active''"
    for w
    by (cases x) (auto simp: on_bus_def worker_done_def Let_def split: sum.splits option.splits if_splits)
  then show ?thesis by (simp add: active_def)
qed

lemma bus_exec_uuids: "w_uuids w \<le> w_uuids (bus_exec U x w)"
  by (cases x) (auto simp: on_bus_def worker_done_def Let_def split: sum.splits option.splits if_splits)

lemma rt_inv_bus: "rt_inv E s \<Longrightarrow> rt_inv E (s\<lparr>rt_world := bus_exec U x (rt_world s)\<rparr>)"
proof -
  let ?s = "s\<lparr>rt_world := bus_exec U x (rt_world s)\<rparr>"
  assume s: "rt_inv E s"
  note i = rt_inv0D [OF rt_invD(1) [OF s]] and l = rt_invD(2) [OF s]
  have "inv_objects E ?s" using i(1) by (rule objects_world) (simp_all add: bus_exec_uuids)
  moreover have "inv_registry ?s" using i(2) by (simp add: inv_registry_def)
  moreover have "inv_idem ?s" using i(3) by (rule inv_idem_cong [rotated -1]) auto
  moreover have "inv_sched ?s" using i(4) by (simp add: inv_sched_def)
  moreover have "inv_workers E ?s" using i(5) by (simp add: inv_workers_def)
  moreover have "inv_queue E ?s" using i(6) by (simp add: inv_queue_def)
  moreover have "inv_world ?s"
    using i(7) by (simp add: inv_world_def wf_bus_exec)
  moreover have "inv_bound E ?s" using i(8) by (simp add: inv_bound_def)
  moreover have "inv_live ?s" using l by (subst inv_live_cong [of _ s]) simp_all
  ultimately show ?thesis by (simp add: rt_inv_def rt_inv0_def)
qed

subsection \<open>One execution task and its run\<close>

text \<open>
  Inside a step of execution task \<open>tid\<close> the invariant holds up to the state \<open>t\<close> of the task's run
  and its completion flag \<open>f\<close>; \<open>adj\<close> is what the metric \<open>runs_active\<close> is ahead by.
\<close>

definition registry_but :: "string \<Rightarrow> bool \<Rightarrow> runtime \<Rightarrow> bool" where
  "registry_but rid f s \<longleftrightarrow>
     distinct (rt_runs s)
     \<and> set (rt_runs s) \<subseteq> dom (rt_heap s)
     \<and> (\<forall>i t. run_state_of s i = Some t \<longrightarrow> \<not> terminal t \<longrightarrow> i \<in> set (rt_runs s))
     \<and> fst ` set (rt_completion s) = set (rt_runs s)
     \<and> (\<forall>i t. i \<in> set (rt_runs s) \<longrightarrow> run_state_of s i = Some t \<longrightarrow> i \<noteq> rid \<longrightarrow>
           dict_get (rt_completion s) i = Some (terminal t))
     \<and> (rid \<in> set (rt_runs s) \<longrightarrow> dict_get (rt_completion s) rid = Some f)"

lemma registry_but_iff:
  assumes "run_state_of s rid = Some t"
  shows "registry_but rid (terminal t) s \<longleftrightarrow> inv_registry s"
proof -
  have "(\<forall>i u. i \<in> R \<longrightarrow> run_state_of s i = Some u \<longrightarrow> i \<noteq> rid \<longrightarrow> P i u) \<and> (rid \<in> R \<longrightarrow> P rid t)
      \<longleftrightarrow> (\<forall>i u. i \<in> R \<longrightarrow> run_state_of s i = Some u \<longrightarrow> P i u)" for R P
    using assms by (metis option.inject)
  from this [of "set (rt_runs s)" "\<lambda>i u. dict_get (rt_completion s) i = Some (terminal u)"]
  show ?thesis unfolding registry_but_def inv_registry_def by argo
qed

definition exec_mid :: "env \<Rightarrow> nat \<Rightarrow> run_state \<Rightarrow> bool \<Rightarrow> pyfloat \<Rightarrow> runtime \<Rightarrow> bool" where
  "exec_mid E tid t f adj s \<longleftrightarrow>
     inv_objects E s \<and> registry_but (exec_run s tid) f s \<and> inv_idem s
     \<and> (\<exists>\<sigma>. sched \<sigma> (qids s) (rt_execs s) \<and> run_state_of s = \<sigma>(exec_run s tid \<mapsto> t))
     \<and> live (rt_execs s) tid \<and> t \<noteq> CREATED
     \<and> inv_workers E s \<and> inv_queue E s \<and> inv_bound E s \<and> inv_live s
     \<and> wf_bus (bus_of s) \<and> locks_free (rt_locks s) \<and> wf_sessions (rt_sessions s)
     \<and> active s = of_nat (length (filter running_task (rt_execs s))) + adj"

lemma exec_midD:
  assumes "exec_mid E tid t f adj s"
  shows "inv_objects E s" "registry_but (exec_run s tid) f s" "inv_idem s"
    "\<exists>\<sigma>. sched \<sigma> (qids s) (rt_execs s) \<and> run_state_of s = \<sigma>(exec_run s tid \<mapsto> t)"
    "live (rt_execs s) tid" "t \<noteq> CREATED" "inv_workers E s" "inv_queue E s" "inv_bound E s"
    "inv_live s" "wf_bus (bus_of s)" "locks_free (rt_locks s)" "wf_sessions (rt_sessions s)"
    "active s = of_nat (length (filter running_task (rt_execs s))) + adj"
  using assms unfolding exec_mid_def by blast+

lemma exec_mid_state: "exec_mid E tid t f adj s \<Longrightarrow> run_state_of s (exec_run s tid) = Some t"
  using exec_midD(4) by fastforce

lemma exec_midI:
  assumes s: "rt_inv E s" and l: "live (rt_execs s) tid"
  obtains t where "exec_mid E tid t (terminal t) 0 s" "t \<in> pc_states (et_pc (rt_execs s ! tid))"
    "run_state_of s (exec_run s tid) = Some t" "t \<in> {READY, RUNNING, WAITING, CANCELLED}"
proof -
  note i = rt_inv0D [OF rt_invD(1) [OF s]]
  have sch: "sched (run_state_of s) (qids s) (rt_execs s)" using i(4) by (simp add: inv_sched_def)
  obtain t where t: "run_state_of s (exec_run s tid) = Some t"
    "t \<in> pc_states (et_pc (rt_execs s ! tid))" "t \<in> {READY, RUNNING, WAITING, CANCELLED}"
    using live_states [OF sch l] by blast
  have "run_state_of s = (run_state_of s)(exec_run s tid \<mapsto> t)" using t(1) by (simp add: fun_upd_idem)
  then have "\<exists>\<sigma>. sched \<sigma> (qids s) (rt_execs s) \<and> run_state_of s = \<sigma>(exec_run s tid \<mapsto> t)"
    using sch by blast
  then have "exec_mid E tid t (terminal t) 0 s"
    using i l t rt_invD(2) [OF s] by (auto simp: exec_mid_def registry_but_iff inv_world_def)
  then show ?thesis using that t by blast
qed

text \<open>Changes that concern neither the schedule nor the registry.\<close>

lemma exec_mid_cong:
  assumes m: "exec_mid E tid t f adj s" and o: "inv_objects E s'" and i: "inv_idem s'"
    and eq: "run_state_of s' = run_state_of s" "rt_runs s' = rt_runs s"
      "rt_completion s' = rt_completion s" "rt_queue s' = rt_queue s" "rt_workers s' = rt_workers s"
      "rt_tasks s' = rt_tasks s" "rt_execs s' = rt_execs s" "rt_started s' = rt_started s"
      "rt_closed s' = rt_closed s"
    and w: "wf_bus (bus_of s')" "locks_free (rt_locks s')" "wf_sessions (rt_sessions s')"
      "active s' = active s + d"
  shows "exec_mid E tid t f (adj + d) s'"
proof -
  note h = exec_midD [OF m]
  have "dom (rt_heap s') = dom (rt_heap s)"
    using dom_map_option_comp [of rr_state "rt_heap s'"] dom_map_option_comp [of rr_state "rt_heap s"]
      eq(1) by (simp add: run_state_of_def [abs_def] comp_def)
  then have "registry_but (exec_run s' tid) f s'"
    using h(2) by (simp add: registry_but_def eq)
  moreover have "inv_workers E s'" using h(7) by (simp add: inv_workers_cong [of s' s] eq)
  moreover have "inv_queue E s'" using h(8) by (simp add: inv_queue_cong [of s' s] eq)
  moreover have "inv_bound E s'" using h(9) by (simp add: inv_bound_cong [of s' s] eq)
  moreover have "inv_live s'" using h(10) by (simp add: inv_live_cong [of s' s] eq)
  ultimately show ?thesis
    using h(4-6) h(14) o i w unfolding exec_mid_def eq by simp
qed

lemma exec_mid_incr:
  "exec_mid E tid t f adj s \<Longrightarrow>
   exec_mid E tid t f (adj + (if k = ''runs_active'' then v else 0)) (incr k v s)"
  by (rule exec_mid_cong, assumption)
    (auto dest: exec_midD intro: objects_world [of _ s] inv_idem_cong [of _ s])

lemma exec_mid_gauge:
  "exec_mid E tid t f adj s \<Longrightarrow> k \<noteq> ''runs_active'' \<Longrightarrow> exec_mid E tid t f adj (set_gauge k v s)"
  by (rule exec_mid_cong [where d = 0, simplified], assumption)
    (auto dest: exec_midD intro: objects_world [of _ s] inv_idem_cong [of _ s])

lemma exec_mid_emit:
  "exec_mid E tid t f adj s \<Longrightarrow> exec_mid E tid t f adj (emit_run E' now tp rid p s)"
  by (rule exec_mid_cong [where d = 0, simplified], assumption)
    (auto dest: exec_midD intro: objects_world [of _ s] inv_idem_cong [of _ s] emit_run_uuids
      emit_run_bus)

lemma exec_mid_map_run:
  assumes m: "exec_mid E tid t f adj s"
    and "\<And>r. rr_id (g r) = rr_id r \<and> rr_input (g r) = rr_input r \<and> rr_kind (g r) = rr_kind r
       \<and> rr_session_id (g r) = rr_session_id r \<and> rr_state (g r) = rr_state r
       \<and> (wf_run r \<longrightarrow> wf_run (g r))"
  shows "exec_mid E tid t f adj (map_run rid g s)"
  by (rule exec_mid_cong [where d = 0, simplified, OF m])
    (use exec_midD [OF m] assms(2) in \<open>auto intro: objects_map_run idem_map_run\<close>)

lemma exec_mid_sessions:
  assumes m: "exec_mid E tid t f adj s" and "wf_sessions ss"
  shows "exec_mid E tid t f adj (s\<lparr>rt_sessions := ss\<rparr>)"
  by (rule exec_mid_cong [where d = 0, simplified, OF m])
    (use exec_midD [OF m] assms(2) in
      \<open>auto intro: objects_world [of _ s] inv_idem_cong [of _ s]\<close>)

text \<open>A transition of the task's run.\<close>

lemma exec_mid_fsm:
  assumes m: "exec_mid E tid t f adj s" and go: "go \<Longrightarrow> can_transition t u \<and> t \<noteq> FAILED"
    and rid: "rid = exec_run s tid"
  shows "exec_mid E tid (if go then u else t) f adj (fsm_effect E now rid u rs go s)"
proof (cases go)
  case False
  then show ?thesis
    by (simp, intro exec_mid_cong [where d = 0, simplified, OF m])
      (use exec_midD [OF m] in \<open>auto intro: objects_fsm_effect idem_fsm_effect fsm_effect_bus
        fsm_effect_locks\<close>)
next
  case True
  let ?s = "fsm_effect E now rid u rs True s"
  note h = exec_midD [OF m]
  have st: "run_state_of s rid = Some t" using exec_mid_state [OF m] rid by simp
  have ct: "can_transition t u" using go True by simp
  have nt: "\<not> terminal t" using ct terminal_exit go True by blast
  have u: "u \<noteq> CREATED" using ct by (cases t) (auto simp: legal_simps)
  have "inv_objects E ?s"
    using ct by (intro objects_fsm_effect h) (simp add: may_move_def st)
  moreover have "registry_but (exec_run ?s tid) f ?s"
  proof -
    have "rid \<in> set (rt_runs s)" using h(2) st nt by (auto simp: registry_but_def)
    moreover have "dom (rt_heap ?s) = dom (rt_heap s)"
      by (auto simp: fsm_effect_heap split: if_splits)
    ultimately show ?thesis using h(2) rid st by (auto simp: registry_but_def)
  qed
  moreover have "\<exists>\<sigma>. sched \<sigma> (qids ?s) (rt_execs ?s) \<and> run_state_of ?s = \<sigma>(exec_run ?s tid \<mapsto> u)"
    using h(4) st rid by fastforce
  moreover have "inv_live ?s"
  proof -
    have "\<not> rt_closed s"
      using h(10) h(5) st rid nt unfolding inv_live_def by fastforce
    then show ?thesis using h(10) unfolding inv_live_def by simp
  qed
  ultimately show ?thesis
    using True h(5) h(7-9) h(11-14) u idem_fsm_effect [OF h(3)]
    by (simp add: exec_mid_def fsm_effect_bus fsm_effect_locks inv_workers_cong [of ?s s]
        inv_queue_cong [of ?s s] inv_bound_cong [of ?s s])
qed

subsection \<open>Ending a step of an execution task\<close>

lemma running_count:
  "tid < length xs \<Longrightarrow>
   length (filter running_task (xs[tid := x])) + (if running_task (xs ! tid) then 1 else 0) =
   length (filter running_task xs) + (if running_task x then 1 else 0)"
proof (induction xs arbitrary: tid)
  case (Cons a xs)
  then show ?case using Cons.IH [of "tid - 1"] by (cases tid) (auto split: if_splits)
qed simp

lemma inv_workers_exec:
  assumes "inv_workers E s" and "tid < length (rt_execs s)" and "et_run x = exec_run s tid"
    and "rt_workers s' = rt_workers s" "rt_tasks s' = rt_tasks s"
    and "rt_execs s' = (rt_execs s)[tid := x]"
  shows "inv_workers E s'"
proof -
  have "et_run (rt_execs s' ! j) = et_run (rt_execs s ! j)" for j
    using assms by (cases "j = tid") auto
  then show ?thesis using assms unfolding inv_workers_def by simp
qed

lemma inv_live_exec:
  assumes "inv_live s" and l: "live (rt_execs s) tid" and "et_run x = exec_run s tid"
    and "run_state_of s' = run_state_of s"
    and "rt_workers s' = rt_workers s" "rt_closed s' = rt_closed s" "rt_started s' = rt_started s"
    and "rt_execs s' = (rt_execs s)[tid := x]"
  shows "inv_live s'"
proof -
  have run: "et_run (rt_execs s' ! j) = et_run (rt_execs s ! j)" for j
    using assms by (cases "j = tid") auto
  have lv: "live (rt_execs s') j \<Longrightarrow> live (rt_execs s) j" for j
    using assms(8) l live_less [OF l] by (auto simp: live_update split: if_splits)
  then show ?thesis using assms(1) unfolding inv_live_def assms(4-7) run by blast
qed

lemma exec_mid_set_exec:
  assumes m: "exec_mid E tid t (terminal t) adj s"
    and x: "exec_live x" "et_run x = exec_run s tid" "et_cancel x = et_cancel (rt_execs s ! tid)"
    and pc: "t \<in> pc_states (et_pc x)"
    and adj: "adj = (if running_task x then 1 else 0)
                  - (if running_task (rt_execs s ! tid) then 1 else 0)"
    and cn: "et_cancel x \<longrightarrow> t = CANCELLED"
  shows "rt_inv E (s\<lparr>rt_execs := (rt_execs s)[tid := x]\<rparr>)" (is "rt_inv E ?s")
proof -
  note h = exec_midD [OF m]
  have tid: "tid < length (rt_execs s)" using h(5) by simp
  obtain \<sigma> where \<sigma>: "sched \<sigma> (qids s) (rt_execs s)" "run_state_of s = \<sigma>(exec_run s tid \<mapsto> t)"
    using h(4) by blast
  have "inv_sched ?s"
    using sched_advance [OF \<sigma>(1) h(5) x(2,3,1) pc h(6) cn] \<sigma>(2) by (simp add: inv_sched_def)
  moreover have "inv_objects E ?s" using h(1) by (rule objects_world) simp_all
  moreover have "inv_registry ?s"
    using h(2) registry_but_iff [OF exec_mid_state [OF m]] by (simp add: inv_registry_def)
  moreover have "inv_idem ?s" using h(3) by (simp add: inv_idem_def)
  moreover have "inv_workers E ?s" using h(7) tid x(2) by (rule inv_workers_exec) simp_all
  moreover have "inv_live ?s" using h(10) h(5) x(2) by (rule inv_live_exec) simp_all
  moreover have "inv_queue E ?s" using h(8) by (simp add: inv_queue_def)
  moreover have "inv_bound E ?s" using h(9) by (simp add: inv_bound_def)
  moreover have "inv_world ?s"
    using h(11-14) adj arg_cong [OF running_count [OF tid, of x], of "of_nat :: nat \<Rightarrow> rat"]
    by (simp add: inv_world_def split: if_splits)
  ultimately show ?thesis by (simp add: rt_inv_def rt_inv0_def)
qed

lemma exec_mid_finally:
  assumes m: "exec_mid E tid t f adj s" and t: "terminal t"
    and adj: "adj = (if running_task (rt_execs s ! tid) then 0 else 1)"
  shows "rt_inv E (exec_finally tid s)"
proof -
  let ?rid = "exec_run s tid"
  let ?x = "\<lambda>r. (rt_execs s ! tid)\<lparr>et_pc := Exec_done r\<rparr>"
  note h = exec_midD [OF m]
  have tid: "tid < length (rt_execs s)" using h(5) by simp
  have st: "run_state_of s ?rid = Some t" using exec_mid_state [OF m] .
  obtain \<sigma> where \<sigma>: "sched \<sigma> (qids s) (rt_execs s)" "run_state_of s = \<sigma>(?rid \<mapsto> t)"
    using h(4) by blast
  define c where "c = (if ?rid \<in> set (rt_runs s) then dict_set ?rid True (rt_completion s)
                       else rt_completion s)"
  have fin: "\<exists>r. rt_execs (exec_finally tid s) = (rt_execs s)[tid := ?x r]
      \<and> rt_completion (exec_finally tid s) = c"
    using st t h(2)
    by (auto simp: exec_finally_def Let_def completion_put_eq registry_but_def c_def)
  then obtain r where x: "rt_execs (exec_finally tid s) = (rt_execs s)[tid := ?x r]"
    and c: "rt_completion (exec_finally tid s) = c" by blast
  have same: "rt_heap (exec_finally tid s) = rt_heap s" "rt_runs (exec_finally tid s) = rt_runs s"
    "rt_idem (exec_finally tid s) = rt_idem s"
    "rt_idem_by_run (exec_finally tid s) = rt_idem_by_run s"
    "rt_queue (exec_finally tid s) = rt_queue s" "rt_workers (exec_finally tid s) = rt_workers s"
    "rt_tasks (exec_finally tid s) = rt_tasks s" "rt_locks (exec_finally tid s) = rt_locks s"
    "rt_sessions (exec_finally tid s) = rt_sessions s"
    "rt_started (exec_finally tid s) = rt_started s" "rt_closed (exec_finally tid s) = rt_closed s"
    "bus_of (exec_finally tid s) = bus_of s" "uuids_of (exec_finally tid s) = uuids_of s"
    "active (exec_finally tid s) = active s - 1"
    by (auto simp: exec_finally_def Let_def completion_put_eq split: option.splits)
  have state: "run_state_of (exec_finally tid s) = run_state_of s"
    by (rule state_heap_cong) (rule same)
  have dead: "\<not> exec_live (?x r)" by (simp add: exec_live_def)
  have "inv_sched (exec_finally tid s)"
    using sched_end [OF \<sigma>(1) h(5) dead t] \<sigma>(2) by (simp add: inv_sched_def state same x)
  moreover have "inv_objects E (exec_finally tid s)"
    using h(1) by (rule objects_world) (simp_all add: same)
  moreover have "inv_registry (exec_finally tid s)"
    using h(2) st t by (auto simp: inv_registry_def registry_but_def state same c c_def)
  moreover have "inv_idem (exec_finally tid s)" using h(3) by (simp add: inv_idem_def same)
  moreover have "inv_workers E (exec_finally tid s)"
    using h(7) tid by (rule inv_workers_exec [where x = "?x r"]) (simp_all add: same x)
  moreover have "inv_live (exec_finally tid s)"
    using h(10) h(5) by (rule inv_live_exec [where x = "?x r"]) (simp_all add: same x state)
  moreover have "inv_queue E (exec_finally tid s)" using h(8) by (simp add: inv_queue_def same)
  moreover have "inv_bound E (exec_finally tid s)" using h(9) by (simp add: inv_bound_def same)
  moreover have "inv_world (exec_finally tid s)"
    using h(11-14) adj arg_cong [OF running_count [OF tid, of "?x r"], of "of_nat :: nat \<Rightarrow> rat"] dead
    by (simp add: inv_world_def same x running_task_def split: if_splits)
  ultimately show ?thesis by (simp add: rt_inv_def rt_inv0_def)
qed

end
