(* ===== verification/Runtime_Preservation.thy ===== *)
theory Runtime_Preservation
  imports Runtime_Invariant
begin

section \<open>Every step of the runtime preserves the invariant\<close>

text \<open>
  One lemma per operation of \<open>Runtime\<close>: the steps of an execution task, the steps of a worker,
  cancelling, retrying, closing, reclaiming and submitting. The last lemma collects them by rule
  induction over the reachable states.
\<close>

subsection \<open>Steps of an execution task\<close>

lemma may_move_mid:
  "exec_mid E tid t f adj s \<Longrightarrow> may_move s (exec_run s tid) u = can_transition t u"
  by (simp add: may_move_def exec_mid_state)

lemma exec_mid_if_allowed:
  assumes m: "exec_mid E tid t f adj s" and t: "t \<noteq> FAILED"
  shows "exec_mid E tid (if can_transition t u then u else t) f adj
           (snd (fsm_if_allowed E now (exec_run s tid) u rs s))"
  using exec_mid_fsm [OF m, of "may_move s (exec_run s tid) u" u, OF _ refl] may_move_mid [OF m] t
  by (simp add: fsm_if_allowed_eq)

lemma execs_if_allowed [simp]: "rt_execs (snd (fsm_if_allowed E now rid u rs s)) = rt_execs s"
  by (simp add: fsm_if_allowed_eq)

lemma exec_fail_inv:
  assumes m: "exec_mid E tid t f adj s" and t: "t \<in> {RUNNING, WAITING, CANCELLED}"
    and adj: "adj = (if running_task (rt_execs s ! tid) then 0 else 1)"
  shows "rt_inv E (exec_fail E now tid e s)"
proof (cases "e = CancelledError")
  case True
  have "rt_inv E (exec_finally tid
      (snd (fsm_if_allowed E now (exec_run s tid) CANCELLED ''task cancelled'' s)))"
  proof (rule exec_mid_finally)
    show "exec_mid E tid (if can_transition t CANCELLED then CANCELLED else t) f adj
        (snd (fsm_if_allowed E now (exec_run s tid) CANCELLED ''task cancelled'' s))"
      using t by (intro exec_mid_if_allowed [OF m]) auto
    show "terminal (if can_transition t CANCELLED then CANCELLED else t)"
      by (simp add: can_cancel)
    show "adj = (if running_task (rt_execs (snd (fsm_if_allowed E now (exec_run s tid) CANCELLED
        ''task cancelled'' s)) ! tid) then 0 else 1)"
      using adj by simp
  qed
  then show ?thesis using True by (simp add: exec_fail_def Let_def)
next
  case False
  let ?rid = "exec_run s tid"
  let ?err = "class_name e @ '': '' @ exn_str e"
  let ?s1 = "map_run ?rid (\<lambda>r. r\<lparr>rr_error := Some ?err\<rparr>) s"
  let ?s2 = "snd (fsm_if_allowed E now ?rid FAILED ''execution error'' ?s1)"
  let ?u = "if can_transition t FAILED then FAILED else t"
  let ?go = "fst (fsm_if_allowed E now ?rid FAILED ''execution error'' ?s1)"
  let ?s3 = "if ?go then incr ''runs_failed_total'' 1 ?s2 else ?s2"
  let ?s4 = "emit_run E now ''run.error'' ?rid (\<lambda>r. [(''error'', PStr ?err)]) ?s3"
  have "exec_mid E tid t f adj ?s1" by (rule exec_mid_map_run [OF m]) simp
  then have "exec_mid E tid ?u f adj ?s2"
    using exec_mid_if_allowed [of E tid t f adj ?s1 FAILED now "''execution error''"] t by auto
  then have "exec_mid E tid ?u f adj ?s3"
    using exec_mid_incr [of E tid ?u f adj ?s2 "''runs_failed_total''" 1] by auto
  then have m4: "exec_mid E tid ?u f adj ?s4" by (rule exec_mid_emit)
  have "rt_inv E (exec_finally tid ?s4)"
    by (rule exec_mid_finally [OF m4]) (use t adj in \<open>auto simp: legal_simps\<close>)
  moreover have "exec_fail E now tid e s = exec_finally tid ?s4"
    unfolding exec_fail_def Let_def if_not_P [OF False] by (simp add: case_prod_beta)
  ultimately show ?thesis by argo
qed

lemma exec_at_live:
  "exec_at s tid = Some pc \<Longrightarrow> (\<forall>r. pc \<noteq> Exec_done r) \<Longrightarrow>
   live (rt_execs s) tid \<and> et_pc (rt_execs s ! tid) = pc"
  by (auto simp: exec_at_def live_pc split: if_splits)

lemma running_task_pc:
  "tid < length xs \<Longrightarrow>
   running_task (xs ! tid) \<longleftrightarrow> live xs tid \<and> et_pc (xs ! tid) \<noteq> Not_started"
  by (auto simp: running_task_def live_def)

lemma cancel_flag:
  assumes "rt_inv E s" and "live (rt_execs s) tid" and "et_cancel (rt_execs s ! tid)"
  shows "run_state_of s (exec_run s tid) = Some CANCELLED"
  using sched_cancel [of "run_state_of s" "qids s" "rt_execs s" tid] assms
    rt_inv0D(4) [OF rt_invD(1)] by (auto simp: inv_sched_def)

text \<open>Going on to another point of the task with the run in state \<open>t\<close>.\<close>

lemma exec_step_set:
  assumes m: "exec_mid E tid t (terminal t) 0 s"
    and l: "et_pc (rt_execs s ! tid) \<noteq> Not_started"
    and pc: "t \<in> pc_states pc" "\<forall>r. pc \<noteq> Exec_done r" "pc \<noteq> Not_started"
    and cn: "et_cancel (rt_execs s ! tid) \<Longrightarrow> t = CANCELLED"
  shows "rt_inv E (set_exec tid pc s)"
proof -
  have lv: "live (rt_execs s) tid" using exec_midD(5) [OF m] .
  have x: "exec_live ((rt_execs s ! tid)\<lparr>et_pc := pc\<rparr>)"
    using pc(2) by (simp add: exec_live_def split: exec_pc.split)
  show ?thesis
    unfolding set_exec_def
    by (rule exec_mid_set_exec [OF m])
      (use x pc cn lv l in \<open>auto simp: running_task_def live_def\<close>)
qed

lemma exec_start_inv [inv_intros]:
  assumes s: "rt_inv E s" and r: "exec_start E now tid s = Some s'"
  shows "rt_inv E s'"
proof -
  let ?rid = "exec_run s tid"
  have at: "exec_at s tid = Some Not_started" and nc: "\<not> et_cancel (rt_execs s ! tid)"
    using r by (auto simp: exec_start_def split: if_splits option.splits)
  then have l: "live (rt_execs s) tid" and pc: "et_pc (rt_execs s ! tid) = Not_started"
    using exec_at_live [OF at] by simp_all
  obtain t where m: "exec_mid E tid t (terminal t) 0 s" and t: "t \<in> {READY, CANCELLED}"
    using exec_midI [OF s l] pc by (metis pc_states.simps(1))
  define s1 where "s1 = set_gauge ''runtime_concurrency_limit''
      (of_int (cf_max_concurrency (env_config E))) (incr ''runs_active'' 1 s)"
  have m1: "exec_mid E tid t (terminal t) 1 s1"
    using exec_mid_gauge [OF exec_mid_incr [OF m, of "''runs_active''" 1]] by (simp add: s1_def)
  have x1: "rt_execs s1 = rt_execs s" by (simp add: s1_def)
  have idle: "\<not> running_task (rt_execs s ! tid)" by (simp add: running_task_def pc)
  show ?thesis
  proof (cases "t = CANCELLED")
    case True
    then have "s' = exec_finally tid s1"
      using r at nc exec_mid_state [OF m1]
      by (simp add: exec_start_def Let_def s1_def [symmetric] x1)
    then show ?thesis
      using exec_mid_finally [OF m1] True idle by (simp add: x1)
  next
    case False
    then have ready: "t = READY" using t by simp
    define s2 where "s2 = fsm_effect E now ?rid RUNNING ''worker acquired'' True s1"
    have m2: "exec_mid E tid RUNNING False 1 s2"
      using exec_mid_fsm [OF m1, of True RUNNING ?rid now "''worker acquired''"] ready
      by (simp add: s2_def x1 legal_simps)
    have x2: "rt_execs s2 = rt_execs s" by (simp add: s2_def x1)
    have mv: "may_move s1 ?rid RUNNING"
      using may_move_mid [OF m1, of RUNNING] ready by (simp add: x1 legal_simps)
    have st: "run_state_of s1 ?rid = Some READY" using exec_mid_state [OF m1] ready x1 by simp
    have "s' = s2\<lparr>rt_execs := (rt_execs s2)[tid := (rt_execs s2 ! tid)\<lparr>et_pc :=
             Driving (pattern_run (env_codec E) (rr_kind run) (exec_context E run s2)),
             et_began := now\<rparr>]\<rparr>"
      if "rt_heap s2 ?rid = Some run" for run
      using r at nc st mv that exec_midD(5) [OF m2]
      by (simp add: exec_start_def Let_def s1_def [symmetric] fsm_transition_eq s2_def [symmetric]
          legal_simps set_exec_def x2)
    moreover obtain run where "rt_heap s2 ?rid = Some run"
      using exec_mid_state [OF m2] by (auto simp: x2 run_state_of_def)
    ultimately show ?thesis
      by (simp, intro exec_mid_set_exec [where t = RUNNING and adj = 1])
        (use m2 nc idle in \<open>auto simp: x2 exec_live_def running_task_def\<close>)
  qed
qed

lemma exec_mid_to_waiting:
  assumes m: "exec_mid E tid t (terminal t) 0 s" and t: "t \<in> {RUNNING, CANCELLED}"
  shows "fsm_transition E now (exec_run s tid) WAITING rs s =
      (if t = RUNNING then Inr () else Inl (InvalidStateTransition (illegal_message t WAITING)),
       fsm_effect E now (exec_run s tid) WAITING rs (t = RUNNING) s)"
    and "exec_mid E tid (if t = RUNNING then WAITING else t) (terminal t) 0
      (fsm_effect E now (exec_run s tid) WAITING rs (t = RUNNING) s)"
proof -
  show "fsm_transition E now (exec_run s tid) WAITING rs s =
      (if t = RUNNING then Inr () else Inl (InvalidStateTransition (illegal_message t WAITING)),
       fsm_effect E now (exec_run s tid) WAITING rs (t = RUNNING) s)"
    using t by (auto simp: fsm_transition_eq exec_mid_state [OF m] may_move_mid [OF m] legal_simps)
  show "exec_mid E tid (if t = RUNNING then WAITING else t) (terminal t) 0
      (fsm_effect E now (exec_run s tid) WAITING rs (t = RUNNING) s)"
    by (rule exec_mid_fsm [OF m]) (auto simp: legal_simps)
qed

lemma exec_drive_inv [inv_intros]:
  assumes s: "rt_inv E s" and r: "exec_drive E now tid s = Some s'"
  shows "rt_inv E s'"
proof -
  obtain coro where at: "exec_at s tid = Some (Driving coro)"
    using r by (auto simp: exec_drive_defs split: option.splits exec_pc.splits)
  then have l: "live (rt_execs s) tid" and pc: "et_pc (rt_execs s ! tid) = Driving coro"
    using exec_at_live [OF at] by simp_all
  obtain t where m: "exec_mid E tid t (terminal t) 0 s" and t: "t \<in> {RUNNING, CANCELLED}"
    and st: "run_state_of s (exec_run s tid) = Some t"
    using exec_midI [OF s l] pc by (metis pc_states.simps(2))
  have cn: "et_cancel (rt_execs s ! tid) \<Longrightarrow> t = CANCELLED"
    using cancel_flag [OF s l] st by simp
  have wait: "rt_inv E (set_exec tid pc' (emit_run E now tp (exec_run s tid) p
        (fsm_effect E now (exec_run s tid) WAITING rs (t = RUNNING) s)))"
    if "t = RUNNING" "WAITING \<in> pc_states pc'" "\<forall>r. pc' \<noteq> Exec_done r" "pc' \<noteq> Not_started"
    for pc' tp p rs
    by (rule exec_step_set [where t = WAITING, OF exec_mid_emit])
      (use that exec_mid_to_waiting(2) [OF m t, of now rs] pc cn in auto)
  have refuse: "rt_inv E (set_exec tid (Pattern_done x)
        (fsm_effect E now (exec_run s tid) WAITING rs (t = RUNNING) s))"
    if "t = CANCELLED" for x rs
    by (rule exec_step_set [where t = CANCELLED])
      (use that exec_mid_to_waiting(2) [OF m t, of now rs] pc in auto)
  show ?thesis
  proof (cases coro)
    case (Complete req st k)
    then show ?thesis
      using r at t wait refuse by (auto simp: exec_drive_defs Let_def exec_mid_to_waiting(1) [OF m t])
  next
    case (Execute_tool n a st k)
    then show ?thesis
      using r at t wait refuse by (auto simp: exec_drive_defs Let_def exec_mid_to_waiting(1) [OF m t])
  qed (use r at m pc t cn in \<open>auto simp: exec_drive_defs Let_def intro!: exec_step_set\<close>)
qed

text \<open>The awaited call has returned, and the pattern may continue.\<close>

lemma exec_mid_back:
  assumes m: "exec_mid E tid t (terminal t) 0 s" and t: "t \<in> {WAITING, CANCELLED}"
  shows "back_to_running E now (exec_run s tid) rs s =
      (Inr (t = WAITING), fsm_effect E now (exec_run s tid) RUNNING rs (t = WAITING) s)"
    and "exec_mid E tid (if t = WAITING then RUNNING else t) (terminal t) 0
      (fsm_effect E now (exec_run s tid) RUNNING rs (t = WAITING) s)"
proof -
  show "back_to_running E now (exec_run s tid) rs s =
      (Inr (t = WAITING), fsm_effect E now (exec_run s tid) RUNNING rs (t = WAITING) s)"
    by (simp add: back_to_running_def fsm_if_current_eq legal_simps exec_mid_state [OF m])
  show "exec_mid E tid (if t = WAITING then RUNNING else t) (terminal t) 0
      (fsm_effect E now (exec_run s tid) RUNNING rs (t = WAITING) s)"
    by (rule exec_mid_fsm [OF m]) (auto simp: legal_simps)
qed

lemma exec_resume_inv:
  assumes m: "exec_mid E tid t (terminal t) 0 s" and t: "t \<in> {WAITING, CANCELLED}"
    and l: "et_pc (rt_execs s ! tid) \<noteq> Not_started"
    and cn: "et_cancel (rt_execs s ! tid) \<Longrightarrow> t = CANCELLED"
  shows "rt_inv E (exec_resume E now tid next s)"
proof -
  let ?t = "if t = WAITING then RUNNING else t"
  have "rt_inv E (set_exec tid pc (fsm_effect E now (exec_run s tid) RUNNING rs (t = WAITING) s))"
    if "?t \<in> pc_states pc" "\<forall>r. pc \<noteq> Exec_done r" "pc \<noteq> Not_started" for pc rs
    by (rule exec_step_set [where t = ?t])
      (use that exec_mid_back(2) [OF m t, of now rs] l cn t in auto)
  then show ?thesis
    using t by (auto simp: exec_resume_def Let_def exec_mid_back(1) [OF m t] split: sum.split)
qed

lemma exec_mid_add_step:
  "exec_mid E tid t f adj s \<Longrightarrow> exec_mid E tid t f adj (add_step rid entry s)"
  unfolding add_step_def by (rule exec_mid_map_run) simp_all

lemma add_step_execs [simp]: "rt_execs (add_step rid entry s) = rt_execs s"
  by (simp add: add_step_def)

lemma pc_states_done:
  assumes "pc_states pc = {u, CANCELLED}"
  shows "\<forall>r. pc \<noteq> Exec_done r"
proof (intro allI notI)
  fix r assume "pc = Exec_done r"
  then have "CREATED \<in> {u, CANCELLED}" "READY \<in> {u, CANCELLED}" using assms by auto
  then show False by simp
qed

lemma waiting_inv:
  assumes s: "rt_inv E s" and at: "exec_at s tid = Some pc" and pc: "pc_states pc = {WAITING, CANCELLED}"
  shows "rt_inv E (exec_resume E now tid next s)"
    and "rt_inv E (exec_resume E now tid next (add_step rid entry s))"
proof -
  have "READY \<notin> pc_states pc" unfolding pc by simp
  then have ns: "pc \<noteq> Not_started" by auto
  have l: "live (rt_execs s) tid" and pc': "et_pc (rt_execs s ! tid) = pc"
    using exec_at_live [OF at pc_states_done [OF pc]] by blast+
  obtain t where m: "exec_mid E tid t (terminal t) 0 s" and t: "t \<in> {WAITING, CANCELLED}"
    and st: "run_state_of s (exec_run s tid) = Some t"
    by (rule exec_midI [OF s l]) (simp add: pc' pc)
  have cn: "et_cancel (rt_execs s ! tid) \<Longrightarrow> t = CANCELLED"
    using cancel_flag [OF s l] st by simp
  show "rt_inv E (exec_resume E now tid next s)"
    by (rule exec_resume_inv [OF m t]) (use pc' ns cn in auto)
  show "rt_inv E (exec_resume E now tid next (add_step rid entry s))"
    by (rule exec_resume_inv [OF exec_mid_add_step [OF m] t]) (use pc' ns cn in auto)
qed

lemma llm_return_inv [inv_intros]:
  "rt_inv E s \<Longrightarrow> llm_return E now tid result s = Some s' \<Longrightarrow> rt_inv E s'"
  by (auto simp: llm_return_def split: option.splits exec_pc.splits sum.splits intro: waiting_inv)

lemma tool_return_inv [inv_intros]:
  "rt_inv E s \<Longrightarrow> tool_return E now tid result s = Some s' \<Longrightarrow> rt_inv E s'"
  by (auto simp: tool_return_def split: option.splits exec_pc.splits sum.splits intro: waiting_inv)

text \<open>The end of a task.\<close>

lemma exec_success_inv:
  assumes m: "exec_mid E tid t (terminal t) 0 s" and t: "t \<in> {RUNNING, CANCELLED}"
    and run: "running_task (rt_execs s ! tid)"
  shows "rt_inv E (exec_success E now tid output s)"
proof -
  let ?rid = "exec_run s tid"
  define s1 where "s1 = map_run ?rid (\<lambda>r. r\<lparr>rr_output := Some output\<rparr>) s"
  have m1: "exec_mid E tid t (terminal t) 0 s1"
    unfolding s1_def by (rule exec_mid_map_run [OF m]) simp_all
  have x1: "rt_execs s1 = rt_execs s" by (simp add: s1_def)
  obtain r where r: "rt_heap s1 ?rid = Some r"
    using exec_mid_state [OF m1] by (auto simp: run_state_of_def x1)
  obtain res ss where ap: "append_turn (rr_session_id r) (rr_input r) output (rt_sessions s1) = (res, ss)"
    by fastforce
  have "wf_sessions ss"
    using wf_append_turn [OF exec_midD(13) [OF m1]] ap by (metis snd_conv)
  then have m2: "exec_mid E tid t (terminal t) 0 (s1\<lparr>rt_sessions := ss\<rparr>)"
    by (rule exec_mid_sessions [OF m1])
  show ?thesis
  proof (cases res)
    case (Inl e)
    then have "exec_success E now tid output s = exec_fail E now tid e (s1\<lparr>rt_sessions := ss\<rparr>)"
      using r ap by (simp only: exec_success_def Let_def s1_def [symmetric]
          option.case prod.case sum.case)
    then show ?thesis
      using exec_fail_inv [OF m2, of now e] t run x1 by auto
  next
    case (Inr _)
    define s4 where "s4 = incr ''run_latency_seconds_count'' 1
      (incr ''run_latency_seconds_sum'' (now - et_began (rt_execs s ! tid)) (s1\<lparr>rt_sessions := ss\<rparr>))"
    have x4: "rt_execs s4 = rt_execs s" by (simp add: s4_def x1)
    have m4: "exec_mid E tid t (terminal t) 0 s4"
      using exec_mid_incr [OF exec_mid_incr [OF m2, where k = "''run_latency_seconds_sum''"],
          where k = "''run_latency_seconds_count''"] by (simp add: s4_def)
    let ?s5 = "fsm_effect E now ?rid SUCCEEDED ''agent completed'' (t = RUNNING) s4"
    let ?s6 = "if t = RUNNING then incr ''runs_succeeded_total'' 1 ?s5 else ?s5"
    let ?u = "if t = RUNNING then SUCCEEDED else t"
    have "exec_mid E tid ?u (terminal t) 0 ?s5"
      by (rule exec_mid_fsm [OF m4]) (auto simp: legal_simps x4)
    then have "exec_mid E tid ?u (terminal t) 0 ?s6"
      using exec_mid_incr [of E tid ?u "terminal t" 0 ?s5 "''runs_succeeded_total''" 1] by auto
    then have "rt_inv E (exec_finally tid ?s6)"
      by (rule exec_mid_finally) (use t run in \<open>auto simp: x4\<close>)
    moreover have "exec_success E now tid output s = exec_finally tid ?s6"
      unfolding exec_success_def Let_def s1_def [symmetric]
      using r ap Inr exec_mid_state [OF m4] exec_mid_state [OF m1] t
      by (simp add: s4_def [symmetric] x1 x4 fsm_if_current_eq legal_simps)
    ultimately show ?thesis by simp
  qed
qed

lemma exec_running:
  assumes s: "rt_inv E s" and at: "exec_at s tid = Some pc" and pc: "pc_states pc = {u, CANCELLED}"
    and ns: "pc \<noteq> Not_started"
  obtains t where "exec_mid E tid t (terminal t) 0 s" "t \<in> {u, CANCELLED}"
    "t \<in> {READY, RUNNING, WAITING, CANCELLED}" "running_task (rt_execs s ! tid)"
    "et_pc (rt_execs s ! tid) = pc"
proof -
  have l: "live (rt_execs s) tid" and pc': "et_pc (rt_execs s ! tid) = pc"
    using exec_at_live [OF at pc_states_done [OF pc]] by blast+
  show thesis
    by (rule exec_midI [OF s l]) (use that pc' pc l ns in \<open>auto simp: running_task_def live_def\<close>)
qed

lemma exec_finish_inv [inv_intros]:
  assumes s: "rt_inv E s" and r: "exec_finish E now tid s = Some s'"
  shows "rt_inv E s'"
proof -
  obtain x where at: "exec_at s tid = Some (Pattern_done x)"
    using r by (auto simp: exec_finish_def split: option.splits exec_pc.splits)
  obtain t where "exec_mid E tid t (terminal t) 0 s" "t \<in> {RUNNING, CANCELLED}"
    "running_task (rt_execs s ! tid)"
    by (rule exec_running [OF s at, of RUNNING]) auto
  then show ?thesis
    using r at by (auto simp: exec_finish_def split: sum.splits
        intro!: exec_fail_inv exec_success_inv)
qed

text \<open>Timeouts and cancellations.\<close>

lemma interrupt_inv:
  assumes s: "rt_inv E s" and r: "interrupt E now tid e s = Some s'"
  shows "rt_inv E s'"
proof -
  obtain pc where at: "exec_at s tid = Some pc" and nd: "\<forall>r. pc \<noteq> Exec_done r"
    and ns: "pc \<noteq> Not_started"
    using r by (auto simp: interrupt_def split: option.splits exec_pc.splits)
  have l: "live (rt_execs s) tid" and pc: "et_pc (rt_execs s ! tid) = pc"
    using exec_at_live [OF at nd] by blast+
  obtain t where m: "exec_mid E tid t (terminal t) 0 s" and t: "t \<in> pc_states pc"
    by (rule exec_midI [OF s l]) (simp add: pc)
  have run: "running_task (rt_execs s ! tid)"
    using l ns pc by (simp add: running_task_def live_def)
  have direct: "rt_inv E (exec_fail E now tid e s)" if "t \<in> {RUNNING, WAITING, CANCELLED}"
    using exec_fail_inv [OF m that] run by simp
  have after: "rt_inv E (exec_fail E now tid e
      (snd (back_to_running E now (exec_run s tid) rs s)))" if w: "t \<in> {WAITING, CANCELLED}" for rs
    unfolding exec_mid_back(1) [OF m w] snd_conv
    by (rule exec_fail_inv [OF exec_mid_back(2) [OF m w]]) (use w run in auto)
  show ?thesis
    using r at t direct after by (auto simp: interrupt_def split: exec_pc.splits)
qed

lemma exec_timeout_inv [inv_intros]:
  "rt_inv E s \<Longrightarrow> exec_timeout E now tid s = Some s' \<Longrightarrow> rt_inv E s'"
  unfolding exec_timeout_def by (rule interrupt_inv)

text \<open>A task that never ran is cancelled: it ends without \<open>_execute\<close>'s \<open>finally\<close> block.\<close>

lemma never_ran_inv:
  assumes s: "rt_inv E s" and l: "live (rt_execs s) tid" and c: "et_cancel (rt_execs s ! tid)"
    and pc: "et_pc (rt_execs s ! tid) = Not_started"
  shows "rt_inv E (set_exec tid (Exec_done res) s)" (is "rt_inv E ?s")
proof -
  note i = rt_inv0D [OF rt_invD(1) [OF s]] and lv = rt_invD(2) [OF s]
  let ?x = "(rt_execs s ! tid)\<lparr>et_pc := Exec_done res\<rparr>"
  have tid: "tid < length (rt_execs s)" using l by simp
  have st: "run_state_of s (exec_run s tid) = Some CANCELLED" using cancel_flag [OF s l c] .
  have dead: "\<not> exec_live ?x" by (simp add: exec_live_def)
  have idle: "\<not> running_task (rt_execs s ! tid)" by (simp add: running_task_def pc)
  have "sched ((run_state_of s)(exec_run s tid \<mapsto> CANCELLED)) (qids s) ((rt_execs s)[tid := ?x])"
    using i(4) by (intro sched_end [OF _ l dead]) (simp_all add: inv_sched_def)
  then have "inv_sched ?s" using st by (simp add: inv_sched_def fun_upd_idem)
  moreover have "inv_objects E ?s" using i(1) by (rule objects_world) simp_all
  moreover have "inv_registry ?s" using i(2) by (simp add: inv_registry_def)
  moreover have "inv_idem ?s" using i(3) by (rule inv_idem_cong [rotated -1]) auto
  moreover have "inv_workers E ?s" using i(5) tid by (rule inv_workers_exec [where x = ?x]) simp_all
  moreover have "inv_live ?s" using lv l by (rule inv_live_exec [where x = ?x]) simp_all
  moreover have "inv_queue E ?s" using i(6) by (simp add: inv_queue_def)
  moreover have "inv_bound E ?s" using i(8) by (simp add: inv_bound_def)
  moreover have "inv_world ?s"
    using i(7) idle running_count [OF tid, of ?x] dead
    by (simp add: inv_world_def running_task_def [of ?x])
  ultimately show ?thesis by (simp add: rt_inv_def rt_inv0_def)
qed

lemma exec_cancelled_inv [inv_intros]:
  assumes "rt_inv E s" and "exec_cancelled E now tid s = Some s'"
  shows "rt_inv E s'"
  using assms never_ran_inv [OF assms(1), of tid] interrupt_inv [OF assms(1)]
  by (auto simp: exec_cancelled_def live_pc split: if_splits)

subsection \<open>Steps of a worker\<close>

lemma busy_count_update:
  "i < length ws \<Longrightarrow>
   busy_count (ws[i := w]) + (case wk_pc (ws ! i) of W_busy _ _ \<Rightarrow> 1 | _ \<Rightarrow> 0) =
   busy_count ws + (case wk_pc w of W_busy _ _ \<Rightarrow> 1 | _ \<Rightarrow> 0)"
proof (induction ws arbitrary: i)
  case (Cons a ws)
  then show ?case
    using Cons.IH [of "i - 1"] by (cases i) (auto simp: busy_count_def split: worker_pc.splits)
qed simp

text \<open>\<open>task_done\<close> is called once per received item, so it never raises.\<close>

lemma task_done_ok:
  assumes "tq_unfinished q = length (tq_items q) + n" and "0 < n"
  shows "queue_task_done q = Inr (q\<lparr>tq_unfinished := length (tq_items q) + (n - 1)\<rparr>)"
  using assms by (simp add: queue_task_done_def)

lemma item_done_ok:
  assumes "tq_unfinished (rt_queue s) = length (tq_items (rt_queue s)) + n" and "0 < n"
  shows "item_done i pc s =
     set_worker i pc (update_registry_metrics
       (s\<lparr>rt_queue := (rt_queue s)\<lparr>tq_unfinished := length (tq_items (rt_queue s)) + (n - 1)\<rparr>\<rparr>))"
  using assms by (simp add: item_done_def task_done_ok)

lemma inv_liveD:
  assumes "inv_live s"
  shows "\<not> rt_closed s \<Longrightarrow> live (rt_execs s) tid \<Longrightarrow>
      \<exists>i < length (rt_workers s). wk_pc (rt_workers s ! i) = W_busy (exec_run s tid) tid"
    and "rt_closed s \<Longrightarrow> live (rt_execs s) tid \<Longrightarrow> run_state_of s (exec_run s tid) = Some CANCELLED"
    and "w \<in> set (rt_workers s) \<Longrightarrow> wk_cancel w \<Longrightarrow> rt_closed s"
    and "rt_closed s \<Longrightarrow> w \<in> set (rt_workers s) \<Longrightarrow> wk_cancel w \<or> wk_pc w = W_dead"
    and "\<not> rt_started s \<Longrightarrow> \<not> rt_closed s \<Longrightarrow> rt_workers s = []"
  using assms unfolding inv_live_def by blast+

lemma set_update_cases:
  assumes "x \<in> set (xs[i := y])" obtains "x = y" | "x \<in> set xs"
  using set_update_subset_insert [of xs i y] assms by blast

text \<open>A worker leaves a finished, or abandoned, task.\<close>

lemma worker_leave_inv:
  assumes s: "rt_inv E s" and i: "i < length (rt_workers s)"
    and w: "wk_pc (rt_workers s ! i) = W_busy rid tid"
    and over: "rt_closed s \<or> \<not> live (rt_execs s) tid" and pc: "pc = W_idle \<or> pc = W_dead"
  shows "rt_inv E (item_done i pc (s\<lparr>rt_tasks := dict_pop rid (rt_tasks s)\<rparr>))" (is "rt_inv E ?s")
proof -
  note inv = rt_inv0D [OF rt_invD(1) [OF s]] and lv = rt_invD(2) [OF s]
  let ?w = "(rt_workers s ! i)\<lparr>wk_pc := pc\<rparr>"
  have busy: "busy_count ((rt_workers s)[i := ?w]) + 1 = busy_count (rt_workers s)"
    using busy_count_update [OF i, of ?w] w pc by auto
  then have "item_done i pc (s\<lparr>rt_tasks := dict_pop rid (rt_tasks s)\<rparr>) =
      set_worker i pc (update_registry_metrics (s\<lparr>rt_tasks := dict_pop rid (rt_tasks s),
        rt_queue := (rt_queue s)\<lparr>tq_unfinished := length (tq_items (rt_queue s)) +
          busy_count ((rt_workers s)[i := ?w])\<rparr>\<rparr>))"
    using inv(6) item_done_ok [of "s\<lparr>rt_tasks := dict_pop rid (rt_tasks s)\<rparr>"
        "busy_count (rt_workers s)" i pc]
    by (simp add: inv_queue_def flip: busy)
  then obtain s' where s': "?s = s'" "rt_heap s' = rt_heap s" "rt_runs s' = rt_runs s"
    "rt_completion s' = rt_completion s" "rt_idem s' = rt_idem s"
    "rt_idem_by_run s' = rt_idem_by_run s" "rt_execs s' = rt_execs s" "rt_locks s' = rt_locks s"
    "rt_sessions s' = rt_sessions s" "rt_started s' = rt_started s" "rt_closed s' = rt_closed s"
    "bus_of s' = bus_of s" "uuids_of s' = uuids_of s" "active s' = active s"
    "rt_tasks s' = dict_pop rid (rt_tasks s)" "rt_workers s' = (rt_workers s)[i := ?w]"
    "rt_queue s' = (rt_queue s)\<lparr>tq_unfinished := length (tq_items (rt_queue s)) +
          busy_count ((rt_workers s)[i := ?w])\<rparr>"
    by simp
  have state: "run_state_of s' = run_state_of s" by (rule state_heap_cong) (rule s')
  have "inv_sched s'" using inv(4) by (simp add: inv_sched_def s' state)
  moreover have "inv_objects E s'" using inv(1) by (rule objects_world) (simp_all add: s')
  moreover have "inv_registry s'" using inv(2) by (simp add: inv_registry_def s' state)
  moreover have "inv_idem s'" using inv(3) by (rule inv_idem_cong [rotated -1]) (auto simp: s')
  moreover have "inv_workers E s'"
    using inv(5) i pc by (auto simp: inv_workers_def s' nth_list_update split: if_splits)
  moreover have "inv_queue E s'" using inv(6) by (auto simp: inv_queue_def s' wf_queue_def)
  moreover have "inv_bound E s'" using inv(8) by (simp add: inv_bound_def s')
  moreover have "inv_world s'" using inv(7) by (simp add: inv_world_def s')
  moreover have "inv_live s'"
    unfolding inv_live_def s' state
  proof (intro conjI impI allI ballI)
    fix j assume "\<not> rt_closed s" and j: "live (rt_execs s) j"
    then obtain k where k: "k < length (rt_workers s)"
      "wk_pc (rt_workers s ! k) = W_busy (exec_run s j) j"
      using inv_liveD(1) [OF lv] by blast
    then have "k \<noteq> i" using w over j \<open>\<not> rt_closed s\<close> by auto
    with k show "\<exists>k < length ((rt_workers s)[i := ?w]).
        wk_pc ((rt_workers s)[i := ?w] ! k) = W_busy (exec_run s j) j" by auto
  next
    fix x assume c: "rt_closed s" and x: "x \<in> set ((rt_workers s)[i := ?w])"
    have wi: "wk_cancel (rt_workers s ! i)"
      using inv_liveD(4) [OF lv c nth_mem [OF i]] w by simp
    from x show "wk_cancel x \<or> wk_pc x = W_dead"
      by (rule set_update_cases) (use wi inv_liveD(4) [OF lv c] in simp_all)
  next
    fix x assume x: "x \<in> set ((rt_workers s)[i := ?w])" and c: "wk_cancel x"
    from x show "rt_closed s"
      by (rule set_update_cases) (use c inv_liveD(3) [OF lv] nth_mem [OF i] in auto)
  next
    assume "\<not> rt_started s \<and> \<not> rt_closed s"
    then show "(rt_workers s)[i := ?w] = []" using inv_liveD(5) [OF lv] i by auto
  qed (use inv_liveD(2) [OF lv] in blast)
  ultimately show ?thesis by (simp add: rt_inv_def rt_inv0_def s'(1))
qed

lemma worker_resume_inv [inv_intros]:
  assumes s: "rt_inv E s" and r: "worker_resume i s = Some s'"
  shows "rt_inv E s'"
  using r by (auto simp: worker_resume_def live_pc split: if_splits worker_pc.splits exec_pc.splits
      intro!: worker_leave_inv [OF s])

lemma worker_cancelled_inv [inv_intros]:
  assumes s: "rt_inv E s" and r: "worker_cancelled i s = Some s'"
  shows "rt_inv E s'"
proof -
  note inv = rt_inv0D [OF rt_invD(1) [OF s]] and lv = rt_invD(2) [OF s]
  have i: "i < length (rt_workers s)" and c: "wk_cancel (rt_workers s ! i)"
    using r by (auto simp: worker_cancelled_def split: if_splits)
  have closed: "rt_closed s" using inv_liveD(3) [OF lv nth_mem [OF i] c] .
  show ?thesis
  proof (cases "wk_pc (rt_workers s ! i)")
    case W_idle
    let ?w = "(rt_workers s ! i)\<lparr>wk_pc := W_dead\<rparr>"
    have s': "s' = set_worker i W_dead s" using r W_idle by (simp add: worker_cancelled_def split: if_splits)
    have busy: "busy_count ((rt_workers s)[i := ?w]) = busy_count (rt_workers s)"
      using busy_count_update [OF i, of ?w] W_idle by simp
    have "inv_workers E s'"
      using inv(5) i by (auto simp: inv_workers_def s' nth_list_update split: if_splits)
    moreover have "inv_queue E s'" using inv(6) by (simp add: inv_queue_def s' busy)
    moreover have "inv_live s'"
      unfolding inv_live_def s'
      using closed inv_liveD(2,4) [OF lv] by (auto elim!: set_update_cases)
    moreover have "inv_objects E s'" using inv(1) by (rule objects_world) (simp_all add: s')
    moreover have "inv_idem s'" using inv(3) by (rule inv_idem_cong [rotated -1]) (auto simp: s')
    ultimately show ?thesis
      using inv by (simp add: rt_inv_def rt_inv0_def inv_registry_def inv_sched_def inv_bound_def
          inv_world_def s')
  next
    case (W_busy rid tid)
    then show ?thesis
      using r i c closed by (auto simp: worker_cancelled_def intro!: worker_leave_inv [OF s])
  next
    case W_dead
    then show ?thesis using r by (simp add: worker_cancelled_def split: if_splits)
  qed
qed

text \<open>A worker takes a queue entry.\<close>

lemma queued_state:
  assumes s: "rt_inv E s" and q: "rid \<in> set (qids s)"
  shows "run_state_of s rid = Some READY \<and> runs_get s rid = rt_heap s rid
      \<or> run_state_of s rid = Some CANCELLED"
proof -
  note inv = rt_inv0D [OF rt_invD(1) [OF s]]
  have "run_state_of s rid = Some READY \<or> run_state_of s rid = Some CANCELLED"
    using inv(4) q unfolding inv_sched_def by (rule sched_queued)
  moreover have "rid \<in> set (rt_runs s)" if "run_state_of s rid = Some READY"
    using inv(2) that unfolding inv_registry_def by (metis terminal_simps(5))
  ultimately show ?thesis by (auto simp: runs_get_def)
qed

lemma worker_pick_inv [inv_intros]:
  assumes s: "rt_inv E s" and r: "worker_pick i s = Some s'"
  shows "rt_inv E s'"
proof -
  note inv = rt_inv0D [OF rt_invD(1) [OF s]] and lv = rt_invD(2) [OF s]
  obtain task rest where i: "i < length (rt_workers s)" and idle: "wk_pc (rt_workers s ! i) = W_idle"
    and nc: "\<not> wk_cancel (rt_workers s ! i)" and items: "tq_items (rt_queue s) = task # rest"
    using r by (auto simp: worker_pick_def queue_get_def split: if_splits list.splits)
  have open_: "\<not> rt_closed s"
    using inv_liveD(4) [OF lv _ nth_mem [OF i]] nc idle by auto
  let ?rid = "task_run_id task" and ?q = "(rt_queue s)\<lparr>tq_items := rest\<rparr>"
  let ?b = "busy_count (rt_workers s)"
  have un: "tq_unfinished (rt_queue s) = Suc (length rest) + ?b"
    using inv(6) items by (simp add: inv_queue_def)
  have sch: "sched (run_state_of s) (?rid # map task_run_id rest) (rt_execs s)"
    using inv(4) items by (simp add: inv_sched_def)
  have qs: "run_state_of s ?rid = Some READY \<and> runs_get s ?rid = rt_heap s ?rid
      \<or> run_state_of s ?rid = Some CANCELLED"
    by (rule queued_state [OF s]) (simp add: items)
  show ?thesis
  proof (cases "run_state_of s ?rid = Some READY")
    case False
    then have c: "run_state_of s ?rid = Some CANCELLED" using qs by blast
    have "s' = item_done i W_idle (s\<lparr>rt_queue := ?q\<rparr>)"
      using r i idle nc items c
      by (auto simp: worker_pick_def queue_get_def Let_def runs_get_def run_state_of_def
          split: if_splits option.splits)
    moreover have "item_done i W_idle (s\<lparr>rt_queue := ?q\<rparr>) = update_registry_metrics
        (s\<lparr>rt_queue := (rt_queue s)\<lparr>tq_items := rest, tq_unfinished := length rest + ?b\<rparr>\<rparr>)"
    proof -
      have "(rt_workers s)[i := (rt_workers s ! i)\<lparr>wk_pc := W_idle\<rparr>] = rt_workers s"
        using idle by (simp flip: idle)
      then have "set_worker i W_idle (s\<lparr>rt_queue := q\<rparr>) = s\<lparr>rt_queue := q\<rparr>" for q
        by (simp add: set_worker_def)
      moreover have "set_worker i W_idle (update_registry_metrics u) =
          update_registry_metrics (set_worker i W_idle u)" for u
        by (simp add: update_registry_metrics_def set_gauge_def set_worker_def)
      ultimately show ?thesis using un by (simp add: item_done_ok [where n = "Suc ?b"])
    qed
    ultimately have s': "s' = update_registry_metrics
        (s\<lparr>rt_queue := (rt_queue s)\<lparr>tq_items := rest, tq_unfinished := length rest + ?b\<rparr>\<rparr>)"
      by simp
    have "inv_sched s'" using sched_skip [OF sch c] by (simp add: inv_sched_def s')
    moreover have "inv_objects E s'" using inv(1) by (rule objects_world) (simp_all add: s')
    moreover have "inv_idem s'" using inv(3) by (rule inv_idem_cong [rotated -1]) (auto simp: s')
    moreover have "inv_queue E s'" using inv(6) items by (auto simp: inv_queue_def s' wf_queue_def)
    moreover have "inv_live s'" using lv by (subst inv_live_cong [of _ s]) (simp_all add: s')
    moreover have "inv_workers E s'" using inv(5) by (subst inv_workers_cong [of _ s]) (simp_all add: s')
    ultimately show ?thesis
      using inv by (simp add: rt_inv_def rt_inv0_def inv_registry_def inv_bound_def inv_world_def s')
  next
    case ready: True
    then obtain run where run: "runs_get s ?rid = Some run" "rr_state run = READY" "rt_heap s ?rid = Some run"
      using qs by (auto simp: run_state_of_def)
    have rid: "rr_id run = ?rid" using inv(1) run(3) by (simp add: inv_objects_def)
    let ?tid = "length (rt_execs s)"
    let ?x = "\<lparr>et_run = ?rid, et_pc = Not_started, et_cancel = False, et_began = 0\<rparr>"
    let ?w = "(rt_workers s ! i)\<lparr>wk_pc := W_busy ?rid ?tid\<rparr>"
    have "s' = set_worker i (W_busy ?rid ?tid) (s\<lparr>rt_queue := ?q, rt_execs := rt_execs s @ [?x],
        rt_tasks := dict_set ?rid ?tid (rt_tasks s)\<rparr>)"
      using r i idle nc items run rid
      by (simp add: worker_pick_def queue_get_def Let_def runs_get_def split: if_splits)
    then have s': "rt_heap s' = rt_heap s" "rt_runs s' = rt_runs s"
      "rt_completion s' = rt_completion s" "rt_idem s' = rt_idem s"
      "rt_idem_by_run s' = rt_idem_by_run s" "rt_locks s' = rt_locks s"
      "rt_sessions s' = rt_sessions s" "rt_started s' = rt_started s" "rt_closed s' = rt_closed s"
      "rt_world s' = rt_world s" "active s' = active s" "rt_queue s' = ?q"
      "rt_execs s' = rt_execs s @ [?x]" "rt_tasks s' = dict_set ?rid ?tid (rt_tasks s)"
      "rt_workers s' = (rt_workers s)[i := ?w]"
      by (simp_all add: active_def)
    have state: "run_state_of s' = run_state_of s" by (rule state_heap_cong) (rule s')
    have x: "exec_live ?x" "\<not> running_task ?x" by (simp_all add: exec_live_def running_task_def)
    have busy: "busy_count ((rt_workers s)[i := ?w]) = Suc ?b"
      using busy_count_update [OF i, of ?w] idle by simp
    have old: "(rt_execs s @ [?x]) ! j = rt_execs s ! j" if "j < ?tid" for j
      using that by (simp add: nth_append)
    have "inv_sched s'"
      using sched_pick [OF sch ready, of ?x] by (simp add: inv_sched_def s' state)
    moreover have "inv_objects E s'" using inv(1) by (rule objects_world) (simp_all add: s')
    moreover have "inv_registry s'" using inv(2) by (simp add: inv_registry_def s' state)
    moreover have "inv_idem s'" using inv(3) by (rule inv_idem_cong [rotated -1]) (auto simp: s')
    moreover have "inv_queue E s'" using inv(6) items un by (auto simp: inv_queue_def s' wf_queue_def busy)
    moreover have "inv_bound E s'" using inv(8) by (simp add: inv_bound_def s')
    moreover have "inv_world s'" using inv(7) x by (simp add: inv_world_def s')
    moreover have "inv_workers E s'"
      using inv(5) i old unfolding inv_workers_def s'
      by (auto simp: nth_list_update less_Suc_eq split: if_splits)
    moreover have "inv_live s'"
      unfolding inv_live_def s' state
    proof (intro conjI impI allI ballI)
      fix j assume "live (rt_execs s @ [?x]) j"
      then consider "j = ?tid" | "live (rt_execs s) j" by auto
      then show "\<exists>k < length ((rt_workers s)[i := ?w]).
          wk_pc ((rt_workers s)[i := ?w] ! k) = W_busy (et_run ((rt_execs s @ [?x]) ! j)) j"
      proof cases
        case 1
        then show ?thesis using i by (intro exI [of _ i]) simp
      next
        case 2
        then obtain k where k: "k < length (rt_workers s)"
          "wk_pc (rt_workers s ! k) = W_busy (exec_run s j) j"
          using inv_liveD(1) [OF lv open_] by blast
        then have "k \<noteq> i" using idle by auto
        with k 2 show ?thesis by (intro exI [of _ k]) (simp add: old)
      qed
    next
      fix w assume w: "w \<in> set ((rt_workers s)[i := ?w])" and c: "wk_cancel w"
      from w show "rt_closed s"
        by (rule set_update_cases) (use c nc inv_liveD(3) [OF lv] in auto)
    qed (use inv_liveD(5) [OF lv] open_ i in auto)
    ultimately show ?thesis by (simp add: rt_inv_def rt_inv0_def)
  qed
qed

end
