(* ===== verification/Runtime_Reachable.thy ===== *)
theory Runtime_Reachable
  imports Runtime_Preservation
begin

section \<open>The operations of the interface preserve the invariant\<close>

text \<open>
  Starting, cancelling, retrying, closing, reclaiming finished runs and submitting preserve the
  invariant; with the steps of \<open>Runtime_Preservation\<close> this gives the invariant in every reachable
  state, by rule induction.
\<close>

subsection \<open>Changes of single fields\<close>

lemma inv_objects_run_id: "inv_objects E s \<Longrightarrow> rt_heap s rid = Some r \<Longrightarrow> rr_id r = rid \<and> wf_run r"
  unfolding inv_objects_def by blast

lemma rt_inv0_cong:
  assumes s: "rt_inv0 E s"
    and eq: "rt_heap s' = rt_heap s" "rt_runs s' = rt_runs s" "rt_completion s' = rt_completion s"
      "rt_idem s' = rt_idem s" "rt_idem_by_run s' = rt_idem_by_run s" "rt_queue s' = rt_queue s"
      "rt_workers s' = rt_workers s" "rt_tasks s' = rt_tasks s" "rt_execs s' = rt_execs s"
      "rt_sessions s' = rt_sessions s" "active s' = active s"
    and w: "uuids_of s \<le> uuids_of s'" "wf_bus (bus_of s')" "locks_free (rt_locks s')"
  shows "rt_inv0 E s'"
proof (rule rt_inv0I)
  note inv = rt_inv0D [OF s]
  have state: "run_state_of s' = run_state_of s" by (rule state_heap_cong) (rule eq)
  show "inv_objects E s'" using inv(1) eq(1) w(1) by (rule objects_world)
  show "inv_registry s'" using inv(2) by (simp add: inv_registry_def eq state)
  show "inv_idem s'" using inv(3) by (rule inv_idem_cong [rotated -1]) (auto simp: eq)
  show "inv_sched s'" using inv(4) by (simp add: inv_sched_def eq state)
  show "inv_workers E s'" using inv(5) by (simp add: inv_workers_def eq)
  show "inv_queue E s'" using inv(6) by (simp add: inv_queue_def eq)
  show "inv_world s'" using inv(7) w by (simp add: inv_world_def eq)
  show "inv_bound E s'" using inv(8) by (simp add: inv_bound_def eq)
qed

lemma rt_inv_cong:
  assumes s: "rt_inv E s"
    and eq: "rt_heap s' = rt_heap s" "rt_runs s' = rt_runs s" "rt_completion s' = rt_completion s"
      "rt_idem s' = rt_idem s" "rt_idem_by_run s' = rt_idem_by_run s" "rt_queue s' = rt_queue s"
      "rt_workers s' = rt_workers s" "rt_tasks s' = rt_tasks s" "rt_execs s' = rt_execs s"
      "rt_sessions s' = rt_sessions s" "active s' = active s"
      "rt_started s' = rt_started s" "rt_closed s' = rt_closed s"
    and w: "uuids_of s \<le> uuids_of s'" "wf_bus (bus_of s')" "locks_free (rt_locks s')"
  shows "rt_inv E s'"
proof -
  have state: "run_state_of s' = run_state_of s" by (rule state_heap_cong) (rule eq)
  have "inv_live s'" using rt_invD(2) [OF s] by (subst inv_live_cong [of _ s]) (simp_all add: eq state)
  then show ?thesis
    using rt_inv0_cong [OF rt_invD(1) [OF s] eq(1-11) w] by (simp add: rt_inv_def)
qed

lemma rt_inv_world:
  assumes "rt_inv E s"
  shows "wf_bus (bus_of s)" "locks_free (rt_locks s)"
  using rt_inv0D(7) [OF rt_invD(1) [OF assms]] by (simp_all add: inv_world_def)

lemma rt_inv_incr:
  "rt_inv E s \<Longrightarrow> k \<noteq> ''runs_active'' \<Longrightarrow> rt_inv E (incr k v s)"
  by (rule rt_inv_cong, assumption) (simp_all add: rt_inv_world)

lemma rt_inv_registry_metrics: "rt_inv E s \<Longrightarrow> rt_inv E (update_registry_metrics s)"
  by (rule rt_inv_cong, assumption) (simp_all add: rt_inv_world)

lemma rt_inv0_map_run:
  assumes s: "rt_inv0 E s"
    and f: "\<And>r. rr_id (f r) = rr_id r \<and> rr_input (f r) = rr_input r \<and> rr_kind (f r) = rr_kind r
       \<and> rr_session_id (f r) = rr_session_id r \<and> rr_state (f r) = rr_state r
       \<and> (rt_heap s rid = Some r \<longrightarrow> wf_run r \<longrightarrow> wf_run (f r))"
  shows "rt_inv0 E (map_run rid f s)"
proof (rule rt_inv0I)
  note inv = rt_inv0D [OF s]
  have dom: "dom (rt_heap (map_run rid f s)) = dom (rt_heap s)"
    by (auto split: if_splits)
  show "inv_objects E (map_run rid f s)" using inv(1) f by (intro objects_map_run) auto
  show "inv_registry (map_run rid f s)" using inv(2) f dom by (simp add: inv_registry_def del: map_run_fields(1))
  show "inv_idem (map_run rid f s)" using inv(3) f by (intro idem_map_run) auto
  show "inv_sched (map_run rid f s)" using inv(4) f by (simp add: inv_sched_def)
  show "inv_workers E (map_run rid f s)" using inv(5) by (simp add: inv_workers_def)
  show "inv_queue E (map_run rid f s)" using inv(6) by (simp add: inv_queue_def)
  show "inv_world (map_run rid f s)" using inv(7) by (simp add: inv_world_def)
  show "inv_bound E (map_run rid f s)" using inv(8) by (simp add: inv_bound_def)
qed

lemma rt_inv_map_run:
  assumes s: "rt_inv E s"
    and f: "\<And>r. rr_id (f r) = rr_id r \<and> rr_input (f r) = rr_input r \<and> rr_kind (f r) = rr_kind r
       \<and> rr_session_id (f r) = rr_session_id r \<and> rr_state (f r) = rr_state r
       \<and> (rt_heap s rid = Some r \<longrightarrow> wf_run r \<longrightarrow> wf_run (f r))"
  shows "rt_inv E (map_run rid f s)"
proof -
  have "inv_live (map_run rid f s)"
    using rt_invD(2) [OF s] f by (subst inv_live_cong [of _ s]) simp_all
  then show ?thesis
    using rt_inv0_map_run [OF rt_invD(1) [OF s], of f rid] f by (simp add: rt_inv_def)
qed

subsection \<open>Starting\<close>

lemma busy_count_idle [simp]:
  "busy_count (replicate n \<lparr>wk_pc = W_idle, wk_cancel = c\<rparr>) = 0" "busy_count [] = 0"
  by (simp_all add: busy_count_def)

lemma runtime_start_inv [inv_intros]:
  assumes s: "rt_inv E s"
  shows "rt_inv E (snd (runtime_start E s))"
proof (cases "rt_closed s \<or> rt_started s")
  case True
  then show ?thesis using s by (auto simp: runtime_start_def)
next
  case False
  then have c: "\<not> rt_closed s" and n: "\<not> rt_started s" by auto
  note inv = rt_inv0D [OF rt_invD(1) [OF s]] and lv = rt_invD(2) [OF s]
  have none: "rt_workers s = []" using inv_liveD(5) [OF lv n c] .
  have idle: "\<not> live (rt_execs s) tid" for tid
    using inv_liveD(1) [OF lv c, of tid] none by auto
  let ?ws = "replicate (nat (cf_max_concurrency (env_config E))) \<lparr>wk_pc = W_idle, wk_cancel = False\<rparr>"
  let ?s = "snd (runtime_start E s)"
  have s': "rt_heap ?s = rt_heap s" "rt_runs ?s = rt_runs s" "rt_completion ?s = rt_completion s"
    "rt_idem ?s = rt_idem s" "rt_idem_by_run ?s = rt_idem_by_run s" "rt_locks ?s = rt_locks s"
    "rt_sessions ?s = rt_sessions s" "rt_started ?s" "rt_closed ?s = rt_closed s"
    "active ?s = active s" "rt_queue ?s = rt_queue s" "rt_execs ?s = rt_execs s"
    "rt_tasks ?s = rt_tasks s" "rt_workers ?s = ?ws" "uuids_of ?s = uuids_of s"
    "bus_of ?s = bus_start (bus_of s)"
    using c n by (simp_all add: runtime_start_def Let_def active_def set_gauge_def)
  have state: "run_state_of ?s = run_state_of s" by (rule state_heap_cong) (rule s')
  have "inv_sched ?s" using inv(4) by (simp add: inv_sched_def s' state)
  moreover have "inv_objects E ?s" using inv(1) by (rule objects_world) (simp_all add: s')
  moreover have "inv_registry ?s" using inv(2) by (simp add: inv_registry_def s' state)
  moreover have "inv_idem ?s" using inv(3) by (rule inv_idem_cong [rotated -1]) (auto simp: s')
  moreover have "inv_workers E ?s" using inv(5) by (simp add: inv_workers_def s')
  moreover have "inv_queue E ?s" using inv(6) by (simp add: inv_queue_def s' none)
  moreover have "inv_bound E ?s" using inv(8) by (simp add: inv_bound_def s')
  moreover have "inv_world ?s" using inv(7) by (simp add: inv_world_def s' wf_bus_start)
  moreover have "inv_live ?s" using c by (simp add: inv_live_def s' idle)
  ultimately show ?thesis by (simp add: rt_inv_def rt_inv0_def)
qed

subsection \<open>Cancelling one run\<close>

definition cancelled_run :: "env \<Rightarrow> time \<Rightarrow> string \<Rightarrow> string \<Rightarrow> runtime \<Rightarrow> runtime" where
  "cancelled_run E now rid rs s =
     (let s1 = fsm_effect E now rid CANCELLED rs True s
      in s1\<lparr>rt_completion := dict_set rid True (rt_completion s1)\<rparr>)"

lemma cancelled_run_fields [simp]:
  "rt_runs (cancelled_run E now rid rs s) = rt_runs s"
  "rt_completion (cancelled_run E now rid rs s) = dict_set rid True (rt_completion s)"
  "rt_idem (cancelled_run E now rid rs s) = rt_idem s"
  "rt_idem_by_run (cancelled_run E now rid rs s) = rt_idem_by_run s"
  "rt_queue (cancelled_run E now rid rs s) = rt_queue s"
  "rt_workers (cancelled_run E now rid rs s) = rt_workers s"
  "rt_tasks (cancelled_run E now rid rs s) = rt_tasks s"
  "rt_execs (cancelled_run E now rid rs s) = rt_execs s"
  "rt_sessions (cancelled_run E now rid rs s) = rt_sessions s"
  "rt_started (cancelled_run E now rid rs s) = rt_started s"
  "rt_closed (cancelled_run E now rid rs s) = rt_closed s"
  "rt_gathered (cancelled_run E now rid rs s) = rt_gathered s"
  "active (cancelled_run E now rid rs s) = active s"
  "run_state_of s rid \<noteq> None \<Longrightarrow>
     run_state_of (cancelled_run E now rid rs s) = (run_state_of s)(rid \<mapsto> CANCELLED)"
  by (auto simp: cancelled_run_def Let_def)

lemma cancelled_run_inv0:
  assumes s: "rt_inv0 E s" and st: "run_state_of s rid = Some t" "\<not> terminal t"
  shows "rt_inv0 E (cancelled_run E now rid rs s)" (is "rt_inv0 E ?s")
proof (rule rt_inv0I)
  note inv = rt_inv0D [OF s]
  let ?s1 = "fsm_effect E now rid CANCELLED rs True s"
  have reg: "rid \<in> set (rt_runs s)" using inv(2) st by (simp add: inv_registry_def)
  have "may_move s rid CANCELLED" using st by (simp add: may_move_def can_cancel)
  then have o1: "inv_objects E ?s1" using inv(1) by (intro objects_fsm_effect)
  then show "inv_objects E ?s"
    by (rule objects_world) (simp_all add: cancelled_run_def Let_def)
  have "dom (rt_heap ?s) = dom (rt_heap s)"
    by (auto simp: cancelled_run_def Let_def fsm_effect_heap split: if_splits)
  then show "inv_registry ?s" using inv(2) st reg by (auto simp: inv_registry_def)
  have "inv_idem ?s1" using inv(3) by (rule idem_fsm_effect)
  then show "inv_idem ?s"
    by (rule inv_idem_cong [rotated -1]) (auto simp: cancelled_run_def Let_def)
  show "inv_sched ?s"
    using inv(4) sched_cancel_run [of "run_state_of s"] st by (simp add: inv_sched_def)
  show "inv_workers E ?s" using inv(5) by (simp add: inv_workers_def)
  show "inv_queue E ?s" using inv(6) by (simp add: inv_queue_def)
  show "inv_bound E ?s" using inv(8) by (simp add: inv_bound_def)
  show "inv_world ?s"
    using inv(7) by (simp add: inv_world_def)
      (simp add: cancelled_run_def Let_def fsm_effect_bus fsm_effect_locks)
qed

lemma cancelled_run_live:
  assumes "inv_live s" and "run_state_of s rid \<noteq> None"
  shows "inv_live (cancelled_run E now rid rs s)"
  unfolding inv_live_def using inv_liveD [OF assms(1)] assms(2) by simp

lemma cancelled_run_inv:
  "rt_inv E s \<Longrightarrow> run_state_of s rid = Some t \<Longrightarrow> \<not> terminal t \<Longrightarrow>
   rt_inv E (cancelled_run E now rid rs s)"
  by (simp add: rt_inv_def cancelled_run_inv0 cancelled_run_live)

text \<open>\<open>task.cancel()\<close> on the task of a cancelled run.\<close>

lemma task_cancel_fields [simp]:
  "rt_heap (task_cancel tid s) = rt_heap s" "rt_runs (task_cancel tid s) = rt_runs s"
  "rt_completion (task_cancel tid s) = rt_completion s" "rt_idem (task_cancel tid s) = rt_idem s"
  "rt_idem_by_run (task_cancel tid s) = rt_idem_by_run s"
  "rt_queue (task_cancel tid s) = rt_queue s" "rt_workers (task_cancel tid s) = rt_workers s"
  "rt_tasks (task_cancel tid s) = rt_tasks s" "rt_locks (task_cancel tid s) = rt_locks s"
  "rt_sessions (task_cancel tid s) = rt_sessions s"
  "rt_started (task_cancel tid s) = rt_started s" "rt_closed (task_cancel tid s) = rt_closed s"
  "rt_gathered (task_cancel tid s) = rt_gathered s" "rt_world (task_cancel tid s) = rt_world s"
  "active (task_cancel tid s) = active s" "run_state_of (task_cancel tid s) = run_state_of s"
  "length (rt_execs (task_cancel tid s)) = length (rt_execs s)"
  by (simp_all add: task_cancel_def)

lemma task_active_live: "task_active s tid = live (rt_execs s) tid"
  by (simp add: task_active_def live_def)

lemma task_cancel_execs:
  "rt_execs (task_cancel tid s) =
     (if live (rt_execs s) tid then (rt_execs s)[tid := (rt_execs s ! tid)\<lparr>et_cancel := True\<rparr>]
      else rt_execs s)"
  by (simp add: task_cancel_def task_active_live)

lemma exec_live_cancel [simp]: "exec_live (x\<lparr>et_cancel := c\<rparr>) = exec_live x"
  by (simp add: exec_live_def)

lemma task_cancel_run [simp]: "et_run (rt_execs (task_cancel tid s) ! j) = et_run (rt_execs s ! j)"
  by (cases "j = tid") (simp_all add: task_cancel_execs)

lemma task_cancel_alive [simp]: "live (rt_execs (task_cancel tid s)) j = live (rt_execs s) j"
proof (cases "live (rt_execs s) tid")
  case True
  then have "exec_live (rt_execs s ! tid)" by (simp add: live_def)
  then show ?thesis using True by (simp add: task_cancel_execs live_update)
qed (simp add: task_cancel_execs)

lemma task_cancel_inv0:
  assumes s: "rt_inv0 E s"
    and c: "live (rt_execs s) tid \<Longrightarrow> run_state_of s (exec_run s tid) = Some CANCELLED"
  shows "rt_inv0 E (task_cancel tid s)" (is "rt_inv0 E ?s")
proof (cases "live (rt_execs s) tid")
  case l: True
  note inv = rt_inv0D [OF s]
  let ?x = "(rt_execs s ! tid)\<lparr>et_cancel := True\<rparr>"
  have tid: "tid < length (rt_execs s)" using l by simp
  have x: "rt_execs ?s = (rt_execs s)[tid := ?x]" using l by (simp add: task_cancel_execs)
  have same: "running_task ?x = running_task (rt_execs s ! tid)"
    by (simp add: running_task_def exec_live_def)
  show ?thesis
  proof (rule rt_inv0I)
    show "inv_objects E ?s" using inv(1) by (rule objects_world) simp_all
    show "inv_registry ?s" using inv(2) by (simp add: inv_registry_def)
    show "inv_idem ?s" using inv(3) by (rule inv_idem_cong [rotated -1]) auto
    show "inv_sched ?s"
      using inv(4) sched_request [of "run_state_of s" "qids s", OF _ l c [OF l]]
      by (simp add: inv_sched_def x)
    show "inv_workers E ?s" using inv(5) tid by (rule inv_workers_exec [where x = ?x]) (simp_all add: x)
    show "inv_queue E ?s" using inv(6) by (simp add: inv_queue_def)
    show "inv_bound E ?s" using inv(8) by (simp add: inv_bound_def)
    show "inv_world ?s"
      using inv(7) same running_count [OF tid, of ?x] by (simp add: inv_world_def x)
  qed
next
  case False
  then have "?s = s" by (simp add: task_cancel_def task_active_live)
  then show ?thesis using s by simp
qed

lemma task_cancel_live: "inv_live s \<Longrightarrow> inv_live (task_cancel tid s)"
  unfolding inv_live_def task_cancel_fields task_cancel_run task_cancel_alive .

lemma cancel_eq:
  assumes s: "rt_inv E s" and run: "runs_get s rid = Some run"
  shows "cancel E now rid s =
    (if terminal (rr_state run) then (Inr False, s)
     else (Inr True, incr ''runs_cancelled_total'' 1
       ((case dict_get (rt_tasks s) rid of None \<Rightarrow> id | Some tid \<Rightarrow> task_cancel tid)
         (cancelled_run E now rid ''cancel requested''
           (map_run rid (\<lambda>r. r\<lparr>rr_cancel_requested := True\<rparr>) s)))))"
proof (cases "terminal (rr_state run)")
  case False
  let ?s1 = "map_run rid (\<lambda>r. r\<lparr>rr_cancel_requested := True\<rparr>) s"
  have heap: "rt_heap s rid = Some run" and reg: "rid \<in> set (rt_runs s)"
    using run by (auto simp: runs_get_def split: if_splits)
  have "rid \<in> fst ` set (rt_completion s)"
    using rt_inv0D(2) [OF rt_invD(1) [OF s]] reg by (simp add: inv_registry_def)
  moreover have "may_move ?s1 rid CANCELLED"
    using False heap by (simp add: may_move_def run_state_of_def can_cancel)
  moreover have "(task_cancel tid u)\<lparr>rt_completion := c\<rparr> = task_cancel tid (u\<lparr>rt_completion := c\<rparr>)"
    for tid u c by (simp add: task_cancel_def task_active_def)
  ultimately show ?thesis
    using False run
    by (auto simp: cancel_def runtime_get_def fsm_if_allowed_eq cancelled_run_def Let_def
        completion_put_eq split: option.split)
qed (use run in \<open>simp add: cancel_def runtime_get_def\<close>)

lemma cancel_inv [inv_intros]:
  assumes s: "rt_inv E s"
  shows "rt_inv E (snd (cancel E now rid s))"
proof (cases "runs_get s rid")
  case None
  then show ?thesis using s by (simp add: cancel_def runtime_get_def)
next
  case run: (Some run)
  show ?thesis
  proof (cases "terminal (rr_state run)")
    case False
    let ?s1 = "map_run rid (\<lambda>r. r\<lparr>rr_cancel_requested := True\<rparr>) s"
    let ?s2 = "cancelled_run E now rid ''cancel requested'' ?s1"
    have st: "run_state_of ?s1 rid = Some (rr_state run)"
      using run by (auto simp: runs_get_def run_state_of_def split: if_splits)
    have "rt_inv E ?s1" using s by (rule rt_inv_map_run) simp
    then have i2: "rt_inv E ?s2" using st False by (rule cancelled_run_inv)
    have "rt_inv E (task_cancel tid ?s2)" if t: "dict_get (rt_tasks s) rid = Some tid" for tid
    proof -
      have "exec_run s tid = rid"
        using rt_inv0D(5) [OF rt_invD(1) [OF s]] t by (simp add: inv_workers_def)
      then have "run_state_of ?s2 (exec_run ?s2 tid) = Some CANCELLED" using st by simp
      then show ?thesis
        using i2 by (simp add: rt_inv_def task_cancel_inv0 task_cancel_live)
    qed
    then have "rt_inv E ((case dict_get (rt_tasks s) rid of None \<Rightarrow> id | Some tid \<Rightarrow> task_cancel tid) ?s2)"
      using i2 by (simp split: option.split)
    then have "rt_inv E (incr ''runs_cancelled_total'' 1
        ((case dict_get (rt_tasks s) rid of None \<Rightarrow> id | Some tid \<Rightarrow> task_cancel tid) ?s2))"
      by (rule rt_inv_incr) simp
    then show ?thesis using False cancel_eq [OF s run] by simp
  qed (simp add: s cancel_eq [OF s run])
qed

subsection \<open>Closing\<close>

lemma close_runs_eq:
  assumes "rt_inv0 E s" and "run_state_of s rid = Some t" and "\<not> terminal t"
  shows "close_runs E now (rid # rids) s =
    close_runs E now rids (cancelled_run E now rid ''runtime shutdown'' s)"
proof -
  have "rid \<in> set (rt_runs s)" "fst ` set (rt_completion s) = set (rt_runs s)"
    using rt_inv0D(2) [OF assms(1)] assms(2,3) by (simp_all add: inv_registry_def)
  moreover have "may_move s rid CANCELLED" using assms(2,3) by (simp add: may_move_def can_cancel)
  ultimately show ?thesis
    using assms(2,3)
    by (auto simp: run_state_of_def fsm_if_allowed_eq completion_put_eq cancelled_run_def Let_def)
qed

lemma close_runs_skip:
  assumes "run_state_of s rid = None \<or> (\<exists>t. run_state_of s rid = Some t \<and> terminal t)"
  shows "close_runs E now (rid # rids) s = close_runs E now rids s"
  using assms by (auto simp: run_state_of_def)

definition unfinished :: "runtime \<Rightarrow> string \<Rightarrow> bool" where
  "unfinished s rid \<longleftrightarrow> (case run_state_of s rid of None \<Rightarrow> False | Some t \<Rightarrow> \<not> terminal t)"

lemma close_runs_inv:
  assumes "rt_inv0 E s"
  shows "\<exists>s'. close_runs E now rids s = (Inr (), s') \<and> rt_inv0 E s'
    \<and> rt_runs s' = rt_runs s \<and> rt_workers s' = rt_workers s \<and> rt_execs s' = rt_execs s
    \<and> rt_tasks s' = rt_tasks s \<and> rt_closed s' = rt_closed s \<and> rt_started s' = rt_started s
    \<and> rt_queue s' = rt_queue s
    \<and> run_state_of s' = (\<lambda>rid. if rid \<in> set rids \<and> unfinished s rid then Some CANCELLED
                               else run_state_of s rid)"
  using assms
proof (induction rids arbitrary: s)
  case (Cons rid rids)
  show ?case
  proof (cases "unfinished s rid")
    case False
    then have "close_runs E now (rid # rids) s = close_runs E now rids s"
      by (intro close_runs_skip) (auto simp: unfinished_def split: option.splits)
    moreover have "(i \<in> set (rid # rids) \<and> unfinished s i) = (i \<in> set rids \<and> unfinished s i)" for i
      using False by auto
    ultimately show ?thesis using Cons.IH [OF Cons.prems] by presburger
  next
    case True
    then obtain t where t: "run_state_of s rid = Some t" "\<not> terminal t"
      by (auto simp: unfinished_def split: option.splits)
    let ?c = "cancelled_run E now rid ''runtime shutdown'' s"
    have same: "(\<lambda>i. if i \<in> set rids \<and> unfinished ?c i then Some CANCELLED else run_state_of ?c i) =
        (\<lambda>i. if i \<in> set (rid # rids) \<and> unfinished s i then Some CANCELLED else run_state_of s i)"
      using t by (auto simp: unfinished_def fun_eq_iff)
    show ?thesis
      using Cons.IH [OF cancelled_run_inv0 [OF Cons.prems t, of now "''runtime shutdown''"]]
      unfolding same close_runs_eq [OF Cons.prems t] cancelled_run_fields(1-13) .
  qed
qed simp

lemma fold_task_cancel_inv0:
  assumes "rt_inv0 E s" and "\<And>tid. live (rt_execs s) tid \<Longrightarrow> run_state_of s (exec_run s tid) = Some CANCELLED"
  shows "rt_inv0 E (fold task_cancel tids s)
    \<and> rt_workers (fold task_cancel tids s) = rt_workers s
    \<and> rt_closed (fold task_cancel tids s) = rt_closed s
    \<and> rt_started (fold task_cancel tids s) = rt_started s
    \<and> run_state_of (fold task_cancel tids s) = run_state_of s
    \<and> (\<forall>j. live (rt_execs (fold task_cancel tids s)) j = live (rt_execs s) j)
    \<and> (\<forall>j. et_run (rt_execs (fold task_cancel tids s) ! j) = et_run (rt_execs s ! j))"
  using assms
proof (induction tids arbitrary: s)
  case (Cons tid tids)
  have "rt_inv0 E (task_cancel tid s)" using Cons.prems by (intro task_cancel_inv0)
  moreover have "live (rt_execs (task_cancel tid s)) j \<Longrightarrow>
      run_state_of (task_cancel tid s) (exec_run (task_cancel tid s) j) = Some CANCELLED" for j
    using Cons.prems(2) by simp
  ultimately show ?case using Cons.IH [of "task_cancel tid s"] by simp
qed simp

lemma busy_count_cancel [simp]: "busy_count (map cancel_worker ws) = busy_count ws"
  by (induction ws) (auto simp: busy_count_def cancel_worker_def)

lemma wk_pc_cancel [simp]: "wk_pc (cancel_worker w) = wk_pc w"
  by (simp add: cancel_worker_def)

lemma close_begin_inv [inv_intros]:
  assumes s: "rt_inv E s"
  shows "rt_inv E (snd (close_begin E now s))"
proof (cases "rt_closed s")
  case False
  note lv = rt_invD(2) [OF s]
  let ?s0 = "s\<lparr>rt_closed := True\<rparr>"
  have i0: "rt_inv0 E ?s0"
    by (rule rt_inv0_cong [OF rt_invD(1) [OF s]]) (simp_all add: rt_inv_world [OF s])
  obtain s1 where s1: "close_runs E now (rt_runs s) ?s0 = (Inr (), s1)" "rt_inv0 E s1"
    "rt_runs s1 = rt_runs s" "rt_workers s1 = rt_workers s" "rt_closed s1"
    and fate: "run_state_of s1 = (\<lambda>rid. if rid \<in> set (rt_runs s) \<and> unfinished ?s0 rid
        then Some CANCELLED else run_state_of ?s0 rid)"
    using close_runs_inv [OF i0, of now "rt_runs s"] by auto
  have reg: "run_state_of s rid = Some t \<Longrightarrow> \<not> terminal t \<Longrightarrow> rid \<in> set (rt_runs s)" for rid t
    using rt_inv0D(2) [OF rt_invD(1) [OF s]] by (simp add: inv_registry_def)
  have over: "terminal t" if "run_state_of s1 rid = Some t" for rid t
    using that reg [of rid t] by (auto simp: fate unfinished_def split: if_splits)
  have sch: "sched (run_state_of s1) (qids s1) (rt_execs s1)"
    using rt_inv0D(4) [OF s1(2)] by (simp add: inv_sched_def)
  have gone: "run_state_of s1 (exec_run s1 tid) = Some CANCELLED" if "live (rt_execs s1) tid" for tid
    using live_states [OF sch that] over by (metis empty_iff insert_iff terminal_simps(5-7))
  let ?tids = "filter (task_active s1) (map snd (rt_tasks s1))"
  let ?s2 = "fold task_cancel ?tids s1"
  note c = fold_task_cancel_inv0 [OF s1(2) gone, of ?tids]
  have eq: "snd (close_begin E now s) =
      ?s2\<lparr>rt_workers := map cancel_worker (rt_workers ?s2), rt_gathered := ?tids\<rparr>"
    using False s1(1) by (simp add: close_begin_def Let_def)
  note inv = rt_inv0D [OF conjunct1 [OF c]]
  let ?s3 = "?s2\<lparr>rt_workers := map cancel_worker (rt_workers ?s2), rt_gathered := ?tids\<rparr>"
  have state: "run_state_of ?s3 = run_state_of s1" using c by (simp add: run_state_of_def fun_eq_iff)
  have "rt_inv0 E ?s3"
  proof (rule rt_inv0I)
    show "inv_objects E ?s3" using inv(1) by (rule objects_world) simp_all
    show "inv_registry ?s3" using inv(2) by (simp add: inv_registry_def run_state_of_def)
    show "inv_idem ?s3" using inv(3) by (rule inv_idem_cong [rotated -1]) auto
    show "inv_sched ?s3" using inv(4) c by (simp add: inv_sched_def run_state_of_def [abs_def])
    show "inv_workers E ?s3" using inv(5) by (simp add: inv_workers_def)
    show "inv_queue E ?s3" using inv(6) by (simp add: inv_queue_def)
    show "inv_bound E ?s3" using inv(8) by (simp add: inv_bound_def)
    show "inv_world ?s3" using inv(7) by (simp add: inv_world_def active_def)
  qed
  moreover have "inv_live ?s3"
    unfolding inv_live_def state
    using c s1(5) gone by (auto simp: cancel_worker_def split: if_splits)
  ultimately show ?thesis by (simp add: rt_inv_def eq)
qed (simp add: s close_begin_def)

lemma close_end_inv [inv_intros]:
  assumes s: "rt_inv E s" and r: "close_end s = Some s'"
  shows "rt_inv E s'"
proof -
  have c: "rt_closed s" and s': "s' = s\<lparr>rt_closed := True, rt_started := False\<rparr>"
    using r by (auto simp: close_end_def split: if_splits)
  have "rt_inv0 E s'"
    unfolding s' by (rule rt_inv0_cong [OF rt_invD(1) [OF s]])
      (simp_all add: rt_inv_world [OF s] active_def)
  moreover have "run_state_of s' = run_state_of s" by (simp add: s' run_state_of_def fun_eq_iff)
  then have "inv_live s'"
    unfolding inv_live_def using c s' inv_liveD [OF rt_invD(2) [OF s]] by simp
  ultimately show ?thesis by (simp add: rt_inv_def)
qed

subsection \<open>Retrying\<close>

lemma enqueue_room:
  "rid \<noteq> [] \<Longrightarrow> \<not> queue_full (rt_queue s) \<Longrightarrow>
   enqueue now rid s = (Inr (), s\<lparr>rt_queue := (rt_queue s)\<lparr>
     tq_items := tq_items (rt_queue s) @ [\<lparr>task_run_id = rid, task_attempt = 1, task_enqueued_at = now\<rparr>],
     tq_unfinished := Suc (tq_unfinished (rt_queue s))\<rparr>\<rparr>)"
  by (simp add: enqueue_def mk_run_task_def queue_put_nowait_room)

lemma inv_queue_put:
  assumes "inv_queue E s" and "\<not> queue_full (rt_queue s)" and "rt_workers s' = rt_workers s"
    and "rt_queue s' = (rt_queue s)\<lparr>tq_items := tq_items (rt_queue s) @ [x],
           tq_unfinished := Suc (tq_unfinished (rt_queue s))\<rparr>"
  shows "inv_queue E s'"
  using assms by (auto simp: inv_queue_def wf_queue_def queue_full_def)

definition retried :: "env \<Rightarrow> time \<Rightarrow> string \<Rightarrow> runtime \<Rightarrow> runtime" where
  "retried E now rid s =
     (let s1 = map_run rid (\<lambda>r. r\<lparr>rr_error := None, rr_output := None, rr_finished_at := None,
                 rr_cancel_requested := False\<rparr>) (fsm_effect E now rid READY ''manual retry'' True s);
          s2 = s1\<lparr>rt_completion := dict_set rid False (rt_completion s1)\<rparr>
      in s2\<lparr>rt_queue := (rt_queue s2)\<lparr>
           tq_items := tq_items (rt_queue s2) @ [\<lparr>task_run_id = rid, task_attempt = 1, task_enqueued_at = now\<rparr>],
           tq_unfinished := Suc (tq_unfinished (rt_queue s2))\<rparr>\<rparr>)"

text \<open>The four outcomes of \<open>retry\<close>.\<close>

lemma retry_eq:
  assumes s: "rt_inv E s"
  shows "retry E now rid s =
    (case runs_get s rid of
       None \<Rightarrow> (Inl (RunNotFoundError (''unknown run: '' @ rid)), s)
     | Some run \<Rightarrow>
        if queue_full (rt_queue s)
        then (Inl (RunQueueFullError (cf_queue_retry_after_seconds (env_config E))),
              incr ''run_submissions_rejected_total'' 1 s)
        else if rr_state run = FAILED
        then (Inr rid, incr ''runs_retried_total'' 1 (update_registry_metrics (retried E now rid s)))
        else (Inl (InvalidStateTransition (illegal_message (rr_state run) READY)),
              fsm_effect E now rid READY ''manual retry'' False s))"
proof (cases "runs_get s rid")
  case (Some run)
  note inv = rt_inv0D [OF rt_invD(1) [OF s]]
  have heap: "rt_heap s rid = Some run" and reg: "rid \<in> set (rt_runs s)"
    using Some by (auto simp: runs_get_def split: if_splits)
  have rid: "rid \<noteq> []" using inv_objects_run_id [OF inv(1) heap] by (auto simp: wf_run_def)
  have "rid \<in> fst ` set (rt_completion s)" using inv(2) reg by (simp add: inv_registry_def)
  moreover have "rr_state run \<noteq> CREATED"
    using sched_created [of "run_state_of s" "qids s" "rt_execs s" rid] inv(4) heap
    by (simp add: inv_sched_def run_state_of_def)
  ultimately show ?thesis
    using Some heap rid
    by (simp add: retry_def runtime_get_def rejected_def Let_def fsm_transition_eq run_state_of_def
        may_move_def into_ready completion_put_eq retried_def enqueue_room)
qed (simp add: retry_def runtime_get_def)

lemma retried_inv:
  assumes s: "rt_inv E s" and st: "run_state_of s rid = Some FAILED" and reg: "rid \<in> set (rt_runs s)"
    and room: "\<not> queue_full (rt_queue s)"
  shows "rt_inv E (retried E now rid s)" (is "rt_inv E ?s")
proof -
  note inv = rt_inv0D [OF rt_invD(1) [OF s]] and lv = rt_invD(2) [OF s]
  let ?s1 = "fsm_effect E now rid READY ''manual retry'' True s"
  let ?f = "\<lambda>r. r\<lparr>rr_error := None, rr_output := None, rr_finished_at := None,
    rr_cancel_requested := False\<rparr>"
  have o1: "inv_objects E ?s1"
    by (rule objects_fsm_effect [OF inv(1)]) (simp add: may_move_def st legal_simps)
  have ready: "rr_state r = READY" if "rt_heap ?s1 rid = Some r" for r
    using that by (auto simp: fsm_effect_heap)
  have o2: "inv_objects E (map_run rid ?f ?s1)"
    by (rule objects_map_run [OF o1]) (use ready in \<open>simp_all add: wf_run_def\<close>)
  have i2: "inv_idem (map_run rid ?f ?s1)" using inv(3) by (intro idem_map_run idem_fsm_effect) auto
  have state: "run_state_of ?s = (run_state_of s)(rid \<mapsto> READY)"
    using st by (simp add: retried_def Let_def)
  have x: "rt_runs ?s = rt_runs s" "rt_completion ?s = dict_set rid False (rt_completion s)"
    "rt_workers ?s = rt_workers s" "rt_execs ?s = rt_execs s" "rt_tasks ?s = rt_tasks s"
    "rt_started ?s = rt_started s" "rt_closed ?s = rt_closed s" "rt_sessions ?s = rt_sessions s"
    "active ?s = active s" "qids ?s = qids s @ [rid]"
    by (simp_all add: retried_def Let_def)
  have dom: "dom (rt_heap ?s) = dom (rt_heap s)"
    by (auto simp: retried_def Let_def fsm_effect_heap split: if_splits)
  have "rt_inv0 E ?s"
  proof (rule rt_inv0I)
    show "inv_objects E ?s"
      using o2 by (rule objects_world) (simp_all add: retried_def Let_def)
    show "inv_registry ?s" using inv(2) reg by (simp add: inv_registry_def state x dom insert_absorb)
    show "inv_idem ?s"
      using i2 by (rule inv_idem_cong [rotated -1]) (auto simp: retried_def Let_def)
    show "inv_sched ?s"
      using inv(4) st sched_enqueue [of "run_state_of s"] by (simp add: inv_sched_def state x)
    show "inv_workers E ?s" using inv(5) by (simp add: inv_workers_def x)
    show "inv_queue E ?s"
      using inv(6) room by (rule inv_queue_put) (simp_all add: x, simp add: retried_def Let_def)
    show "inv_bound E ?s" using inv(8) by (simp add: inv_bound_def x)
    show "inv_world ?s"
      using inv(7) by (simp add: inv_world_def x)
        (simp add: retried_def Let_def fsm_effect_bus fsm_effect_locks)
  qed
  moreover have "inv_live ?s"
    unfolding inv_live_def state x using inv_liveD [OF lv] st by auto
  ultimately show ?thesis by (simp add: rt_inv_def)
qed

lemma rt_inv_refused:
  assumes s: "rt_inv E s"
  shows "rt_inv E (fsm_effect E now rid t rs False s)"
proof -
  have "rt_heap (fsm_effect E now rid t rs False s) = rt_heap s"
    by (auto simp: fsm_effect_heap option.map_ident)
  then show ?thesis
    by (rule rt_inv_cong [OF s])
      (simp_all add: fsm_effect_uuids fsm_effect_bus fsm_effect_locks rt_inv_world [OF s])
qed

lemma retry_inv [inv_intros]:
  assumes s: "rt_inv E s"
  shows "rt_inv E (snd (retry E now rid s))"
proof (cases "runs_get s rid")
  case (Some run)
  then have "rt_heap s rid = Some run" "rid \<in> set (rt_runs s)"
    by (auto simp: runs_get_def split: if_splits)
  then show ?thesis
    using Some s unfolding retry_eq [OF s]
    by (auto simp: run_state_of_def intro!: rt_inv_incr rt_inv_registry_metrics retried_inv rt_inv_refused)
qed (simp add: s retry_eq [OF s])

subsection \<open>Reclaiming\<close>

lemma evict_fields [simp]:
  "rt_heap (evict rid s) = rt_heap s" "rt_runs (evict rid s) = removeAll rid (rt_runs s)"
  "rt_completion (evict rid s) = dict_pop rid (rt_completion s)"
  "rt_idem (evict rid s) = (case dict_get (rt_idem_by_run s) rid of
      None \<Rightarrow> rt_idem s | Some key \<Rightarrow> dict_pop key (rt_idem s))"
  "rt_idem_by_run (evict rid s) = (case dict_get (rt_idem_by_run s) rid of
      None \<Rightarrow> rt_idem_by_run s | Some key \<Rightarrow> dict_pop rid (rt_idem_by_run s))"
  "rt_queue (evict rid s) = rt_queue s" "rt_workers (evict rid s) = rt_workers s"
  "rt_tasks (evict rid s) = rt_tasks s" "rt_execs (evict rid s) = rt_execs s"
  "rt_locks (evict rid s) = discard rid (rt_locks s)" "rt_sessions (evict rid s) = rt_sessions s"
  "rt_started (evict rid s) = rt_started s" "rt_closed (evict rid s) = rt_closed s"
  "rt_gathered (evict rid s) = rt_gathered s" "bus_of (evict rid s) = bus_of s"
  "uuids_of (evict rid s) = uuids_of s" "active (evict rid s) = active s"
  "run_state_of (evict rid s) = run_state_of s"
  by (simp_all add: evict_def Let_def active_def run_state_of_def fun_eq_iff split: option.split)
    (simp_all add: incr_def split: option.split)

lemma idem_evict:
  assumes "inv_idem s"
  shows "inv_idem (evict rid s)"
proof -
  have link: "dict_get (rt_idem_by_run s) i = Some k \<longleftrightarrow> (\<exists>p. dict_get (rt_idem s) k = Some (i, p))" for i k
    using assms unfolding inv_idem_def by blast
  have src: "rid' \<in> set (rt_runs s) \<and> (\<exists>r. rt_heap s rid' = Some r \<and> rr_input r = i \<and> rr_kind r = kd \<and>
      (\<forall>sid. ss = Some sid \<longrightarrow> sid \<noteq> [] \<longrightarrow> rr_session_id r = sid))"
    if "dict_get (rt_idem s) k = Some (rid', i, kd, ss)" for k rid' i kd ss
    using assms that unfolding inv_idem_def by blast
  show ?thesis
  proof (cases "dict_get (rt_idem_by_run s) rid")
    case None
    then have "\<And>k p. dict_get (rt_idem s) k \<noteq> Some (rid, p)" using link by (metis option.distinct(1))
    then show ?thesis unfolding inv_idem_def using link src None by auto
  next
    case (Some key)
    then obtain p where p: "dict_get (rt_idem s) key = Some (rid, p)" using link by blast
    have only: "dict_get (rt_idem s) k = Some (rid, p') \<Longrightarrow> k = key" for k p'
      using link [of rid] Some by (metis option.inject)
    show ?thesis unfolding inv_idem_def evict_fields Some option.case dict_get_pop
    proof (intro conjI allI impI)
      fix k i
      show "((dict_get (rt_idem_by_run s))(rid := None)) i = Some k \<longleftrightarrow>
          (\<exists>q. ((dict_get (rt_idem s))(key := None)) k = Some (i, q))"
      proof (cases "i = rid")
        case True
        then show ?thesis using only by (auto split: if_splits)
      next
        case False
        have "key \<noteq> k" if "dict_get (rt_idem s) k = Some (i, q)" for q using that p False by auto
        then show ?thesis using False link [of i k] by auto
      qed
    next
      fix k i inp kd ss
      assume "((dict_get (rt_idem s))(key := None)) k = Some (i, inp, kd, ss)"
      then have k: "k \<noteq> key" "dict_get (rt_idem s) k = Some (i, inp, kd, ss)" by (auto split: if_splits)
      then have "i \<noteq> rid" using only by blast
      with src [OF k(2)] show "i \<in> set (removeAll rid (rt_runs s))" by simp
      show "\<exists>r. rt_heap s i = Some r \<and> rr_input r = inp \<and> rr_kind r = kd \<and>
          (\<forall>sid. ss = Some sid \<longrightarrow> sid \<noteq> [] \<longrightarrow> rr_session_id r = sid)"
        using src [OF k(2)] by blast
    qed
  qed
qed

lemma evict_inv:
  assumes s: "rt_inv E s" and t: "run_state_of s rid = Some t" "terminal t"
  shows "rt_inv E (evict rid s)"
proof -
  note inv = rt_inv0D [OF rt_invD(1) [OF s]]
  have "rt_inv0 E (evict rid s)"
  proof (rule rt_inv0I)
    show "inv_objects E (evict rid s)" using inv(1) by (rule objects_world) simp_all
    show "inv_registry (evict rid s)"
      unfolding inv_registry_def evict_fields
    proof (intro conjI allI impI)
      fix i u assume "run_state_of s i = Some u" "\<not> terminal u"
      then show "i \<in> set (removeAll rid (rt_runs s))"
        using inv(2) t by (cases "i = rid") (simp_all add: inv_registry_def)
    qed (use inv(2) in \<open>auto simp: inv_registry_def distinct_removeAll\<close>)
    show "inv_idem (evict rid s)" using inv(3) by (rule idem_evict)
    show "inv_sched (evict rid s)" using inv(4) by (simp add: inv_sched_def)
    show "inv_workers E (evict rid s)" using inv(5) by (simp add: inv_workers_def)
    show "inv_queue E (evict rid s)" using inv(6) by (simp add: inv_queue_def)
    show "inv_bound E (evict rid s)"
      using inv(8) length_filter_le [of "\<lambda>i. rid \<noteq> i" "rt_runs s"]
      unfolding inv_bound_def evict_fields removeAll_filter_not_eq by linarith
    show "inv_world (evict rid s)" using inv(7) by (simp add: inv_world_def locks_free_discard)
  qed
  moreover have "inv_live (evict rid s)"
    using rt_invD(2) [OF s] by (subst inv_live_cong [of _ s]) simp_all
  ultimately show ?thesis by (simp add: rt_inv_def)
qed

lemma fold_evict_inv:
  assumes "rt_inv E s" and "\<forall>rid \<in> set rids. \<exists>t. run_state_of s rid = Some t \<and> terminal t"
  shows "rt_inv E (fold evict rids s)
    \<and> rt_runs (fold evict rids s) = filter (\<lambda>i. i \<notin> set rids) (rt_runs s)
    \<and> run_state_of (fold evict rids s) = run_state_of s
    \<and> rt_queue (fold evict rids s) = rt_queue s \<and> rt_heap (fold evict rids s) = rt_heap s
    \<and> rt_closed (fold evict rids s) = rt_closed s \<and> rt_workers (fold evict rids s) = rt_workers s
    \<and> rt_execs (fold evict rids s) = rt_execs s \<and> rt_started (fold evict rids s) = rt_started s"
  using assms
proof (induction rids arbitrary: s)
  case (Cons rid rids)
  have i: "rt_inv E (evict rid s)" using Cons.prems by (auto intro: evict_inv)
  have "\<forall>i \<in> set rids. \<exists>t. run_state_of (evict rid s) i = Some t \<and> terminal t"
    using Cons.prems(2) by simp
  note IH = Cons.IH [OF i this]
  have "filter (\<lambda>i. i \<notin> set rids) (removeAll rid xs) = filter (\<lambda>i. i \<notin> set (rid # rids)) xs" for xs
    by (induction xs) auto
  with IH show ?case by simp
qed simp

lemma pick_overflow_set: "set (pick_overflow n xs rs) \<subseteq> set xs \<union> rr_id ` set rs"
  by (induction n xs rs rule: pick_overflow.induct) auto

lemma pick_overflow_base: "set xs \<subseteq> set (pick_overflow n xs rs)"
  by (induction n xs rs rule: pick_overflow.induct) auto

lemma pick_overflow_distinct: "distinct xs \<Longrightarrow> distinct (pick_overflow n xs rs)"
  by (induction n xs rs rule: pick_overflow.induct) auto

lemma pick_overflow_enough:
  "length (pick_overflow n xs rs) = length xs + n \<or> rr_id ` set rs \<subseteq> set (pick_overflow n xs rs)"
proof (induction n xs rs rule: pick_overflow.induct)
  case (3 n xs r rs)
  show ?case
  proof (cases "rr_id r \<in> set xs")
    case True
    then have "rr_id r \<in> set (pick_overflow (Suc n) xs rs)" using pick_overflow_base by blast
    then show ?thesis using True 3(1) by simp
  next
    case False
    have "rr_id r \<in> set (pick_overflow n (xs @ [rr_id r]) rs)"
      using pick_overflow_base [of "xs @ [rr_id r]"] by auto
    then show ?thesis using False 3(2) by simp
  qed
qed simp_all

lemma runs_values_set:
  "r \<in> set (runs_values s) \<longleftrightarrow> (\<exists>rid \<in> set (rt_runs s). rt_heap s rid = Some r)"
  by (force simp: runs_values_def List.map_filter_def image_iff)

lemma removable_facts:
  fixes E now reserve s
  assumes s: "rt_inv E s"
  defines "R \<equiv> removable E now reserve s"
  shows "distinct R" and "set R \<subseteq> set (rt_runs s)"
    and "rid \<in> set R \<Longrightarrow> \<exists>t. run_state_of s rid = Some t \<and> terminal t"
    and "int (length (rt_runs s)) - int (length R) + reserve \<le> cf_max_run_records (env_config E)
      \<or> (\<forall>rid \<in> set (rt_runs s) - set R. unfinished s rid)"
proof -
  note inv = rt_inv0D [OF rt_invD(1) [OF s]]
  define fin where "fin = sort_key finish_key (filter (\<lambda>r. terminal (rr_state r)) (runs_values s))"
  define old where "old = map rr_id
      (filter (\<lambda>r. finish_key r < now - cf_run_retention_seconds (env_config E)) fin)"
  define n where "n = nat (max 0 (int (length (rt_runs s)) - int (length old) + reserve
      - cf_max_run_records (env_config E)))"
  have R: "R = pick_overflow n old fin"
    by (simp add: R_def removable_def Let_def fin_def old_def n_def)
  have id: "rr_id r = rid" if "rt_heap s rid = Some r" for rid r
    using inv_objects_run_id [OF inv(1) that] by simp
  have fin_iff: "r \<in> set fin \<longleftrightarrow> (\<exists>rid \<in> set (rt_runs s). rt_heap s rid = Some r) \<and> terminal (rr_state r)"
    for r by (simp add: fin_def runs_values_set)
  have ids: "map rr_id (runs_values s) = rt_runs s"
  proof -
    have "set (rt_runs s) \<subseteq> dom (rt_heap s)" using inv(2) by (simp add: inv_registry_def)
    then have "map rr_id (List.map_filter (rt_heap s) xs) = xs" if "set xs \<subseteq> set (rt_runs s)" for xs
      using that by (induction xs) (auto simp: map_filter_simps id dest: subsetD)
    then show ?thesis by (simp add: runs_values_def)
  qed
  have "distinct (map rr_id (filter P (runs_values s)))" for P
    using inv(2) ids by (simp add: inv_registry_def distinct_map_filter)
  then have "distinct (map rr_id fin)"
    by (simp add: fin_def distinct_map)
  then have "distinct old" by (simp add: old_def distinct_map_filter)
  then show "distinct R" by (simp add: R pick_overflow_distinct)
  have sub: "set R \<subseteq> rr_id ` set fin"
    using pick_overflow_set [of n old fin] by (auto simp: R old_def)
  then show "set R \<subseteq> set (rt_runs s)" using fin_iff id by fastforce
  show "\<exists>t. run_state_of s rid = Some t \<and> terminal t" if in_R: "rid \<in> set R"
  proof -
    obtain r where "r \<in> set fin" "rr_id r = rid" using sub in_R by blast
    then have "rt_heap s rid = Some r" "terminal (rr_state r)" using fin_iff [of r] id by auto
    then show ?thesis by (simp add: run_state_of_def)
  qed
  show "int (length (rt_runs s)) - int (length R) + reserve \<le> cf_max_run_records (env_config E)
      \<or> (\<forall>rid \<in> set (rt_runs s) - set R. unfinished s rid)"
    using pick_overflow_enough [of n old fin]
  proof
    assume "length (pick_overflow n old fin) = length old + n"
    moreover have "int (length (rt_runs s)) - int (length old) + reserve
        - cf_max_run_records (env_config E) \<le> int n" by (simp add: n_def)
    ultimately show ?thesis unfolding R by linarith
  next
    assume all: "rr_id ` set fin \<subseteq> set (pick_overflow n old fin)"
    have "unfinished s rid" if "rid \<in> set (rt_runs s) - set R" for rid
    proof -
      have "set (rt_runs s) \<subseteq> dom (rt_heap s)" using inv(2) by (simp add: inv_registry_def)
      moreover have "rid \<in> set (rt_runs s)" using that by simp
      ultimately obtain r where r: "rt_heap s rid = Some r" by blast
      then have "\<not> terminal (rr_state r)" using that all fin_iff id R by blast
      then show ?thesis using r by (simp add: unfinished_def run_state_of_def)
    qed
    then show ?thesis by blast
  qed
qed

lemma cleanup_runs_inv:
  fixes E now reserve s
  assumes s: "rt_inv E s"
  defines "c \<equiv> cleanup_runs E now reserve s"
  shows "rt_inv E c"
    and "rt_closed c = rt_closed s" "rt_started c = rt_started s" "rt_queue c = rt_queue s"
      "rt_heap c = rt_heap s"
    and "rt_runs c = filter (\<lambda>i. i \<notin> set (removable E now reserve s)) (rt_runs s)"
    and "int (length (rt_runs c)) + reserve \<le> cf_max_run_records (env_config E)
      \<or> (\<forall>rid \<in> set (rt_runs c). unfinished c rid)"
proof -
  define R where "R = removable E now reserve s"
  note f = removable_facts [OF s, where now = now and reserve = reserve, folded R_def]
  have "\<forall>rid \<in> set R. \<exists>t. run_state_of s rid = Some t \<and> terminal t" using f(3) by blast
  note e = fold_evict_inv [OF s this]
  have eq: "c = update_registry_metrics (fold evict R s)" by (simp add: c_def cleanup_runs_def R_def)
  show "rt_inv E c" unfolding eq using e by (intro rt_inv_registry_metrics) blast
  show "rt_closed c = rt_closed s" "rt_started c = rt_started s" "rt_queue c = rt_queue s"
    "rt_heap c = rt_heap s" unfolding eq using e by simp_all
  show runs: "rt_runs c = filter (\<lambda>i. i \<notin> set (removable E now reserve s)) (rt_runs s)"
    unfolding eq using e by (simp add: R_def)
  have d: "distinct (rt_runs s)" using rt_inv0D(2) [OF rt_invD(1) [OF s]] by (simp add: inv_registry_def)
  have "length (filter (\<lambda>i. i \<notin> set R) (rt_runs s)) = card (set (rt_runs s) - set R)"
    using distinct_filter [OF d, of "\<lambda>i. i \<notin> set R", THEN distinct_card]
    by (simp add: set_diff_eq)
  also have "\<dots> = length (rt_runs s) - length R"
    using f(1,2) d by (simp add: card_Diff_subset distinct_card)
  finally have len: "int (length (rt_runs c)) = int (length (rt_runs s)) - int (length R)"
    using f(1,2) d card_mono [OF _ f(2)] by (simp add: runs R_def [symmetric] distinct_card)
  have un: "unfinished c = unfinished s"
    using e by (simp add: unfinished_def fun_eq_iff eq)
  show "int (length (rt_runs c)) + reserve \<le> cf_max_run_records (env_config E)
      \<or> (\<forall>rid \<in> set (rt_runs c). unfinished c rid)"
    using f(4) unfolding len un by (auto simp: runs R_def [symmetric])
qed

subsection \<open>There are never too many unfinished runs\<close>

lemma live_workers:
  assumes s: "rt_inv E s" and c: "\<not> rt_closed s"
  shows "finite {tid. live (rt_execs s) tid}"
    and "card {tid. live (rt_execs s) tid} \<le> length (rt_workers s)"
proof -
  let ?t = "\<lambda>i. case wk_pc (rt_workers s ! i) of W_busy _ tid \<Rightarrow> tid | _ \<Rightarrow> 0"
  have sub: "{tid. live (rt_execs s) tid} \<subseteq> ?t ` {..<length (rt_workers s)}"
  proof
    fix tid assume "tid \<in> {tid. live (rt_execs s) tid}"
    then obtain i where "i < length (rt_workers s)" "wk_pc (rt_workers s ! i) = W_busy (exec_run s tid) tid"
      using inv_liveD(1) [OF rt_invD(2) [OF s] c] by blast
    then show "tid \<in> ?t ` {..<length (rt_workers s)}" by (intro image_eqI [of _ _ i]) auto
  qed
  then show "finite {tid. live (rt_execs s) tid}" by (rule finite_subset) simp
  show "card {tid. live (rt_execs s) tid} \<le> length (rt_workers s)"
    using card_mono [OF _ sub] card_image_le [of "{..<length (rt_workers s)}" ?t] by simp
qed

lemma unfinished_count:
  assumes s: "rt_inv E s" and c: "\<not> rt_closed s" and u: "\<forall>rid \<in> set (rt_runs s). unfinished s rid"
  shows "length (rt_runs s) \<le> length (tq_items (rt_queue s)) + length (rt_workers s)"
proof -
  note inv = rt_inv0D [OF rt_invD(1) [OF s]]
  let ?L = "{tid. live (rt_execs s) tid}"
  have sch: "sched (run_state_of s) (qids s) (rt_execs s)" using inv(4) by (simp add: inv_sched_def)
  have sub: "set (rt_runs s) \<subseteq> set (qids s) \<union> exec_run s ` ?L"
  proof
    fix rid assume "rid \<in> set (rt_runs s)"
    then obtain t where "run_state_of s rid = Some t" "\<not> terminal t"
      using u by (auto simp: unfinished_def split: option.splits)
    then show "rid \<in> set (qids s) \<union> exec_run s ` ?L" using sched_covered [OF sch] by blast
  qed
  have "length (rt_runs s) = card (set (rt_runs s))"
    using inv(2) by (simp add: inv_registry_def distinct_card)
  also have "\<dots> \<le> card (set (qids s) \<union> exec_run s ` ?L)"
    using sub live_workers(1) [OF s c] by (intro card_mono) simp_all
  also have "\<dots> \<le> card (set (qids s)) + card (exec_run s ` ?L)" by (rule card_Un_le)
  also have "\<dots> \<le> length (qids s) + card ?L"
    using live_workers(1) [OF s c] by (intro add_mono card_length card_image_le)
  finally show ?thesis using live_workers(2) [OF s c] by simp
qed

text \<open>A run may be added once the finished ones are reclaimed.\<close>

lemma admission_room:
  assumes valid: "runtime_validate (env_config E) = Inr ()"
    and s: "rt_inv E s" and c: "\<not> rt_closed s" and q: "\<not> queue_full (rt_queue s)"
    and room: "int (length (rt_runs s)) + 1 \<le> cf_max_run_records (env_config E)
      \<or> (\<forall>rid \<in> set (rt_runs s). unfinished s rid)"
  shows "int (length (rt_runs s)) + 1 \<le> cf_max_run_records (env_config E)"
  using room
proof
  assume "\<forall>rid \<in> set (rt_runs s). unfinished s rid"
  note inv = rt_inv0D [OF rt_invD(1) [OF s]] and v = runtime_validateD [OF valid]
  have "length (rt_runs s) \<le> length (tq_items (rt_queue s)) + length (rt_workers s)"
    using s c \<open>\<forall>rid \<in> set (rt_runs s). unfinished s rid\<close> by (rule unfinished_count)
  moreover have "length (rt_workers s) \<le> nat (cf_max_concurrency (env_config E))"
    using inv(5) by (simp add: inv_workers_def)
  moreover have "length (tq_items (rt_queue s)) < nat (cf_queue_capacity (env_config E))"
    using q inv(6) by (simp add: inv_queue_def queue_full_def)
  ultimately show ?thesis using v by linarith
qed

subsection \<open>Submitting\<close>

text \<open>The run that \<open>submit\<close> creates, and the state after it is admitted.\<close>

definition admitted ::
    "env \<Rightarrow> time \<Rightarrow> run_record \<Rightarrow> string \<Rightarrow> agent_kind \<Rightarrow> string option \<Rightarrow> string option \<Rightarrow>
     runtime \<Rightarrow> runtime" where
  "admitted E now run input kind session_id key s =
     (let rid = rr_id run;
          s1 = incr ''runs_submitted_total'' 1 (register_run run input kind session_id key s);
          s2 = emit_run E now ''run.created'' rid
                 (\<lambda>r. [(''kind'', PStr (kind_value kind)), (''session_id'', PStr (rr_session_id r))]) s1;
          s3 = fsm_effect E now rid READY ''accepted'' True s2
      in update_registry_metrics (s3\<lparr>rt_queue := (rt_queue s3)\<lparr>
           tq_items := tq_items (rt_queue s3) @ [\<lparr>task_run_id = rid, task_attempt = 1, task_enqueued_at = now\<rparr>],
           tq_unfinished := Suc (tq_unfinished (rt_queue s3))\<rparr>\<rparr>))"

definition session_for :: "env \<Rightarrow> string option \<Rightarrow> world \<Rightarrow> string \<times> world" where
  "session_for E session_id w =
     (case session_id of Some sid \<Rightarrow> if sid \<noteq> [] then (sid, w) else uuid4 (env_uuids E) w
                       | None \<Rightarrow> uuid4 (env_uuids E) w)"

lemma register_run_fields [simp]:
  "rt_heap (register_run run i k ss key s) = (rt_heap s)(rr_id run \<mapsto> run)"
  "rt_runs (register_run run i k ss key s) =
     (if rr_id run \<in> set (rt_runs s) then rt_runs s else rt_runs s @ [rr_id run])"
  "rt_completion (register_run run i k ss key s) = dict_set (rr_id run) False (rt_completion s)"
  "rt_idem (register_run run i k ss key s) =
     (case key of None \<Rightarrow> rt_idem s | Some c \<Rightarrow> dict_set c (rr_id run, i, k, ss) (rt_idem s))"
  "rt_idem_by_run (register_run run i k ss key s) =
     (case key of None \<Rightarrow> rt_idem_by_run s | Some c \<Rightarrow> dict_set (rr_id run) c (rt_idem_by_run s))"
  "rt_queue (register_run run i k ss key s) = rt_queue s"
  "rt_workers (register_run run i k ss key s) = rt_workers s"
  "rt_tasks (register_run run i k ss key s) = rt_tasks s"
  "rt_execs (register_run run i k ss key s) = rt_execs s"
  "rt_locks (register_run run i k ss key s) = rt_locks s"
  "rt_sessions (register_run run i k ss key s) = rt_sessions s"
  "rt_started (register_run run i k ss key s) = rt_started s"
  "rt_closed (register_run run i k ss key s) = rt_closed s"
  "rt_gathered (register_run run i k ss key s) = rt_gathered s"
  "rt_world (register_run run i k ss key s) = rt_world s"
  "active (register_run run i k ss key s) = active s"
  by (simp_all add: register_run_def Let_def active_def split: option.split)

lemma admit_eq:
  assumes "uuids_ok E" and q: "\<not> queue_full (rt_queue s)" and inp: "\<not> blank input"
  shows "\<exists>run sid w. session_for E session_id (snd (uuid4 (env_uuids E) (rt_world s))) = (sid, w)
    \<and> mk_run_record (env_uuids E (uuids_of s)) input kind sid (env_uuids E (w_uuids w)) now = Inr run
    \<and> admit E now input kind session_id key s = (Inr (rr_id run),
        admitted E now run input kind session_id key (s\<lparr>rt_world := snd (uuid4 (env_uuids E) w)\<rparr>))"
proof -
  have ne: "env_uuids E n \<noteq> []" for n using assms(1) by (simp add: uuids_ok_def)
  obtain sid w where sid: "session_for E session_id (snd (uuid4 (env_uuids E) (rt_world s))) = (sid, w)"
    by fastforce
  then have "sid \<noteq> []"
    using ne by (auto simp: session_for_def uuid4_def split: option.splits if_splits)
  then obtain run where run:
    "mk_run_record (env_uuids E (uuids_of s)) input kind sid (env_uuids E (w_uuids w)) now = Inr run"
    using ne inp by (auto simp: mk_run_record_def)
  note r = mk_run_record_Inr [OF run]
  have "admit E now input kind session_id key s = (Inr (rr_id run),
        admitted E now run input kind session_id key (s\<lparr>rt_world := snd (uuid4 (env_uuids E) w)\<rparr>))"
    using q sid run r ne [of "uuids_of s"]
    by (simp add: admit_def session_for_def Let_def uuid4_def admitted_def case_prod_beta
        fsm_transition_eq may_move_def run_state_of_def legal_simps enqueue_room)
  then show ?thesis using sid run by blast
qed

lemma admitted_fields [simp]:
  fixes E now run i k ss key s
  defines "a \<equiv> admitted E now run i k ss key s"
  shows "rt_runs a = (if rr_id run \<in> set (rt_runs s) then rt_runs s else rt_runs s @ [rr_id run])"
    "rt_completion a = dict_set (rr_id run) False (rt_completion s)"
    "rt_idem a = (case key of None \<Rightarrow> rt_idem s
       | Some c \<Rightarrow> dict_set c (rr_id run, i, k, ss) (rt_idem s))"
    "rt_idem_by_run a = (case key of None \<Rightarrow> rt_idem_by_run s
       | Some c \<Rightarrow> dict_set (rr_id run) c (rt_idem_by_run s))"
    "rt_workers a = rt_workers s" "rt_execs a = rt_execs s" "rt_tasks a = rt_tasks s"
    "rt_sessions a = rt_sessions s" "rt_started a = rt_started s" "rt_closed a = rt_closed s"
    "active a = active s"
    "rt_queue a = (rt_queue s)\<lparr>tq_items := tq_items (rt_queue s) @
        [\<lparr>task_run_id = rr_id run, task_attempt = 1, task_enqueued_at = now\<rparr>],
      tq_unfinished := Suc (tq_unfinished (rt_queue s))\<rparr>"
    "rt_heap a = (rt_heap s)(rr_id run \<mapsto> apply_record now (rr_state run) READY ''accepted'' run)"
    "run_state_of a = (run_state_of s)(rr_id run \<mapsto> READY)"
  by (simp_all add: a_def admitted_def Let_def)
    (auto simp: fsm_effect_heap run_state_of_def fun_eq_iff)

lemma admitted_world:
  "wf_bus (bus_of s) \<Longrightarrow> wf_bus (bus_of (admitted E now run i k ss key s))"
  "locks_free (rt_locks s) \<Longrightarrow> locks_free (rt_locks (admitted E now run i k ss key s))"
  "uuids_of s \<le> uuids_of (admitted E now run i k ss key s)"
  by (simp_all add: admitted_def Let_def fsm_effect_bus fsm_effect_locks emit_run_bus)
    (rule order_trans [OF _ fsm_effect_uuids], rule order_trans [OF _ emit_run_uuids], simp)

lemma admitted_inv:
  assumes s: "rt_inv E s" and fresh: "rt_heap s (rr_id run) = None"
    and id: "rr_id run \<in> env_uuids E ` {..<uuids_of s}"
    and run: "wf_run run" "rr_state run = CREATED" "rr_input run = i" "rr_kind run = k"
      "\<forall>sid. ss = Some sid \<longrightarrow> sid \<noteq> [] \<longrightarrow> rr_session_id run = sid"
    and key: "\<forall>c. key = Some c \<longrightarrow> dict_get (rt_idem s) c = None"
    and q: "\<not> queue_full (rt_queue s)"
    and room: "int (length (rt_runs s)) + 1 \<le> cf_max_run_records (env_config E)"
  shows "rt_inv E (admitted E now run i k ss key s)" (is "rt_inv E ?s")
proof -
  note inv = rt_inv0D [OF rt_invD(1) [OF s]] and lv = rt_invD(2) [OF s]
  let ?rid = "rr_id run"
  have new: "run_state_of s ?rid = None" using fresh by (simp add: run_state_of_def)
  have reg: "set (rt_runs s) \<subseteq> dom (rt_heap s)" using inv(2) by (simp add: inv_registry_def)
  then have unreg: "?rid \<notin> set (rt_runs s)" using fresh by blast
  have wf: "wf_run (apply_record now CREATED READY ''accepted'' run)"
    using wf_apply_record [OF run(1), of READY now "''accepted''"] run(2) by (simp add: legal_simps)
  have mono: "env_uuids E ` {..<uuids_of s} \<subseteq> env_uuids E ` {..<uuids_of ?s}"
    using admitted_world(3) [of s E now run i k ss key] by auto
  have link: "dict_get (rt_idem_by_run s) j = Some d \<longleftrightarrow> (\<exists>p. dict_get (rt_idem s) d = Some (j, p))" for j d
    using inv(3) unfolding inv_idem_def by blast
  have src: "j \<in> set (rt_runs s) \<and> (\<exists>r. rt_heap s j = Some r \<and> rr_input r = inp \<and> rr_kind r = kd \<and>
      (\<forall>sid. se = Some sid \<longrightarrow> sid \<noteq> [] \<longrightarrow> rr_session_id r = sid))"
    if "dict_get (rt_idem s) d = Some (j, inp, kd, se)" for d j inp kd se
    using inv(3) that unfolding inv_idem_def by blast
  have "rt_inv0 E ?s"
  proof (rule rt_inv0I)
    show "inv_objects E ?s"
      unfolding inv_objects_def admitted_fields
    proof (intro conjI allI impI)
      fix rid r
      assume "((rt_heap s)(?rid \<mapsto> apply_record now (rr_state run) READY ''accepted'' run)) rid = Some r"
      then show "rr_id r = rid" "wf_run r"
        using inv_objects_run_id [OF inv(1)] wf run(2) by (auto split: if_splits)
    next
      have "dom (rt_heap s) \<subseteq> env_uuids E ` {..<uuids_of s}" using inv(1) by (simp add: inv_objects_def)
      then show "dom ((rt_heap s)(?rid \<mapsto> apply_record now (rr_state run) READY ''accepted'' run))
          \<subseteq> env_uuids E ` {..<uuids_of ?s}"
        using subsetD [OF mono id] mono by (simp add: order_trans)
    qed
    show "inv_registry ?s"
      using inv(2) unreg by (auto simp: inv_registry_def)
    show "inv_idem ?s"
    proof (cases key)
      case None
      have "rid' \<noteq> ?rid" if "dict_get (rt_idem s) d = Some (rid', inp, kd, se)" for d rid' inp kd se
        using src [OF that] unreg by auto
      then show ?thesis
        unfolding inv_idem_def admitted_fields None option.case using link src by (simp, blast)
    next
      case (Some c)
      have free: "dict_get (rt_idem s) c = None" using key Some by blast
      show ?thesis
        unfolding inv_idem_def admitted_fields Some option.case dict_get_set
      proof (intro conjI allI impI)
        fix d j
        show "((dict_get (rt_idem_by_run s))(?rid \<mapsto> c)) j = Some d \<longleftrightarrow>
            (\<exists>p. ((dict_get (rt_idem s))(c \<mapsto> (?rid, i, k, ss))) d = Some (j, p))"
        proof (cases "j = ?rid")
          case True
          have "dict_get (rt_idem s) d \<noteq> Some (?rid, p)" for p
            using src [of d ?rid "fst p" "fst (snd p)" "snd (snd p)"] unreg by auto
          then show ?thesis using True by auto
        next
          case False
          then show ?thesis using link [of j d] free by auto
        qed
      next
        fix d j inp kd se
        assume "((dict_get (rt_idem s))(c \<mapsto> (?rid, i, k, ss))) d = Some (j, inp, kd, se)"
        then consider "j = ?rid" "inp = i" "kd = k" "se = ss" | "dict_get (rt_idem s) d = Some (j, inp, kd, se)"
          by (cases "d = c") simp_all
        then have "j \<in> insert ?rid (set (rt_runs s)) \<and>
          (\<exists>r. ((rt_heap s)(?rid \<mapsto> apply_record now (rr_state run) READY ''accepted'' run)) j = Some r
             \<and> rr_input r = inp \<and> rr_kind r = kd \<and>
             (\<forall>sid. se = Some sid \<longrightarrow> sid \<noteq> [] \<longrightarrow> rr_session_id r = sid))"
        proof cases
          case 2
          then show ?thesis using src [OF 2] unreg by auto
        qed (use run in simp)
        then show "j \<in> set (if ?rid \<in> set (rt_runs s) then rt_runs s else rt_runs s @ [?rid])"
          and "\<exists>r. ((rt_heap s)(?rid \<mapsto> apply_record now (rr_state run) READY ''accepted'' run)) j = Some r
             \<and> rr_input r = inp \<and> rr_kind r = kd \<and>
             (\<forall>sid. se = Some sid \<longrightarrow> sid \<noteq> [] \<longrightarrow> rr_session_id r = sid)"
          by auto
      qed
    qed
    show "inv_sched ?s"
      using inv(4) sched_enqueue [of "run_state_of s" "qids s" "rt_execs s" ?rid] new
      by (simp add: inv_sched_def)
    show "inv_workers E ?s" using inv(5) by (simp add: inv_workers_def)
    show "inv_queue E ?s" using inv(6) q by (rule inv_queue_put) simp_all
    show "inv_bound E ?s" using room unreg by (simp add: inv_bound_def)
    show "inv_world ?s" using inv(7) by (simp add: inv_world_def admitted_world)
  qed
  moreover have "inv_live ?s"
  proof -
    have "exec_run s tid \<noteq> ?rid" if "rt_closed s" "live (rt_execs s) tid" for tid
      using inv_liveD(2) [OF lv that] new by auto
    then show ?thesis unfolding inv_live_def admitted_fields using inv_liveD [OF lv] by auto
  qed
  ultimately show ?thesis by (simp add: rt_inv_def)
qed

lemma uuid_world:
  "w_uuids (snd (session_for E ss w)) \<ge> w_uuids w"
  "w_bus (snd (session_for E ss w)) = w_bus w" "w_metrics (snd (session_for E ss w)) = w_metrics w"
  by (simp_all add: session_for_def split: option.split)

lemma admit_inv:
  assumes valid: "runtime_validate (env_config E) = Inr ()" and u: "uuids_ok E"
    and s: "rt_inv E s" and c: "\<not> rt_closed s" and inp: "\<not> blank input"
    and key: "\<forall>k. key = Some k \<longrightarrow> dict_get (rt_idem s) k = None"
    and room: "int (length (rt_runs s)) + 1 \<le> cf_max_run_records (env_config E)
      \<or> (\<forall>rid \<in> set (rt_runs s). unfinished s rid)"
  shows "rt_inv E (snd (admit E now input kind ss key s))"
proof (cases "queue_full (rt_queue s)")
  case True
  then show ?thesis using s by (simp add: admit_def rejected_def Let_def rt_inv_incr)
next
  case q: False
  obtain run sid w where w: "session_for E ss (snd (uuid4 (env_uuids E) (rt_world s))) = (sid, w)"
    and run: "mk_run_record (env_uuids E (uuids_of s)) input kind sid (env_uuids E (w_uuids w)) now = Inr run"
    and eq: "admit E now input kind ss key s = (Inr (rr_id run),
      admitted E now run input kind ss key (s\<lparr>rt_world := snd (uuid4 (env_uuids E) w)\<rparr>))"
    using admit_eq [OF u q inp] by blast
  note r = mk_run_record_Inr [OF run]
  let ?s = "s\<lparr>rt_world := snd (uuid4 (env_uuids E) w)\<rparr>"
  have wf: "w_uuids w \<ge> Suc (uuids_of s)" "w_bus w = bus_of s"
    "w_metrics w = w_metrics (rt_world s)"
    using uuid_world [where w = "snd (uuid4 (env_uuids E) (rt_world s))" and E = E and ss = ss] w
    by simp_all
  have s': "rt_inv E ?s"
    using wf rt_inv_world [OF s] by (intro rt_inv_cong [OF s]) (simp_all add: active_def)
  have "env_uuids E (uuids_of s) \<notin> env_uuids E ` {..<uuids_of s}"
    using u by (auto simp: uuids_ok_def dest: injD)
  then have fresh: "rt_heap ?s (rr_id run) = None"
    using rt_inv0D(1) [OF rt_invD(1) [OF s]] r by (auto simp: inv_objects_def)
  have "rt_inv E (admitted E now run input kind ss key ?s)"
  proof (rule admitted_inv [OF s' fresh])
    show "rr_id run \<in> env_uuids E ` {..<uuids_of ?s}" using r wf by simp
    show "wf_run run" using run by (rule wf_run_new)
    show "rr_state run = CREATED" "rr_input run = input" "rr_kind run = kind" using r by simp_all
    show "\<forall>sid. ss = Some sid \<longrightarrow> sid \<noteq> [] \<longrightarrow> rr_session_id run = sid"
      using r w by (auto simp: session_for_def)
    show "\<forall>c. key = Some c \<longrightarrow> dict_get (rt_idem ?s) c = None" using key by simp
    show "\<not> queue_full (rt_queue ?s)" using q by simp
    show "int (length (rt_runs ?s)) + 1 \<le> cf_max_run_records (env_config E)"
      using admission_room [OF valid s c q room] by simp
  qed
  then show ?thesis by (simp add: eq)
qed

lemma idem_replay_cases:
  assumes s: "rt_inv E s"
  shows "idem_replay input kind ss key s =
    (case key of None \<Rightarrow> (None, s)
     | Some k \<Rightarrow>
        (case dict_get (rt_idem s) k of
           None \<Rightarrow> (None, s)
         | Some (rid, request) \<Rightarrow>
             if request = (input, kind, ss)
             then (Some (Inr rid), incr ''idempotency_replays_total'' 1 s)
             else (Some (Inl (IdempotencyConflictError
                     ''idempotency key was already used with a different request'')), s)))"
proof (cases key)
  case (Some k)
  show ?thesis
  proof (cases "dict_get (rt_idem s) k")
    case found: (Some e)
    obtain rid i kd se where e: "e = (rid, i, kd, se)" by (cases e)
    have "rid \<in> set (rt_runs s)" "\<exists>r. rt_heap s rid = Some r"
      using rt_inv0D(3) [OF rt_invD(1) [OF s]] found e unfolding inv_idem_def by blast+
    then obtain r where "runs_get s rid = Some r" by (auto simp: runs_get_def)
    then show ?thesis using Some found e by (auto simp: idem_replay_def)
  qed (simp add: Some idem_replay_def)
qed (simp add: idem_replay_def)

lemma runtime_start_closed: "rt_closed (snd (runtime_start E s)) = rt_closed s"
  by (simp add: runtime_start_def Let_def)

text \<open>\<open>submit\<close>, branch by branch.\<close>

lemma submit_eq:
  assumes s: "rt_inv E s" and c: "\<not> rt_closed s"
  shows "submit E now text kind ss key s =
    (let input = strip text; s1 = snd (runtime_start E s); s2 = cleanup_runs E now 1 s1 in
     if input = [] then (Inl (ValueError ''run input must not be empty''), s)
     else case submit_kind kind of
       Inl e \<Rightarrow> (Inl e, s1)
     | Inr kd \<Rightarrow>
        if \<exists>k. key = Some k \<and> (k = [] \<or> 128 < length k)
        then (Inl (ValueError ''idempotency key must contain 1 to 128 characters''), s1)
        else case Option.bind key (dict_get (rt_idem s2)) of
          None \<Rightarrow> admit E now input kd ss key s2
        | Some (rid, request) \<Rightarrow>
            if request = (input, kd, ss)
            then (Inr rid, incr ''idempotency_replays_total'' 1 s2)
            else (Inl (IdempotencyConflictError
                    ''idempotency key was already used with a different request''), s2))"
proof -
  have "rt_inv E (snd (runtime_start E s))" using s by (rule runtime_start_inv)
  then have i: "rt_inv E (cleanup_runs E now 1 (snd (runtime_start E s)))" by (rule cleanup_runs_inv)
  have r: "runtime_start E s = (Inr (), snd (runtime_start E s))"
    using c by (simp add: runtime_start_def Let_def)
  show ?thesis
    by (subst submit_def, subst r)
      (simp add: Let_def idem_replay_cases [OF i] split: option.split sum.split prod.split)
qed

lemma submit_inv [inv_intros]:
  assumes valid: "runtime_validate (env_config E) = Inr ()" and u: "uuids_ok E" and s: "rt_inv E s"
  shows "rt_inv E (snd (submit E now text kind ss key s))"
proof (cases "rt_closed s")
  case True
  then show ?thesis using s by (auto simp: submit_def Let_def runtime_start_def)
next
  case c: False
  let ?s1 = "snd (runtime_start E s)" and ?s2 = "cleanup_runs E now 1 (snd (runtime_start E s))"
  have i1: "rt_inv E ?s1" using s by (rule runtime_start_inv)
  note k = cleanup_runs_inv [OF i1, of now 1]
  have c2: "\<not> rt_closed ?s2" using c k(2) by (simp add: runtime_start_closed)
  have "rt_inv E (snd (admit E now (strip text) kd ss key ?s2))"
    if "strip text \<noteq> []" "Option.bind key (dict_get (rt_idem ?s2)) = None" for kd
    using that by (intro admit_inv [OF valid u k(1) c2 _ _ k(7)]) auto
  then show ?thesis
    unfolding submit_eq [OF s c] Let_def
    using s i1 k(1) by (auto intro: rt_inv_incr split: sum.split option.split)
qed

subsection \<open>Reachable states\<close>

lemma runtime_new_valid: "runtime_new E b = Inr s \<Longrightarrow> runtime_validate (env_config E) = Inr ()"
  by (simp add: runtime_new_def split: sum.splits)

lemma reachable_valid: "reachable E s \<Longrightarrow> runtime_validate (env_config E) = Inr ()"
  by (induction rule: reachable.induct) (simp_all add: runtime_new_valid)

lemma rt_step_inv:
  assumes "rt_step E s s'" and "rt_inv E s" and "runtime_validate (env_config E) = Inr ()"
    and "uuids_ok E"
  shows "rt_inv E s'"
  using assms by (cases rule: rt_step.cases) (auto intro: inv_intros rt_inv_bus)

theorem reachable_inv:
  assumes "reachable E s" and "uuids_ok E"
  shows "rt_inv E s"
  using assms
proof (induction rule: reachable.induct)
  case (init b s)
  then show ?case by (simp add: rt_inv_new)
next
  case (step s s')
  then show ?case using rt_step_inv reachable_valid by blast
qed

end
