(* ===== verification/Runtime_Scenarios.thy ===== *)
theory Runtime_Scenarios
  imports Runtime_Reachable
begin

section \<open>Scripts of actions, and a concrete runtime\<close>

text \<open>
  The step relation as a function of what happens next: an \<open>action\<close> names a call of a client, a
  step of a worker or of an execution task, or an answer of the environment, with its arguments.
  \<open>perform_all\<close> executes a script of actions, and every state a script produces is reachable, so
  concrete executions can be evaluated.
\<close>

datatype action =
    Do_start
  | Do_submit time string "string + agent_kind" "string option" "string option"
  | Do_cancel time string
  | Do_retry time string
  | Do_close time
  | Do_close_end
  | Do_pick nat
  | Do_resume nat
  | Do_worker_cancelled nat
  | Do_exec time nat
  | Do_drive time nat
  | Do_llm time nat "exn + llm_response"
  | Do_tool time nat "exn + string"
  | Do_finish time nat
  | Do_timeout time nat
  | Do_cancelled time nat
  | Do_bus bus_op

fun perform :: "env \<Rightarrow> action \<Rightarrow> runtime \<Rightarrow> runtime option" where
  "perform E Do_start s = Some (snd (runtime_start E s))"
| "perform E (Do_submit now text kind ss key) s = Some (snd (submit E now text kind ss key s))"
| "perform E (Do_cancel now rid) s = Some (snd (cancel E now rid s))"
| "perform E (Do_retry now rid) s = Some (snd (retry E now rid s))"
| "perform E (Do_close now) s = Some (snd (close_begin E now s))"
| "perform E Do_close_end s = close_end s"
| "perform E (Do_pick i) s = worker_pick i s"
| "perform E (Do_resume i) s = worker_resume i s"
| "perform E (Do_worker_cancelled i) s = worker_cancelled i s"
| "perform E (Do_exec now tid) s = exec_start E now tid s"
| "perform E (Do_drive now tid) s = exec_drive E now tid s"
| "perform E (Do_llm now tid r) s = llm_return E now tid r s"
| "perform E (Do_tool now tid r) s = tool_return E now tid r s"
| "perform E (Do_finish now tid) s = exec_finish E now tid s"
| "perform E (Do_timeout now tid) s = exec_timeout E now tid s"
| "perform E (Do_cancelled now tid) s = exec_cancelled E now tid s"
| "perform E (Do_bus x) s = Some (s\<lparr>rt_world := bus_exec (env_uuids E) x (rt_world s)\<rparr>)"

fun perform_all :: "env \<Rightarrow> action list \<Rightarrow> runtime \<Rightarrow> runtime option" where
  "perform_all E [] s = Some s"
| "perform_all E (a # as) s =
     (case perform E a s of None \<Rightarrow> None | Some s' \<Rightarrow> perform_all E as s')"

lemma perform_step: "perform E a s = Some s' \<Longrightarrow> rt_step E s s'"
  by (cases a) (auto intro: rt_step.intros)

lemma step_perform:
  assumes "rt_step E s s'" shows "\<exists>a. perform E a s = Some s'"
  using assms
  by (cases rule: rt_step.cases)
    (simp_all only:, (rule exI, rule perform.simps | rule exI, rule trans, rule perform.simps, assumption)+)

lemma rt_step_iff: "rt_step E s s' \<longleftrightarrow> (\<exists>a. perform E a s = Some s')"
  using perform_step step_perform by blast

lemma perform_all_reachable:
  "reachable E s \<Longrightarrow> perform_all E as s = Some s' \<Longrightarrow> reachable E s'"
  by (induction as arbitrary: s)
    (auto split: option.splits intro: reachable.step [OF _ perform_step])

lemma reachable_script:
  "reachable E s \<longleftrightarrow> (\<exists>b s0 as. wf_bus b \<and> runtime_new E b = Inr s0 \<and> perform_all E as s0 = Some s)"
proof
  have snoc: "perform_all E (as @ [a]) s = Option.bind (perform_all E as s) (perform E a)" for as a s
    by (induction as arbitrary: s) (auto split: option.split)
  assume "reachable E s"
  then show "\<exists>b s0 as. wf_bus b \<and> runtime_new E b = Inr s0 \<and> perform_all E as s0 = Some s"
  proof (induction rule: reachable.induct)
    case (init b s)
    then show ?case by (metis perform_all.simps(1))
  next
    case (step s s')
    then obtain b s0 as a where "wf_bus b" "runtime_new E b = Inr s0" "perform_all E as s0 = Some s"
      "perform E a s = Some s'"
      by (auto simp: rt_step_iff)
    then have "perform_all E (as @ [a]) s0 = Some s'" by (simp add: snoc)
    then show ?case using \<open>wf_bus b\<close> \<open>runtime_new E b = Inr s0\<close> by blast
  qed
qed (auto intro: perform_all_reachable reachable.init)

text \<open>A small runtime: one worker, two queue places, three retained runs, and a simple codec.\<close>

definition small_config :: runtime_config where
  "small_config = runtime_defaults\<lparr>cf_max_concurrency := 1, cf_queue_capacity := 2,
     cf_max_run_records := 3\<rparr>"

definition small_env :: env where
  "small_env = \<lparr>env_config = small_config, env_uuids = (\<lambda>n. replicate (Suc n) CHR ''u''),
     env_codec = \<lparr>cd_loads = (\<lambda>_. None), cd_dumps = (\<lambda>_. []), cd_repr = (\<lambda>_. [])\<rparr>,
     env_tools = []\<rparr>"

definition small_bus :: event_bus where
  "small_bus = projr (bus_new 10)"

definition small_start :: runtime where
  "small_start = projr (runtime_new small_env small_bus)"

lemma small_uuids_ok: "uuids_ok small_env"
  by (auto simp: uuids_ok_def small_env_def inj_def dest: arg_cong [of _ _ length])

lemma wf_small_bus: "wf_bus small_bus"
proof -
  have "bus_new 10 = Inr small_bus" by (simp add: small_bus_def bus_new_def audit_new_def)
  then show ?thesis by (rule wf_bus_new)
qed

lemma small_new: "runtime_new small_env small_bus = Inr small_start"
proof -
  have "\<exists>s. runtime_new small_env small_bus = Inr s"
    by (simp add: runtime_new_def small_env_def small_config_def runtime_defaults_def
        runtime_validate_def Let_def session_store_new_def queue_new_def)
  then show ?thesis by (auto simp: small_start_def)
qed

lemma small_reachable: "perform_all small_env as small_start = Some s \<Longrightarrow> reachable small_env s"
  by (rule perform_all_reachable [OF reachable.init [OF wf_small_bus small_new]])

end
