(* ===== verification/Runtime_Steps.thy ===== *)
theory Runtime_Steps
  imports Runtime_Scenarios
begin

section \<open>What the steps of the runtime do\<close>

text \<open>
  When a step is enabled and what it does to the part of the state that decides what happens next:
  the states of the runs, the queue, the workers and the tasks. Metrics, events and time stamps are
  left aside. Chaining these lemmas gives concrete executions without evaluating metric names and
  event payloads.
\<close>

lemma submit_accepts:
  assumes s: "rt_inv E s" and u: "uuids_ok E" and c: "\<not> rt_closed s"
    and inp: "strip text \<noteq> []" and q: "\<not> queue_full (rt_queue s)"
  shows "\<exists>rid s' r. submit E now text (Inr kd) ss None s = (Inr rid, s')
    \<and> rid = env_uuids E (uuids_of s)
    \<and> run_state_of s' = (run_state_of s)(rid \<mapsto> READY) \<and> rt_heap s' rid = Some r
    \<and> rr_input r = strip text \<and> rr_kind r = kd \<and> rid \<in> set (rt_runs s')
    \<and> qids s' = qids s @ [rid]
    \<and> rt_workers s' = rt_workers (snd (runtime_start E s)) \<and> rt_execs s' = rt_execs s
    \<and> rt_tasks s' = rt_tasks s \<and> \<not> rt_closed s'"
proof -
  let ?s1 = "snd (runtime_start E s)" and ?s2 = "cleanup_runs E now 1 (snd (runtime_start E s))"
  have i1: "rt_inv E ?s1" using s by (rule runtime_start_inv)
  note k = cleanup_runs_inv [OF i1, of now 1]
  have f1: "uuids_of ?s1 = uuids_of s" "rt_queue ?s1 = rt_queue s" "rt_heap ?s1 = rt_heap s"
    "rt_execs ?s1 = rt_execs s" "rt_tasks ?s1 = rt_tasks s"
    by (simp_all add: runtime_start_def Let_def set_gauge_def)
  have fold: "uuids_of (fold evict xs t) = uuids_of t" "rt_workers (fold evict xs t) = rt_workers t"
    "rt_execs (fold evict xs t) = rt_execs t" "rt_tasks (fold evict xs t) = rt_tasks t" for xs t
    by (induction xs arbitrary: t) simp_all
  have f2: "uuids_of ?s2 = uuids_of s" "rt_workers ?s2 = rt_workers ?s1"
    "rt_execs ?s2 = rt_execs s" "rt_tasks ?s2 = rt_tasks s" "rt_queue ?s2 = rt_queue s"
    using f1 k(4) by (simp_all add: cleanup_runs_def fold)
  have st2: "run_state_of ?s2 = run_state_of s"
    by (rule state_heap_cong) (simp add: k(5) f1)
  obtain run sid w where
    w: "mk_run_record (env_uuids E (uuids_of ?s2)) (strip text) kd sid (env_uuids E (w_uuids w)) now = Inr run"
    and ad: "admit E now (strip text) kd ss None ?s2 = (Inr (rr_id run),
      admitted E now run (strip text) kd ss None (?s2\<lparr>rt_world := snd (uuid4 (env_uuids E) w)\<rparr>))"
    using admit_eq [OF u, of ?s2 "strip text" ss kd now None] q f2 inp by auto
  note r = mk_run_record_Inr [OF w]
  have "submit E now text (Inr kd) ss None s = admit E now (strip text) kd ss None ?s2"
    using inp by (simp add: submit_eq [OF s c] Let_def submit_kind_def)
  then show ?thesis
    using ad r f2 st2 c k(2) by (auto simp: runtime_start_closed)
qed

lemma worker_pick_starts:
  assumes s: "rt_inv E s" and i: "i < length (rt_workers s)" "wk_pc (rt_workers s ! i) = W_idle"
    "\<not> wk_cancel (rt_workers s ! i)"
    and q: "qids s = rid # rest" and st: "run_state_of s rid = Some READY"
  shows "\<exists>s'. worker_pick i s = Some s' \<and> rt_heap s' = rt_heap s \<and> qids s' = rest
    \<and> rt_execs s' = rt_execs s @ [\<lparr>et_run = rid, et_pc = Not_started, et_cancel = False, et_began = 0\<rparr>]
    \<and> rt_tasks s' = dict_set rid (length (rt_execs s)) (rt_tasks s)
    \<and> rt_workers s' = (rt_workers s)[i := (rt_workers s ! i)\<lparr>wk_pc := W_busy rid (length (rt_execs s))\<rparr>]
    \<and> rt_closed s' = rt_closed s \<and> rt_runs s' = rt_runs s \<and> rt_sessions s' = rt_sessions s"
proof -
  obtain task items where t: "tq_items (rt_queue s) = task # items" "task_run_id task = rid"
    using q by auto
  have "runs_get s rid = rt_heap s rid" using queued_state [OF s, of rid] q st by auto
  moreover obtain run where run: "rt_heap s rid = Some run" "rr_state run = READY"
    using st by (auto simp: run_state_of_def)
  moreover have "rr_id run = rid"
    using inv_objects_run_id [OF rt_inv0D(1) [OF rt_invD(1) [OF s]] run(1)] by simp
  ultimately show ?thesis
    using i t q by (auto simp: worker_pick_def queue_get_def Let_def runs_get_def split: if_splits)
qed

lemma exec_start_runs:
  assumes tid: "exec_at s tid = Some Not_started" "\<not> et_cancel (rt_execs s ! tid)"
    and st: "run_state_of s (exec_run s tid) = Some READY"
  shows "\<exists>s' r. exec_start E now tid s = Some s'
    \<and> run_state_of s' = (run_state_of s)(exec_run s tid \<mapsto> RUNNING)
    \<and> rt_heap s' (exec_run s tid) = Some r
    \<and> rt_execs s' = (rt_execs s)[tid := (rt_execs s ! tid)\<lparr>et_pc :=
         Driving (pattern_run (env_codec E) (rr_kind r) (exec_context E r s)), et_began := now\<rparr>]
    \<and> rr_kind r = rr_kind (the (rt_heap s (exec_run s tid)))
    \<and> rr_input r = rr_input (the (rt_heap s (exec_run s tid)))
    \<and> rr_session_id r = rr_session_id (the (rt_heap s (exec_run s tid)))
    \<and> rt_workers s' = rt_workers s \<and> qids s' = qids s \<and> rt_tasks s' = rt_tasks s
    \<and> rt_closed s' = rt_closed s \<and> rt_runs s' = rt_runs s \<and> rt_sessions s' = rt_sessions s"
proof -
  have l: "tid < length (rt_execs s)" using tid(1) by (simp add: exec_at_def split: if_splits)
  obtain r where r: "rt_heap s (exec_run s tid) = Some r" "rr_state r = READY"
    using st by (auto simp: run_state_of_def)
  show ?thesis
    using tid l r
    by (simp add: exec_start_def Let_def run_state_of_def fsm_transition_eq may_move_def legal_simps
        fsm_effect_heap exec_context_def fun_eq_iff)
qed

lemma exec_drive_waits:
  assumes tid: "exec_at s tid = Some (Driving (Complete req st k))"
    and run: "run_state_of s (exec_run s tid) = Some RUNNING"
  shows "\<exists>s'. exec_drive E now tid s = Some s'
    \<and> run_state_of s' = (run_state_of s)(exec_run s tid \<mapsto> WAITING)
    \<and> rt_execs s' = (rt_execs s)[tid := (rt_execs s ! tid)\<lparr>et_pc := At_llm st k now\<rparr>]
    \<and> rt_workers s' = rt_workers s \<and> qids s' = qids s \<and> rt_tasks s' = rt_tasks s
    \<and> rt_closed s' = rt_closed s \<and> rt_runs s' = rt_runs s \<and> rt_sessions s' = rt_sessions s"
  using assms
  by (auto simp: exec_drive_defs Let_def fsm_transition_eq may_move_def legal_simps run_state_of_def)

lemma llm_return_resumes:
  assumes tid: "exec_at s tid = Some (At_llm st k began)"
    and run: "run_state_of s (exec_run s tid) = Some WAITING"
  shows "\<exists>s'. llm_return E now tid (Inr response) s = Some s'
    \<and> run_state_of s' = (run_state_of s)(exec_run s tid \<mapsto> RUNNING)
    \<and> rt_execs s' = (rt_execs s)[tid := (rt_execs s ! tid)\<lparr>et_pc := Driving (k response)\<rparr>]
    \<and> rt_workers s' = rt_workers s \<and> qids s' = qids s \<and> rt_tasks s' = rt_tasks s
    \<and> rt_closed s' = rt_closed s \<and> rt_runs s' = rt_runs s \<and> rt_sessions s' = rt_sessions s"
proof -
  have "run_state_of (add_step i e s) = run_state_of s" for i e
    by (simp add: add_step_def)
  moreover have "rt_workers (add_step i e s) = rt_workers s" "rt_queue (add_step i e s) = rt_queue s"
    "rt_tasks (add_step i e s) = rt_tasks s" "rt_closed (add_step i e s) = rt_closed s"
    "rt_runs (add_step i e s) = rt_runs s" "rt_sessions (add_step i e s) = rt_sessions s" for i e
    by (simp_all add: add_step_def)
  ultimately show ?thesis
    using tid run
    by (auto simp: llm_return_def exec_resume_def Let_def back_to_running_def fsm_if_current_eq
        legal_simps)
qed

lemma exec_drive_returns:
  assumes "exec_at s tid = Some (Driving (Ret output))"
  shows "exec_drive E now tid s = Some (set_exec tid (Pattern_done (Inr output)) s)"
  using assms by (simp add: exec_drive_defs Let_def)

lemma exec_finish_succeeds:
  assumes s: "rt_inv E s" and tid: "exec_at s tid = Some (Pattern_done (Inr output))"
    and run: "rt_heap s (exec_run s tid) = Some r" "rr_state r = RUNNING"
    and out: "\<not> blank output" and reg: "exec_run s tid \<in> set (rt_runs s)"
  shows "\<exists>s' r'. exec_finish E now tid s = Some s'
    \<and> run_state_of s' = (run_state_of s)(exec_run s tid \<mapsto> SUCCEEDED)
    \<and> rt_heap s' (exec_run s tid) = Some r' \<and> rr_output r' = Some output
    \<and> dict_get (rt_completion s') (exec_run s tid) = Some True
    \<and> rt_execs s' = (rt_execs s)[tid := (rt_execs s ! tid)\<lparr>et_pc := Exec_done Returned\<rparr>]
    \<and> rt_workers s' = rt_workers s \<and> qids s' = qids s \<and> rt_tasks s' = rt_tasks s
    \<and> rt_closed s' = rt_closed s \<and> rt_runs s' = rt_runs s
    \<and> rt_sessions s' = snd (append_turn (rr_session_id r) (rr_input r) output (rt_sessions s))"
proof -
  let ?rid = "exec_run s tid"
  note inv = rt_inv0D [OF rt_invD(1) [OF s]]
  have inp: "\<not> blank (rr_input r)" using inv_objects_run_id [OF inv(1) run(1)] by (simp add: wf_run_def)
  obtain ss where ap: "append_turn (rr_session_id r) (rr_input r) output (rt_sessions s) = (Inr (), ss)"
    using inp out by (simp add: append_turn_cases Let_def)
  have key: "?rid \<in> fst ` set (rt_completion s)" using inv(2) reg by (simp add: inv_registry_def)
  have "exec_finish E now tid s = Some (exec_success E now tid output s)"
    using tid by (simp add: exec_finish_def)
  moreover have "\<exists>s' r'. exec_success E now tid output s = s'
    \<and> run_state_of s' = (run_state_of s)(?rid \<mapsto> SUCCEEDED)
    \<and> rt_heap s' ?rid = Some r' \<and> rr_output r' = Some output
    \<and> dict_get (rt_completion s') ?rid = Some True
    \<and> rt_execs s' = (rt_execs s)[tid := (rt_execs s ! tid)\<lparr>et_pc := Exec_done Returned\<rparr>]
    \<and> rt_workers s' = rt_workers s \<and> qids s' = qids s \<and> rt_tasks s' = rt_tasks s
    \<and> rt_closed s' = rt_closed s \<and> rt_runs s' = rt_runs s
    \<and> rt_sessions s' = snd (append_turn (rr_session_id r) (rr_input r) output (rt_sessions s))"
    using run key ap
    by (simp add: exec_success_def Let_def fsm_if_current_eq legal_simps run_state_of_def
        exec_finally_def completion_put_eq fsm_effect_heap fun_eq_iff)
  ultimately show ?thesis by simp
qed

lemma worker_resume_done:
  assumes s: "rt_inv E s" and i: "i < length (rt_workers s)"
    and w: "wk_pc (rt_workers s ! i) = W_busy rid tid"
    and d: "et_pc (rt_execs s ! tid) = Exec_done res"
  shows "\<exists>s'. worker_resume i s = Some s' \<and> rt_heap s' = rt_heap s \<and> rt_execs s' = rt_execs s
    \<and> rt_tasks s' = dict_pop rid (rt_tasks s) \<and> qids s' = qids s
    \<and> rt_workers s' = (rt_workers s)[i := (rt_workers s ! i)\<lparr>wk_pc :=
          if res = Returned then W_idle else W_dead\<rparr>]
    \<and> rt_runs s' = rt_runs s \<and> rt_closed s' = rt_closed s \<and> rt_completion s' = rt_completion s"
proof -
  note inv = rt_inv0D [OF rt_invD(1) [OF s]]
  have tid: "tid < length (rt_execs s)" using inv(5) i w unfolding inv_workers_def by blast
  let ?s = "s\<lparr>rt_tasks := dict_pop rid (rt_tasks s)\<rparr>" and ?b = "busy_count (rt_workers s)"
  have "0 < ?b"
    using busy_count_update [OF i, of "(rt_workers s ! i)\<lparr>wk_pc := W_idle\<rparr>"] w by simp
  then have "item_done i pc ?s = set_worker i pc (update_registry_metrics
       (?s\<lparr>rt_queue := (rt_queue ?s)\<lparr>tq_unfinished := length (tq_items (rt_queue ?s)) + (?b - 1)\<rparr>\<rparr>))"
    for pc
    using inv(6) by (intro item_done_ok) (simp_all add: inv_queue_def)
  then show ?thesis using i w d tid by (simp add: worker_resume_def)
qed

text \<open>A task that is cancelled before its first step.\<close>

lemma exec_cancelled_unstarted:
  assumes "exec_at s tid = Some Not_started" and "et_cancel (rt_execs s ! tid)"
  shows "exec_cancelled E now tid s = Some (set_exec tid (Exec_done Cancelled_task) s)"
  using assms by (simp add: exec_cancelled_def exec_at_def split: if_splits)

end
