(* ===== verification/Runtime_History.thy ===== *)
theory Runtime_History
  imports Runtime_Steps "HOL-Library.Sublist"
begin

section \<open>Run records only grow\<close>

text \<open>
  No step of the runtime forgets a run object or rewrites what it has recorded: identity, input,
  kind, session, trace and creation time stay, and the transition history and the steps are only
  appended to. Each building block is shown to extend the heap in this sense; the operations are
  compositions of them.
\<close>

definition grows :: "run_record \<Rightarrow> run_record \<Rightarrow> bool" where
  "grows r r' \<longleftrightarrow> rr_id r' = rr_id r \<and> rr_input r' = rr_input r \<and> rr_kind r' = rr_kind r
     \<and> rr_session_id r' = rr_session_id r \<and> rr_trace_id r' = rr_trace_id r
     \<and> rr_created_at r' = rr_created_at r
     \<and> prefix (rr_transitions r) (rr_transitions r') \<and> prefix (rr_steps r) (rr_steps r')"

lemma grows_refl [simp]: "grows r r"
  by (simp add: grows_def)

lemma grows_trans: "grows a b \<Longrightarrow> grows b c \<Longrightarrow> grows a c"
  unfolding grows_def by (auto intro: prefix_order.trans)

definition extends :: "runtime \<Rightarrow> runtime \<Rightarrow> bool" where
  "extends s s' \<longleftrightarrow> (\<forall>rid r. rt_heap s rid = Some r \<longrightarrow> (\<exists>r'. rt_heap s' rid = Some r' \<and> grows r r'))"

lemma extends_refl [simp]: "extends s s"
  by (simp add: extends_def)

lemma extends_trans [trans]: "extends a b \<Longrightarrow> extends b c \<Longrightarrow> extends a c"
  unfolding extends_def by (meson grows_trans)

lemma extends_heap: "rt_heap s' = rt_heap s \<Longrightarrow> extends s s'"
  by (simp add: extends_def)

lemma extends_map_run: "(\<And>r. grows r (f r)) \<Longrightarrow> extends s (map_run rid f s)"
  by (auto simp: extends_def)

lemma extends_fsm_effect: "extends s (fsm_effect E now rid t rs go s)"
  by (auto simp: extends_def fsm_effect_heap grows_def apply_record_history)

lemma extends_fsm:
  "extends s (snd (fsm_transition E now rid t rs s))"
  "extends s (snd (fsm_if_allowed E now rid t rs s))"
  by (simp_all add: fsm_transition_eq fsm_if_allowed_eq extends_fsm_effect)

lemma extends_into [intro!]:
  "extends a s \<Longrightarrow> extends a (incr k v s)"
  "extends a s \<Longrightarrow> extends a (set_gauge k v s)"
  "extends a s \<Longrightarrow> extends a (update_registry_metrics s)"
  "extends a s \<Longrightarrow> extends a (emit_run E now tp rid p s)"
  "extends a s \<Longrightarrow> extends a (set_exec tid pc s)"
  "extends a s \<Longrightarrow> extends a (set_worker i wpc s)"
  "extends a s \<Longrightarrow> extends a (task_cancel tid s)"
  by (erule extends_trans, rule extends_heap, simp)+

lemma extends_moved [intro!]: "extends a s \<Longrightarrow> extends a (fsm_effect E now rid t rs go s)"
  by (erule extends_trans) (rule extends_fsm_effect)

lemma extends_set [intro!]:
  "extends a s \<Longrightarrow> extends a (s\<lparr>rt_execs := xs\<rparr>)"
  "extends a s \<Longrightarrow> extends a (s\<lparr>rt_queue := q\<rparr>)"
  "extends a s \<Longrightarrow> extends a (s\<lparr>rt_tasks := ts\<rparr>)"
  "extends a s \<Longrightarrow> extends a (s\<lparr>rt_sessions := ss\<rparr>)"
  "extends a s \<Longrightarrow> extends a (s\<lparr>rt_completion := c\<rparr>)"
  "extends a s \<Longrightarrow> extends a (s\<lparr>rt_workers := ws\<rparr>)"
  "extends a s \<Longrightarrow> extends a (s\<lparr>rt_gathered := g\<rparr>)"
  "extends a s \<Longrightarrow> extends a (s\<lparr>rt_closed := b\<rparr>)"
  "extends a s \<Longrightarrow> extends a (s\<lparr>rt_started := b\<rparr>)"
  "extends a s \<Longrightarrow> extends a (s\<lparr>rt_world := w\<rparr>)"
  "extends a s \<Longrightarrow> extends a (s\<lparr>rt_idem := im\<rparr>)"
  by (erule extends_trans, rule extends_heap, simp)+

lemma extends_record [intro!]:
  "extends a s \<Longrightarrow> extends a (map_run rid (\<lambda>r. r\<lparr>rr_output := x\<rparr>) s)"
  "extends a s \<Longrightarrow> extends a (map_run rid (\<lambda>r. r\<lparr>rr_error := y\<rparr>) s)"
  "extends a s \<Longrightarrow> extends a (map_run rid (\<lambda>r. r\<lparr>rr_cancel_requested := b\<rparr>) s)"
  "extends a s \<Longrightarrow> extends a (map_run rid (\<lambda>r. r\<lparr>rr_error := None, rr_output := None,
      rr_finished_at := None, rr_cancel_requested := False\<rparr>) s)"
  "extends a s \<Longrightarrow> extends a (add_step rid entry s)"
  unfolding add_step_def
  by (erule extends_trans, rule extends_map_run, simp add: grows_def)+

subsection \<open>Execution tasks and workers\<close>

lemma extends_finally [intro!]: "extends a s \<Longrightarrow> extends a (exec_finally tid s)"
  by (auto simp: exec_finally_def Let_def completion_put_eq split: option.split)

lemma extends_fail [intro!]: "extends a s \<Longrightarrow> extends a (exec_fail E now tid e s)"
  by (auto simp: exec_fail_def Let_def fsm_if_allowed_eq)

lemma extends_success [intro!]:
  assumes "extends a s" shows "extends a (exec_success E now tid output s)"
proof -
  have c: "can_transition RUNNING SUCCEEDED" by (simp add: legal_simps)
  show ?thesis
    unfolding exec_success_def Let_def fsm_if_current_eq [OF c]
    using assms by (auto split: option.split prod.split sum.split simp del: map_run_fields)
qed

lemma extends_resume [intro!]: "extends a s \<Longrightarrow> extends a (exec_resume E now tid next s)"
  by (auto simp: exec_resume_def Let_def back_to_running_def fsm_if_current_eq legal_simps
      split: sum.split)

lemma extends_exec:
  "exec_start E now tid s = Some s' \<Longrightarrow> extends s s'"
  "exec_drive E now tid s = Some s' \<Longrightarrow> extends s s'"
  "llm_return E now tid r s = Some s' \<Longrightarrow> extends s s'"
  "tool_return E now tid q s = Some s' \<Longrightarrow> extends s s'"
  "exec_finish E now tid s = Some s' \<Longrightarrow> extends s s'"
  by (auto simp: exec_start_def exec_drive_defs llm_return_def tool_return_def exec_finish_def Let_def
      fsm_transition_eq split: if_splits option.splits exec_pc.splits sum.splits coro.splits)

lemma extends_interrupt: "interrupt E now tid e s = Some s' \<Longrightarrow> extends s s'"
  by (auto simp: interrupt_def back_to_running_def fsm_if_current_eq legal_simps
      split: option.splits exec_pc.splits)

lemma extends_item_done [intro!]: "extends a s \<Longrightarrow> extends a (item_done i pc s)"
  by (auto simp: item_done_def split: sum.split)

lemma extends_worker:
  "worker_pick i s = Some s' \<Longrightarrow> extends s s'"
  "worker_resume i s = Some s' \<Longrightarrow> extends s s'"
  "worker_cancelled i s = Some s' \<Longrightarrow> extends s s'"
  "exec_timeout E now tid s = Some s' \<Longrightarrow> extends s s'"
  "exec_cancelled E now tid s = Some s' \<Longrightarrow> extends s s'"
  by (auto simp: worker_pick_def worker_resume_def worker_cancelled_def exec_timeout_def
      exec_cancelled_def Let_def
      split: if_splits option.splits prod.splits worker_pc.splits exec_pc.splits
      dest: extends_interrupt)

subsection \<open>The operations of the interface\<close>

lemma extends_cancel: "extends s (snd (cancel E now rid s))"
  by (auto simp: cancel_def Let_def fsm_if_allowed_eq completion_put_eq
      split: sum.split option.split simp del: map_run_fields)

lemma extends_retry: "extends s (snd (retry E now rid s))"
  by (auto simp: retry_def rejected_def Let_def fsm_transition_eq completion_put_eq enqueue_def
      split: sum.split option.split simp del: map_run_fields)

lemma extends_close_runs: "extends s (snd (close_runs E now rids s))"
proof (induction rids arbitrary: s)
  case (Cons rid rids)
  let ?t = "fsm_effect E now rid CANCELLED ''runtime shutdown'' (may_move s rid CANCELLED) s"
  have t: "extends s (?t\<lparr>rt_completion := c\<rparr>)" for c by auto
  have "extends s (snd (close_runs E now rids (?t\<lparr>rt_completion := c\<rparr>)))" for c
    using t Cons.IH by (rule extends_trans)
  then show ?case
    using Cons.IH [of s]
    by (auto simp: fsm_if_allowed_eq completion_put_eq extends_fsm_effect split: option.split)
qed simp

lemma extends_fold: "(\<And>x t. extends t (f x t)) \<Longrightarrow> extends s (fold f xs s)"
  by (induction xs arbitrary: s) (auto intro: extends_trans)

lemma extends_close: "extends s (snd (close_begin E now s))"
proof -
  have close: "extends s (snd (close_runs E now (rt_runs s) (s\<lparr>rt_closed := True\<rparr>)))"
    by (rule extends_trans [OF _ extends_close_runs]) auto
  have "extends t (fold task_cancel xs t)" for xs t by (rule extends_fold) auto
  then have "extends s (fold task_cancel xs (snd (close_runs E now (rt_runs s) (s\<lparr>rt_closed := True\<rparr>))))"
    for xs using close by (rule extends_trans [rotated])
  then show ?thesis
    using close by (auto simp: close_begin_def Let_def split: sum.split prod.split)
qed

lemma extends_start: "extends s (snd (runtime_start E s))"
  by (auto simp: runtime_start_def Let_def)

lemma extends_cleanup: "extends s (cleanup_runs E now reserve s)"
  unfolding cleanup_runs_def by (intro extends_into extends_fold extends_heap) simp

lemma extends_admit:
  assumes "rt_heap s (env_uuids E (uuids_of s)) = None" and q: "uuids_ok E"
  shows "extends s (snd (admit E now input kind ss key s))"
proof (cases "queue_full (rt_queue s) \<or> blank input")
  case True
  then show ?thesis
    by (auto simp: admit_def rejected_def Let_def mk_run_record_def uuid4_def split: option.split)
next
  case False
  then obtain run sid w where
    "mk_run_record (env_uuids E (uuids_of s)) input kind sid (env_uuids E (w_uuids w)) now = Inr run"
    "admit E now input kind ss key s = (Inr (rr_id run),
        admitted E now run input kind ss key (s\<lparr>rt_world := snd (uuid4 (env_uuids E) w)\<rparr>))"
    using admit_eq [OF q] by blast
  then show ?thesis using assms(1) mk_run_record_Inr by (auto simp: extends_def)
qed

lemma extends_submit:
  assumes s: "rt_inv E s" and u: "uuids_ok E"
  shows "extends s (snd (submit E now text kind ss key s))"
proof (cases "rt_closed s")
  case True
  then show ?thesis by (auto simp: submit_def Let_def runtime_start_def)
next
  case c: False
  let ?s2 = "cleanup_runs E now 1 (snd (runtime_start E s))"
  have i: "rt_inv E ?s2" using s by (intro cleanup_runs_inv runtime_start_inv)
  have e: "extends s ?s2" using extends_start extends_cleanup by (rule extends_trans)
  have "env_uuids E (uuids_of ?s2) \<notin> env_uuids E ` {..<uuids_of ?s2}"
    using u by (auto simp: uuids_ok_def dest: injD)
  then have "rt_heap ?s2 (env_uuids E (uuids_of ?s2)) = None"
    using rt_inv0D(1) [OF rt_invD(1) [OF i]] by (auto simp: inv_objects_def)
  then have "extends s (snd (admit E now input kd ss key ?s2))" for input kd
    using extends_admit [OF _ u] e extends_trans by blast
  then show ?thesis
    using e extends_start unfolding submit_eq [OF s c] Let_def
    by (auto split: sum.split option.split)
qed

lemma step_extends:
  assumes "rt_step E s s'" and "rt_inv E s" and "uuids_ok E"
  shows "extends s s'"
  using assms
  by (cases rule: rt_step.cases)
    (auto intro: extends_start extends_submit extends_cancel extends_retry extends_close extends_exec
      extends_worker simp: close_end_def split: if_splits)

text \<open>A run that has succeeded or was cancelled stays as it is.\<close>

lemma step_final:
  assumes step: "rt_step E s s'" and s: "rt_inv E s" and s': "rt_inv E s'" and u: "uuids_ok E"
    and t: "run_state_of s rid = Some t" "t = SUCCEEDED \<or> t = CANCELLED"
  shows "run_state_of s' rid = Some t"
proof -
  obtain r where r: "rt_heap s rid = Some r" "rr_state r = t" using t(1) by (auto simp: run_state_of_def)
  then obtain r' where r': "rt_heap s' rid = Some r'" "grows r r'"
    using step_extends [OF step s u] by (auto simp: extends_def)
  have wf: "wf_run r" "wf_run r'"
    using inv_objects_run_id rt_inv0D(1) [OF rt_invD(1)] s s' r(1) r'(1) by blast+
  obtain us where us: "rr_transitions r' = rr_transitions r @ us"
    using r'(2) by (auto simp: grows_def prefix_def)
  then have "us = []"
    using wf r(2) t(2) by (intro replay_final [of CREATED "rr_transitions r"]) (auto simp: wf_run_def)
  then have "rr_state r' = t" using wf r(2) us by (simp add: wf_run_def)
  then show ?thesis using r' by (simp add: run_state_of_def)
qed

end
