(* ===== verification/Runtime_Example.thy ===== *)
theory Runtime_Example
  imports Runtime_History
begin

section \<open>One run, from submission to success\<close>

text \<open>
  A run of the small runtime, state by state: submitted, picked by the worker, started, waiting for
  the model, resumed, finished, and its worker idle again. The states are reachable, so they serve
  as instances of the statements about reachable states.
\<close>

abbreviation demo_run :: string where "demo_run \<equiv> ''u''"

definition demo_ready :: "runtime \<Rightarrow> bool" where
  "demo_ready s \<longleftrightarrow> reachable small_env s \<and> run_state_of s demo_run = Some READY
     \<and> demo_run \<in> set (rt_runs s) \<and> qids s = [demo_run] \<and> rt_execs s = [] \<and> \<not> rt_closed s
     \<and> rt_workers s = [\<lparr>wk_pc = W_idle, wk_cancel = False\<rparr>] \<and> rt_tasks s = []
     \<and> (\<exists>r. rt_heap s demo_run = Some r \<and> rr_kind r = SIMPLE \<and> rr_input r = ''hello'')"

text \<open>The worker has the run, whose task is at \<open>pc\<close>.\<close>

definition demo_at :: "exec_pc \<Rightarrow> run_state \<Rightarrow> runtime \<Rightarrow> bool" where
  "demo_at pc t s \<longleftrightarrow> reachable small_env s \<and> run_state_of s demo_run = Some t
     \<and> demo_run \<in> set (rt_runs s) \<and> qids s = [] \<and> \<not> rt_closed s
     \<and> (\<exists>began. rt_execs s = [\<lparr>et_run = demo_run, et_pc = pc, et_cancel = False, et_began = began\<rparr>])
     \<and> rt_workers s = [\<lparr>wk_pc = W_busy demo_run 0, wk_cancel = False\<rparr>]
     \<and> dict_get (rt_tasks s) demo_run = Some 0
     \<and> (\<exists>r. rt_heap s demo_run = Some r \<and> rr_kind r = SIMPLE \<and> rr_input r = ''hello'')"

lemma small_start_fields:
  "rt_closed small_start = False" "rt_started small_start = False" "rt_workers small_start = []"
  "rt_queue small_start = \<lparr>tq_capacity = 2, tq_items = [], tq_unfinished = 0\<rparr>"
  "rt_execs small_start = []" "rt_tasks small_start = []" "uuids_of small_start = 0"
  by (simp_all add: small_start_def runtime_new_def small_env_def small_config_def
      runtime_defaults_def runtime_validate_def Let_def session_store_new_def queue_new_def)

lemma small_concurrency: "cf_max_concurrency (env_config small_env) = 1"
  by (simp add: small_env_def small_config_def)

lemma ex_demo_ready: "\<exists>s. demo_ready s"
proof -
  have r0: "reachable small_env small_start" by (rule reachable.init [OF wf_small_bus small_new])
  have h: "strip ''hello'' = ''hello''" by code_simp
  obtain rid s r where s: "submit small_env 1 ''hello'' (Inr SIMPLE) None None small_start = (Inr rid, s)"
    "rid = env_uuids small_env (uuids_of small_start)"
    "run_state_of s = (run_state_of small_start)(rid \<mapsto> READY)" "rt_heap s rid = Some r"
    "rr_input r = strip ''hello''" "rr_kind r = SIMPLE" "rid \<in> set (rt_runs s)"
    "qids s = qids small_start @ [rid]"
    "rt_workers s = rt_workers (snd (runtime_start small_env small_start))"
    "rt_execs s = rt_execs small_start" "rt_tasks s = rt_tasks small_start" "\<not> rt_closed s"
    using submit_accepts [OF reachable_inv [OF r0 small_uuids_ok] small_uuids_ok, of "''hello''" 1 SIMPLE None]
    by (auto simp: small_start_fields queue_full_def h)
  have "reachable small_env s"
    using reachable.step [OF r0 rt_step.submit, of 1 "''hello''" "Inr SIMPLE" None None] s(1) by simp
  moreover have "rid = demo_run" using s(2) by (simp add: small_env_def small_start_fields)
  moreover have "rt_workers (snd (runtime_start small_env small_start)) =
      [\<lparr>wk_pc = W_idle, wk_cancel = False\<rparr>]"
    by (simp add: runtime_start_def Let_def small_start_fields small_concurrency)
  ultimately have "demo_ready s" using s h by (simp add: demo_ready_def small_start_fields)
  then show ?thesis by blast
qed

lemma ex_demo_picked: "\<exists>s. demo_at Not_started READY s"
proof -
  obtain s where s: "demo_ready s" using ex_demo_ready by blast
  then have i: "rt_inv small_env s" by (simp add: demo_ready_def reachable_inv small_uuids_ok)
  obtain s' where p: "worker_pick 0 s = Some s'" "rt_heap s' = rt_heap s" "qids s' = []"
    "rt_execs s' = rt_execs s @ [\<lparr>et_run = demo_run, et_pc = Not_started, et_cancel = False, et_began = 0\<rparr>]"
    "rt_tasks s' = dict_set demo_run (length (rt_execs s)) (rt_tasks s)"
    "rt_workers s' = (rt_workers s)[0 := (rt_workers s ! 0)\<lparr>wk_pc := W_busy demo_run (length (rt_execs s))\<rparr>]"
    "rt_closed s' = rt_closed s" "rt_runs s' = rt_runs s"
    using worker_pick_starts [OF i, of 0 demo_run "[]"] s by (auto simp: demo_ready_def)
  moreover have "reachable small_env s'"
    using s p(1) by (auto simp: demo_ready_def intro: reachable.step rt_step.worker_pick)
  moreover have "run_state_of s' = run_state_of s" by (rule state_heap_cong) (rule p)
  ultimately have "demo_at Not_started READY s'" using s by (simp add: demo_at_def demo_ready_def)
  then show ?thesis by blast
qed

lemma simple_hello:
  assumes "ctx_task ctx = ''hello''"
  shows "\<exists>req k. simple_run ctx = Complete req ''simple.generate'' k
    \<and> (\<forall>response. k response = Ret (resp_content response))"
proof -
  have "\<not> blank ''hello''"
    "\<not> blank ''You are a reliable assistant. Answer the current request directly and clearly.''"
    by code_simp+
  then show ?thesis
    using assms by (simp add: simple_run_def)
qed

lemma demo_atD:
  assumes "demo_at pc t s"
  shows "rt_inv small_env s" "exec_at s 0 = Some pc" "exec_run s 0 = demo_run"
    "\<not> et_cancel (rt_execs s ! 0)" "run_state_of s demo_run = Some t" "reachable small_env s"
  using assms by (auto simp: demo_at_def exec_at_def intro: reachable_inv small_uuids_ok)

lemma ex_demo_running:
  "\<exists>s req k. demo_at (Driving (Complete req ''simple.generate'' k)) RUNNING s
     \<and> (\<forall>response. k response = Ret (resp_content response))"
proof -
  obtain s where s: "demo_at Not_started READY s" using ex_demo_picked by blast
  note d = demo_atD [OF s]
  obtain r where r: "rt_heap s demo_run = Some r" "rr_kind r = SIMPLE" "rr_input r = ''hello''"
    using s by (auto simp: demo_at_def)
  obtain s' r' where p: "exec_start small_env 2 0 s = Some s'"
    "run_state_of s' = (run_state_of s)(demo_run \<mapsto> RUNNING)" "rt_heap s' demo_run = Some r'"
    "rt_execs s' = (rt_execs s)[0 := (rt_execs s ! 0)\<lparr>et_pc :=
       Driving (pattern_run (env_codec small_env) (rr_kind r') (exec_context small_env r' s)),
       et_began := 2\<rparr>]"
    "rr_kind r' = SIMPLE" "rr_input r' = ''hello''" "rt_workers s' = rt_workers s" "qids s' = qids s"
    "rt_tasks s' = rt_tasks s" "rt_closed s' = rt_closed s" "rt_runs s' = rt_runs s"
    using exec_start_runs [OF d(2,4), of small_env 2] d(3,5) r by auto
  have "reachable small_env s'" using d(6) p(1) by (auto intro: reachable.step rt_step.exec_start)
  moreover obtain req k where
    "pattern_run (env_codec small_env) (rr_kind r') (exec_context small_env r' s) =
       Complete req ''simple.generate'' k" "\<forall>response. k response = Ret (resp_content response)"
    using simple_hello [of "exec_context small_env r' s"] p(5,6) by (auto simp: exec_context_def)
  ultimately have "demo_at (Driving (Complete req ''simple.generate'' k)) RUNNING s'"
    using s p by (auto simp: demo_at_def)
  with \<open>\<forall>response. k response = Ret (resp_content response)\<close> show ?thesis by blast
qed

lemma ex_demo_waiting:
  "\<exists>s k. demo_at (At_llm ''simple.generate'' k 2) WAITING s
     \<and> (\<forall>response. k response = Ret (resp_content response))"
proof -
  obtain s req k where s: "demo_at (Driving (Complete req ''simple.generate'' k)) RUNNING s"
    and k: "\<forall>response. k response = Ret (resp_content response)" using ex_demo_running by blast
  note d = demo_atD [OF s]
  obtain s' where p: "exec_drive small_env 2 0 s = Some s'"
    "run_state_of s' = (run_state_of s)(demo_run \<mapsto> WAITING)"
    "rt_execs s' = (rt_execs s)[0 := (rt_execs s ! 0)\<lparr>et_pc := At_llm ''simple.generate'' k 2\<rparr>]"
    "rt_workers s' = rt_workers s" "qids s' = qids s" "rt_tasks s' = rt_tasks s"
    "rt_closed s' = rt_closed s" "rt_runs s' = rt_runs s"
    using exec_drive_waits [OF d(2), of small_env 2] d(3,5) by auto
  have r: "reachable small_env s'" using d(6) p(1) by (auto intro: reachable.step rt_step.exec_drive)
  have "extends s s'"
    by (rule step_extends [OF rt_step.exec_drive d(1) small_uuids_ok]) (rule p(1))
  then have "\<exists>r. rt_heap s' demo_run = Some r \<and> rr_kind r = SIMPLE \<and> rr_input r = ''hello''"
    using s by (fastforce simp: demo_at_def extends_def grows_def)
  then have "demo_at (At_llm ''simple.generate'' k 2) WAITING s'"
    using s p r by (auto simp: demo_at_def)
  with k show ?thesis by blast
qed

text \<open>The model answers, the pattern returns, and the run has succeeded.\<close>

definition demo_done :: "string \<Rightarrow> runtime \<Rightarrow> bool" where
  "demo_done output s \<longleftrightarrow> reachable small_env s \<and> run_state_of s demo_run = Some SUCCEEDED
     \<and> demo_run \<in> set (rt_runs s) \<and> (\<exists>r. rt_heap s demo_run = Some r \<and> rr_output r = Some output)
     \<and> rt_workers s = [\<lparr>wk_pc = W_busy demo_run 0, wk_cancel = False\<rparr>]
     \<and> (\<exists>began. rt_execs s = [\<lparr>et_run = demo_run, et_pc = Exec_done Returned, et_cancel = False,
          et_began = began\<rparr>]) \<and> \<not> rt_closed s \<and> qids s = []"

lemma ex_demo_done:
  fixes response :: llm_response
  assumes out: "\<not> blank (resp_content response)"
  shows "\<exists>s. demo_done (resp_content response) s"
proof -
  let ?out = "resp_content response"
  obtain s k where s: "demo_at (At_llm ''simple.generate'' k 2) WAITING s"
    and k: "k response = Ret ?out" using ex_demo_waiting by blast
  note d = demo_atD [OF s]
  obtain s1 where p1: "llm_return small_env 3 0 (Inr response) s = Some s1"
    "run_state_of s1 = (run_state_of s)(demo_run \<mapsto> RUNNING)"
    "rt_execs s1 = (rt_execs s)[0 := (rt_execs s ! 0)\<lparr>et_pc := Driving (Ret ?out)\<rparr>]"
    "rt_workers s1 = rt_workers s" "qids s1 = qids s" "rt_closed s1 = rt_closed s"
    "rt_runs s1 = rt_runs s"
    using llm_return_resumes [OF d(2), of small_env 3 response] d(3,5) k by auto
  let ?s2 = "set_exec 0 (Pattern_done (Inr ?out)) s1"
  have r1: "reachable small_env s1" using d(6) p1(1) by (auto intro: reachable.step rt_step.llm_return)
  have x1: "exec_at s1 0 = Some (Driving (Ret ?out))" using s p1 by (auto simp: demo_at_def exec_at_def)
  have r2: "reachable small_env ?s2"
    by (rule reachable.step [OF r1 rt_step.exec_drive [OF exec_drive_returns [OF x1]]])
  have x2: "exec_at ?s2 0 = Some (Pattern_done (Inr ?out))" "exec_run ?s2 0 = demo_run"
    using s p1 by (auto simp: demo_at_def exec_at_def)
  obtain r where r: "rt_heap ?s2 demo_run = Some r" "rr_state r = RUNNING"
  proof -
    have "run_state_of s1 demo_run = Some RUNNING" using p1(2) by simp
    then show ?thesis using that by (auto simp: run_state_of_def)
  qed
  have reg: "demo_run \<in> set (rt_runs ?s2)" using s p1 by (simp add: demo_at_def)
  obtain s3 r3 where p3: "exec_finish small_env 4 0 ?s2 = Some s3"
    "run_state_of s3 = (run_state_of ?s2)(demo_run \<mapsto> SUCCEEDED)"
    "rt_heap s3 demo_run = Some r3" "rr_output r3 = Some ?out"
    "rt_execs s3 = (rt_execs ?s2)[0 := (rt_execs ?s2 ! 0)\<lparr>et_pc := Exec_done Returned\<rparr>]"
    "rt_workers s3 = rt_workers ?s2" "rt_runs s3 = rt_runs ?s2" "rt_closed s3 = rt_closed ?s2"
    "qids s3 = qids ?s2"
    using exec_finish_succeeds [OF reachable_inv [OF r2 small_uuids_ok] x2(1), where now = 4]
      x2(2) r out reg by auto
  have "reachable small_env s3" by (rule reachable.step [OF r2 rt_step.exec_finish [OF p3(1)]])
  then have "demo_done ?out s3" using s p1 p3 by (auto simp: demo_done_def demo_at_def)
  then show ?thesis by blast
qed

end
