(* ===== verification/Runtime_Properties.thy ===== *)
theory Runtime_Properties
  imports Runtime_Example
begin

section \<open>Properties of the runtime\<close>

text \<open>
  What holds of \<open>AgentRuntime\<close> in every reachable state. Each statement is applied to a concrete
  state of the small runtime.
\<close>

subsection \<open>Invariants\<close>

lemma reachable_sched:
  "reachable E s \<Longrightarrow> uuids_ok E \<Longrightarrow> sched (run_state_of s) (qids s) (rt_execs s)"
  using reachable_inv [of E s] by (simp add: rt_inv_def rt_inv0_def inv_sched_def)

lemma count_list_distinct: "distinct xs \<Longrightarrow> x \<in> set xs \<Longrightarrow> count_list xs x = 1"
  by (induction xs) auto

text \<open>C1: the registry never holds more than \<open>max_run_records\<close> runs: \<open>submit\<close> reclaims finished
  runs before it admits a new one, and with the queue bounded there is always one to reclaim.\<close>

theorem registry_bounded:
  assumes "reachable E s" and "uuids_ok E"
  shows "int (length (rt_runs s)) \<le> cf_max_run_records (env_config E)"
  using rt_inv0D(8) [OF rt_invD(1) [OF reachable_inv [OF assms]]] by (simp add: inv_bound_def)

theorem registry_bounded_witness:
  "\<exists>s. reachable small_env s \<and> rt_runs s \<noteq> [] \<and>
     int (length (rt_runs s)) \<le> cf_max_run_records (env_config small_env)"
proof -
  obtain s where s: "demo_ready s" using ex_demo_ready by blast
  then have r: "reachable small_env s" "rt_runs s \<noteq> []" by (auto simp: demo_ready_def)
  then show ?thesis using registry_bounded [OF r(1) small_uuids_ok] by blast
qed

text \<open>C2: an unfinished run is in exactly one place: queued once and READY with no execution task,
  or not queued and with exactly one live task, which is at a point that fits its state. So no run
  is lost and none is executed twice.\<close>

theorem unfinished_in_one_place:
  assumes "reachable E s" and "uuids_ok E" and "run_state_of s rid = Some t" and "\<not> terminal t"
  shows "t = READY \<and> count_list (qids s) rid = 1
        \<and> (\<forall>tid. live (rt_execs s) tid \<longrightarrow> exec_run s tid \<noteq> rid)
    \<or> rid \<notin> set (qids s) \<and> (\<exists>tid. live (rt_execs s) tid \<and> exec_run s tid = rid
        \<and> t \<in> pc_states (et_pc (rt_execs s ! tid))
        \<and> (\<forall>j. live (rt_execs s) j \<longrightarrow> exec_run s j = rid \<longrightarrow> j = tid))"
proof -
  note sch = reachable_sched [OF assms(1,2)]
  show ?thesis
  proof (cases "rid \<in> set (qids s)")
    case True
    then have "t = READY" using sched_queued [OF sch True] assms(3,4) by auto
    moreover have "count_list (qids s) rid = 1"
      using sched_distinct [OF sch] True by (simp add: count_list_distinct)
    moreover have "live (rt_execs s) tid \<Longrightarrow> exec_run s tid \<noteq> rid" for tid
      using sched_apart [OF sch, of tid] True by auto
    ultimately show ?thesis by blast
  next
    case False
    then obtain tid where tid: "live (rt_execs s) tid" "exec_run s tid = rid"
      using sched_covered [OF sch assms(3,4)] by blast
    then have "t \<in> pc_states (et_pc (rt_execs s ! tid))"
      using sched_live [OF sch tid(1)] unfolding tid(2) assms(3) by blast
    moreover have "j = tid" if "live (rt_execs s) j" "exec_run s j = rid" for j
      using sched_one [OF sch that(1) tid(1)] that(2) tid(2) by simp
    ultimately show ?thesis using False tid by blast
  qed
qed

theorem unfinished_in_one_place_witness:
  "\<exists>s tid. reachable small_env s \<and> run_state_of s demo_run = Some WAITING
     \<and> demo_run \<notin> set (qids s) \<and> live (rt_execs s) tid \<and> exec_run s tid = demo_run"
proof -
  obtain s k where s: "demo_at (At_llm ''simple.generate'' k 2) WAITING s"
    using ex_demo_waiting by blast
  then have r: "reachable small_env s" "run_state_of s demo_run = Some WAITING"
    by (auto simp: demo_at_def)
  then show ?thesis
    using unfinished_in_one_place [OF r(1) small_uuids_ok r(2)] by auto
qed

text \<open>C13: the recorded history of every run replays from CREATED through whitelisted transitions to
  its present state; a run that has run has its start stamped, a finished one its end.\<close>

theorem history_replays:
  assumes "reachable E s" and "uuids_ok E" and "rt_heap s rid = Some r"
  shows "rr_id r = rid \<and> replay CREATED (rr_transitions r) = Some (rr_state r)
    \<and> (rr_state r \<in> {RUNNING, WAITING, SUCCEEDED} \<longrightarrow> rr_started_at r \<noteq> None)
    \<and> (terminal (rr_state r) \<longrightarrow> rr_finished_at r \<noteq> None)"
  using inv_objects_run_id [OF rt_inv0D(1) [OF rt_invD(1) [OF reachable_inv [OF assms(1,2)]]] assms(3)]
  by (auto simp: wf_run_def)

theorem history_replays_witness:
  "\<exists>s r. reachable small_env s \<and> rt_heap s demo_run = Some r \<and> rr_state r = SUCCEEDED
     \<and> replay CREATED (rr_transitions r) = Some SUCCEEDED \<and> rr_finished_at r \<noteq> None"
proof -
  have "\<not> blank (resp_content (plain_response ''hi''))" by code_simp
  then obtain s where s: "demo_done (resp_content (plain_response ''hi'')) s"
    using ex_demo_done by blast
  then obtain r where r: "reachable small_env s" "rt_heap s demo_run = Some r" "rr_state r = SUCCEEDED"
    by (auto simp: demo_done_def run_state_of_def)
  then show ?thesis
    using history_replays [OF r(1) small_uuids_ok r(2)] by auto
qed

text \<open>C14: the completion event of a retained run is set exactly when the run is in a final state, so
  \<open>wait\<close> finds it: it returns a finished run at once, suspends on an unfinished one, and raises
  only for an unknown id.\<close>

theorem wait_is_total:
  assumes "reachable E s" and "uuids_ok E"
  shows "runtime_wait s rid =
      (case runs_get s rid of
         None \<Rightarrow> Inl (RunNotFoundError (''unknown run: '' @ rid))
       | Some run \<Rightarrow> Inr (if terminal (rr_state run) then Some run else None))
    \<and> (rid \<in> set (rt_runs s) \<longrightarrow> (\<exists>t. run_state_of s rid = Some t
         \<and> dict_get (rt_completion s) rid = Some (terminal t)))"
proof
  note inv = rt_inv0D(2) [OF rt_invD(1) [OF reachable_inv [OF assms]]]
  have flag: "dict_get (rt_completion s) rid = Some (terminal (rr_state r))"
    if "runs_get s rid = Some r" for r
    using that inv by (auto simp: runs_get_def inv_registry_def run_state_of_def split: if_splits)
  show "runtime_wait s rid =
    (case runs_get s rid of
       None \<Rightarrow> Inl (RunNotFoundError (''unknown run: '' @ rid))
     | Some run \<Rightarrow> Inr (if terminal (rr_state run) then Some run else None))"
    using flag by (auto simp: runtime_wait_def runtime_get_def split: option.splits)
  show "rid \<in> set (rt_runs s) \<longrightarrow> (\<exists>t. run_state_of s rid = Some t
      \<and> dict_get (rt_completion s) rid = Some (terminal t))"
  proof
    assume m: "rid \<in> set (rt_runs s)"
    have "set (rt_runs s) \<subseteq> dom (rt_heap s)" using inv by (simp add: inv_registry_def)
    then obtain r where "rt_heap s rid = Some r" using m by blast
    with m have "runs_get s rid = Some r" by (simp add: runs_get_def)
    then show "\<exists>t. run_state_of s rid = Some t \<and> dict_get (rt_completion s) rid = Some (terminal t)"
      using flag \<open>rt_heap s rid = Some r\<close> by (simp add: run_state_of_def)
  qed
qed

theorem wait_is_total_witness:
  "\<exists>s. reachable small_env s \<and> runtime_wait s demo_run = Inr None
     \<and> runtime_wait s ''x'' = Inl (RunNotFoundError (''unknown run: '' @ ''x''))"
proof -
  obtain s where s: "demo_ready s" using ex_demo_ready by blast
  have u: "''x'' \<notin> env_uuids small_env ` {..<uuids_of s}"
    by (auto simp: small_env_def dest: arg_cong [of _ _ hd])
  have r: "reachable small_env s" using s by (simp add: demo_ready_def)
  note w = wait_is_total [OF r small_uuids_ok, THEN conjunct1] and inv = reachable_inv [OF r small_uuids_ok]
  have "rt_heap s ''x'' = None"
    using rt_inv0D(1) [OF rt_invD(1) [OF inv]] u by (auto simp: inv_objects_def)
  then have x: "runs_get s ''x'' = None" by (simp add: runs_get_def)
  obtain run where "runs_get s demo_run = Some run" "rr_state run = READY"
    using s by (auto simp: demo_ready_def runs_get_def run_state_of_def)
  then show ?thesis using r w [of demo_run] w [of "''x''"] x by (intro exI [of _ s]) simp
qed

text \<open>C15: a run that has succeeded or was cancelled keeps that state through every further step; only
  a failed run can be revived.\<close>

theorem final_states_stay:
  assumes "reachable E s" and "uuids_ok E" and "rt_step E s s'"
    and "run_state_of s rid = Some t" and "t = SUCCEEDED \<or> t = CANCELLED"
  shows "run_state_of s' rid = Some t"
  by (rule step_final [OF assms(3) reachable_inv [OF assms(1,2)]
        reachable_inv [OF reachable.step [OF assms(1,3)] assms(2)] assms(2,4,5)])

theorem final_states_stay_witness:
  "\<exists>s. reachable small_env s \<and> run_state_of s demo_run = Some SUCCEEDED
     \<and> run_state_of (snd (close_begin small_env 9 s)) demo_run = Some SUCCEEDED"
proof -
  have "\<not> blank (resp_content (plain_response ''hi''))" by code_simp
  then obtain s where s: "demo_done (resp_content (plain_response ''hi'')) s"
    using ex_demo_done by blast
  then have r: "reachable small_env s" "run_state_of s demo_run = Some SUCCEEDED"
    by (simp_all add: demo_done_def)
  then show ?thesis
    using final_states_stay [OF r(1) small_uuids_ok rt_step.close_begin r(2)] by blast
qed

text \<open>C16: no step loses a run object or rewrites its identity, input, kind, session, trace or
  creation time; its transition history and its steps are only appended to.\<close>

theorem records_grow:
  assumes "reachable E s" and "uuids_ok E" and "rt_step E s s'" and "rt_heap s rid = Some r"
  shows "\<exists>r'. rt_heap s' rid = Some r' \<and> rr_id r' = rr_id r \<and> rr_input r' = rr_input r
    \<and> rr_kind r' = rr_kind r \<and> rr_session_id r' = rr_session_id r \<and> rr_trace_id r' = rr_trace_id r
    \<and> rr_created_at r' = rr_created_at r \<and> prefix (rr_transitions r) (rr_transitions r')
    \<and> prefix (rr_steps r) (rr_steps r')"
  using step_extends [OF assms(3) reachable_inv [OF assms(1,2)] assms(2)] assms(4)
  by (auto simp: extends_def grows_def)

theorem records_grow_witness:
  "\<exists>s r r'. reachable small_env s \<and> rt_heap s demo_run = Some r
     \<and> rt_heap (snd (cancel small_env 5 demo_run s)) demo_run = Some r'
     \<and> prefix (rr_transitions r) (rr_transitions r')"
proof -
  obtain s where s: "demo_ready s" using ex_demo_ready by blast
  then obtain r where r: "reachable small_env s" "rt_heap s demo_run = Some r"
    by (auto simp: demo_ready_def)
  then show ?thesis
    using records_grow [OF r(1) small_uuids_ok rt_step.cancel r(2)] by blast
qed

text \<open>C17: while the runtime is open, every live execution task has a worker waiting for it; at most
  \<open>max_concurrency\<close> tasks run at a time, and the metric \<open>runs_active\<close> is their exact number.\<close>

theorem concurrency_bounded:
  assumes "reachable E s" and "uuids_ok E" and "\<not> rt_closed s"
  shows "(\<forall>tid. live (rt_execs s) tid \<longrightarrow> (\<exists>i < length (rt_workers s).
        wk_pc (rt_workers s ! i) = W_busy (exec_run s tid) tid))
    \<and> card {tid. live (rt_execs s) tid} \<le> nat (cf_max_concurrency (env_config E))
    \<and> active s = of_nat (length (filter running_task (rt_execs s)))"
proof (intro conjI)
  note inv = reachable_inv [OF assms(1,2)]
  show "\<forall>tid. live (rt_execs s) tid \<longrightarrow> (\<exists>i < length (rt_workers s).
      wk_pc (rt_workers s ! i) = W_busy (exec_run s tid) tid)"
    using inv_liveD(1) [OF rt_invD(2) [OF inv] assms(3)] by blast
  show "card {tid. live (rt_execs s) tid} \<le> nat (cf_max_concurrency (env_config E))"
    using live_workers(2) [OF inv assms(3)] rt_inv0D(5) [OF rt_invD(1) [OF inv]]
    by (simp add: inv_workers_def)
  show "active s = of_nat (length (filter running_task (rt_execs s)))"
    using rt_inv0D(7) [OF rt_invD(1) [OF inv]] by (simp add: inv_world_def)
qed

theorem concurrency_bounded_witness:
  "\<exists>s. reachable small_env s \<and> live (rt_execs s) 0 \<and> active s = 1
     \<and> card {tid. live (rt_execs s) tid} \<le> 1"
proof -
  obtain s k where s: "demo_at (At_llm ''simple.generate'' k 2) WAITING s"
    using ex_demo_waiting by blast
  then have r: "reachable small_env s" "\<not> rt_closed s" by (auto simp: demo_at_def)
  have l: "live (rt_execs s) 0" "length (filter running_task (rt_execs s)) = 1"
    using s by (auto simp: demo_at_def live_def exec_live_def running_task_def)
  show ?thesis
    using concurrency_bounded [OF r(1) small_uuids_ok r(2)] r(1) l small_concurrency
    by (intro exI [of _ s]) simp
qed

text \<open>C18: the queue's count of unfinished items is the number of queued tasks plus the number of
  workers with a task, so \<open>task_done\<close> never raises and \<open>join\<close> waits for exactly the accepted work.\<close>

theorem queue_accounting:
  assumes "reachable E s" and "uuids_ok E"
  shows "tq_unfinished (rt_queue s) = length (tq_items (rt_queue s)) + busy_count (rt_workers s)
    \<and> length (tq_items (rt_queue s)) \<le> nat (cf_queue_capacity (env_config E))
    \<and> (i < length (rt_workers s) \<longrightarrow> wk_pc (rt_workers s ! i) = W_busy rid tid \<longrightarrow>
         queue_task_done (rt_queue s) \<noteq> Inl e)"
proof (intro conjI)
  note q = rt_inv0D(6) [OF rt_invD(1) [OF reachable_inv [OF assms]]]
  show u: "tq_unfinished (rt_queue s) = length (tq_items (rt_queue s)) + busy_count (rt_workers s)"
    and "length (tq_items (rt_queue s)) \<le> nat (cf_queue_capacity (env_config E))"
    using q by (auto simp: inv_queue_def wf_queue_def)
  show "i < length (rt_workers s) \<longrightarrow> wk_pc (rt_workers s ! i) = W_busy rid tid \<longrightarrow>
      queue_task_done (rt_queue s) \<noteq> Inl e"
  proof (intro impI)
    assume i: "i < length (rt_workers s)" and w: "wk_pc (rt_workers s ! i) = W_busy rid tid"
    have "0 < busy_count (rt_workers s)"
      using busy_count_update [OF i, of "(rt_workers s ! i)\<lparr>wk_pc := W_idle\<rparr>"] w by simp
    then show "queue_task_done (rt_queue s) \<noteq> Inl e" using u by (simp add: queue_task_done_def)
  qed
qed

theorem queue_accounting_witness:
  "\<exists>s. reachable small_env s \<and> tq_items (rt_queue s) = [] \<and> tq_unfinished (rt_queue s) = 1"
proof -
  obtain s where s: "demo_at Not_started READY s" using ex_demo_picked by blast
  then have r: "reachable small_env s" "tq_items (rt_queue s) = []" "busy_count (rt_workers s) = 1"
    by (auto simp: demo_at_def busy_count_def)
  then show ?thesis using queue_accounting [OF r(1) small_uuids_ok] by auto
qed

end
