(* ===== verification/Runtime_Cases.thy ===== *)
theory Runtime_Cases
  imports Runtime_Example
begin

section \<open>Further executions of the small runtime\<close>

text \<open>
  Steps that the successful run does not take - a submission under an idempotency key or to a full
  queue, a run that times out, a cancellation - and the reachable states that they and a filled
  queue lead to.
\<close>

subsection \<open>What the steps do\<close>

lemma start_fields:
  "rt_idem (snd (runtime_start E s)) = rt_idem s" "rt_heap (snd (runtime_start E s)) = rt_heap s"
  "rt_queue (snd (runtime_start E s)) = rt_queue s" "rt_execs (snd (runtime_start E s)) = rt_execs s"
  "rt_runs (snd (runtime_start E s)) = rt_runs s" "rt_tasks (snd (runtime_start E s)) = rt_tasks s"
  "unfinished (snd (runtime_start E s)) = unfinished s"
  by (auto simp: runtime_start_def Let_def set_gauge_def unfinished_def run_state_of_def fun_eq_iff)

lemma cleanup_execs [simp]:
  "rt_execs (cleanup_runs E now reserve s) = rt_execs s"
  "rt_tasks (cleanup_runs E now reserve s) = rt_tasks s"
proof -
  have "rt_execs (fold evict xs t) = rt_execs t" "rt_tasks (fold evict xs t) = rt_tasks t" for xs t
    by (induction xs arbitrary: t) simp_all
  then show "rt_execs (cleanup_runs E now reserve s) = rt_execs s"
    "rt_tasks (cleanup_runs E now reserve s) = rt_tasks s" by (simp_all add: cleanup_runs_def)
qed

lemma evict_unbound: "dict_get (rt_idem s) k = None \<Longrightarrow> dict_get (rt_idem (evict rid s)) k = None"
  by (simp split: option.split)

lemma cleanup_unbound:
  assumes "dict_get (rt_idem s) k = None"
  shows "dict_get (rt_idem (cleanup_runs E now reserve s)) k = None"
proof -
  have "dict_get (rt_idem (fold evict rids t)) k = None" if "dict_get (rt_idem t) k = None" for rids t
    using that by (induction rids arbitrary: t) (simp_all del: evict_fields add: evict_unbound)
  then show ?thesis using assms by (simp add: cleanup_runs_def)
qed

lemma submit_accepts_key:
  assumes s: "rt_inv E s" and u: "uuids_ok E" and c: "\<not> rt_closed s"
    and inp: "strip text \<noteq> []" and q: "\<not> queue_full (rt_queue s)"
    and k: "k \<noteq> []" "length k \<le> 128" "dict_get (rt_idem s) k = None"
  shows "\<exists>rid s'. submit E now text (Inr kd) ss (Some k) s = (Inr rid, s')
    \<and> rid = env_uuids E (uuids_of s) \<and> run_state_of s' = (run_state_of s)(rid \<mapsto> READY)
    \<and> dict_get (rt_idem s') k = Some (rid, strip text, kd, ss) \<and> \<not> rt_closed s'"
proof -
  let ?s1 = "snd (runtime_start E s)" and ?s2 = "cleanup_runs E now 1 (snd (runtime_start E s))"
  have i1: "rt_inv E ?s1" using s by (rule runtime_start_inv)
  note cl = cleanup_runs_inv [OF i1, of now 1]
  have f1: "uuids_of ?s1 = uuids_of s" "rt_queue ?s1 = rt_queue s" "rt_heap ?s1 = rt_heap s"
    "rt_idem ?s1 = rt_idem s"
    by (simp_all add: runtime_start_def Let_def set_gauge_def)
  have fold: "uuids_of (fold evict xs t) = uuids_of t" for xs t by (induction xs arbitrary: t) simp_all
  have f2: "uuids_of ?s2 = uuids_of s" "rt_queue ?s2 = rt_queue s"
    using f1 cl(4) by (simp_all add: cleanup_runs_def fold)
  have st2: "run_state_of ?s2 = run_state_of s" by (rule state_heap_cong) (simp add: cl(5) f1)
  have k2: "dict_get (rt_idem ?s2) k = None" by (rule cleanup_unbound) (simp add: f1 k)
  obtain run sid w where
    w: "mk_run_record (env_uuids E (uuids_of ?s2)) (strip text) kd sid (env_uuids E (w_uuids w)) now = Inr run"
    and ad: "admit E now (strip text) kd ss (Some k) ?s2 = (Inr (rr_id run),
      admitted E now run (strip text) kd ss (Some k) (?s2\<lparr>rt_world := snd (uuid4 (env_uuids E) w)\<rparr>))"
    using admit_eq [OF u, of ?s2 "strip text" ss kd now "Some k"] q f2 inp by auto
  note r = mk_run_record_Inr [OF w]
  have "submit E now text (Inr kd) ss (Some k) s = admit E now (strip text) kd ss (Some k) ?s2"
    using inp k k2 by (simp add: submit_eq [OF s c] Let_def submit_kind_def)
  then show ?thesis
    using ad r f2 st2 c cl(2) by (auto simp: runtime_start_closed)
qed

lemma exec_timeout_fails:
  assumes s: "rt_inv E s" and tid: "exec_at s tid = Some (Driving coro)"
    and run: "rt_heap s (exec_run s tid) = Some r" "rr_state r = RUNNING"
    and reg: "exec_run s tid \<in> set (rt_runs s)"
  shows "\<exists>s' r'. exec_timeout E now tid s = Some s'
    \<and> run_state_of s' = (run_state_of s)(exec_run s tid \<mapsto> FAILED)
    \<and> rt_heap s' (exec_run s tid) = Some r' \<and> rr_error r' = Some ''TimeoutError: ''
    \<and> rt_execs s' = (rt_execs s)[tid := (rt_execs s ! tid)\<lparr>et_pc := Exec_done Returned\<rparr>]
    \<and> rt_runs s' = rt_runs s \<and> qids s' = qids s \<and> rt_closed s' = rt_closed s
    \<and> rt_workers s' = rt_workers s \<and> rt_tasks s' = rt_tasks s"
proof -
  let ?rid = "exec_run s tid"
  have key: "?rid \<in> fst ` set (rt_completion s)"
    using rt_inv0D(2) [OF rt_invD(1) [OF s]] reg by (simp add: inv_registry_def)
  have "exec_timeout E now tid s = Some (exec_fail E now tid TimeoutError s)"
    using tid by (simp add: exec_timeout_def interrupt_def)
  moreover have "\<exists>s' r'. exec_fail E now tid TimeoutError s = s'
    \<and> run_state_of s' = (run_state_of s)(?rid \<mapsto> FAILED)
    \<and> rt_heap s' ?rid = Some r' \<and> rr_error r' = Some ''TimeoutError: ''
    \<and> rt_execs s' = (rt_execs s)[tid := (rt_execs s ! tid)\<lparr>et_pc := Exec_done Returned\<rparr>]
    \<and> rt_runs s' = rt_runs s \<and> qids s' = qids s \<and> rt_closed s' = rt_closed s
    \<and> rt_workers s' = rt_workers s \<and> rt_tasks s' = rt_tasks s"
    using run key
    by (simp add: exec_fail_def Let_def fsm_if_allowed_eq may_move_def legal_simps run_state_of_def
        exec_finally_def completion_put_eq fsm_effect_heap fun_eq_iff)
  ultimately show ?thesis by simp
qed

text \<open>A failed run is revived.\<close>

lemma retry_revives:
  assumes s: "rt_inv E s" and f: "run_state_of s rid = Some FAILED" and reg: "rid \<in> set (rt_runs s)"
    and q: "\<not> queue_full (rt_queue s)"
  shows "\<exists>s'. retry E now rid s = (Inr rid, s') \<and> run_state_of s' = (run_state_of s)(rid \<mapsto> READY)
    \<and> qids s' = qids s @ [rid] \<and> rt_execs s' = rt_execs s \<and> rt_workers s' = rt_workers s
    \<and> rt_tasks s' = rt_tasks s \<and> rt_closed s' = rt_closed s \<and> rt_runs s' = rt_runs s"
proof -
  obtain run where run: "runs_get s rid = Some run" "rr_state run = FAILED" "rt_heap s rid = Some run"
    using f reg by (auto simp: runs_get_def run_state_of_def)
  show ?thesis
    unfolding retry_eq [OF s] run(1) option.case using q run(2,3)
    by (simp add: retried_def Let_def f)
qed

lemma start_again:
  assumes "rt_inv E s" and "rt_workers s \<noteq> []" and "\<not> rt_closed s"
  shows "rt_workers (snd (runtime_start E s)) = rt_workers s"
  using inv_liveD(5) [OF rt_invD(2) [OF assms(1)]] assms(2,3) by (auto simp: runtime_start_def)

text \<open>An identifier that is drawn now is not in use.\<close>

lemma fresh_unknown:
  assumes "rt_inv E s" and "uuids_ok E"
  shows "run_state_of s (env_uuids E (uuids_of s)) = None"
proof -
  have "env_uuids E (uuids_of s) \<notin> env_uuids E ` {..<uuids_of s}"
    using assms(2) by (auto simp: uuids_ok_def dest: injD)
  then show ?thesis
    using rt_inv0D(1) [OF rt_invD(1) [OF assms(1)]] by (auto simp: inv_objects_def run_state_of_def)
qed

text \<open>A submission to a full queue is rejected, after the finished runs have been reclaimed.\<close>

lemma submit_full:
  assumes i: "rt_inv E s" and c: "\<not> rt_closed s" and inp: "strip text \<noteq> []" and q: "queue_full (rt_queue s)"
  shows "\<exists>s'. submit E now text (Inr kd) ss None s =
      (Inl (RunQueueFullError (cf_queue_retry_after_seconds (env_config E))), s')
    \<and> rt_runs s' = rt_runs (cleanup_runs E now 1 (snd (runtime_start E s)))
    \<and> run_state_of s' = run_state_of s \<and> rt_execs s' = rt_execs s \<and> qids s' = qids s
    \<and> rt_workers s' = rt_workers (snd (runtime_start E s)) \<and> \<not> rt_closed s'"
proof -
  let ?t = "snd (runtime_start E s)"
  let ?c = "cleanup_runs E now 1 ?t"
  note cl = cleanup_runs_inv [OF runtime_start_inv [OF i], where now = now and reserve = 1]
  note t = start_fields [where E = E and s = s]
  have "rt_workers (fold evict xs u) = rt_workers u" for xs u by (induction xs arbitrary: u) simp_all
  then have w: "rt_workers ?c = rt_workers ?t" by (simp add: cleanup_runs_def)
  have "run_state_of ?c = run_state_of s" by (rule state_heap_cong) (simp add: cl(5) t)
  then show ?thesis
    using inp q cl(2,4) w c
    by (simp add: submit_eq [OF i c] Let_def submit_kind_def admit_def rejected_def t runtime_start_closed)
qed

text \<open>\<open>cancel\<close> of a run that has a task: the run is cancelled, and the task is asked to stop.\<close>

lemma cancel_reaches_task:
  assumes r: "reachable E s" "uuids_ok E" and c: "\<not> rt_closed s"
    and st: "run_state_of s rid = Some t" "\<not> terminal t" and task: "dict_get (rt_tasks s) rid = Some tid"
    and pc: "exec_at s tid = Some pc" "\<forall>res. pc \<noteq> Exec_done res"
  shows "\<exists>s'. cancel E now rid s = (Inr True, s') \<and> reachable E s'
    \<and> run_state_of s' = (run_state_of s)(rid \<mapsto> CANCELLED) \<and> rt_workers s' = rt_workers s
    \<and> exec_at s' tid = Some pc \<and> et_cancel (rt_execs s' ! tid) \<and> exec_run s' tid = exec_run s tid
    \<and> \<not> rt_closed s' \<and> qids s' = qids s"
proof -
  have i: "rt_inv E s" using r by (rule reachable_inv)
  have "rid \<in> set (rt_runs s)" using rt_inv0D(2) [OF rt_invD(1) [OF i]] st by (auto simp: inv_registry_def)
  then obtain run where run: "runs_get s rid = Some run" "rr_state run = t"
    using st(1) by (auto simp: runs_get_def run_state_of_def)
  have x: "tid < length (rt_execs s)" "et_pc (rt_execs s ! tid) = pc"
    using pc(1) by (auto simp: exec_at_def split: if_splits)
  then have lv: "live (rt_execs s) tid"
    using pc(2) by (cases pc) (simp_all add: live_def exec_live_def)
  define s' where "s' = snd (cancel E now rid s)"
  have e: "cancel E now rid s = (Inr True, s')"
    by (simp add: s'_def cancel_eq [OF i run(1)] run(2) st(2))
  have s': "s' = incr ''runs_cancelled_total'' 1 (task_cancel tid (cancelled_run E now rid ''cancel requested''
      (map_run rid (\<lambda>r. r\<lparr>rr_cancel_requested := True\<rparr>) s)))"
    by (simp add: s'_def cancel_eq [OF i run(1)] run(2) st(2) task)
  have "reachable E s'" using reachable.step [OF r(1) rt_step.cancel, of now rid] by (simp add: s'_def)
  moreover have "rt_execs s' = (rt_execs s)[tid := (rt_execs s ! tid)\<lparr>et_cancel := True\<rparr>]"
    using lv by (simp add: s' task_cancel_execs)
  moreover have "run_state_of s' = (run_state_of s)(rid \<mapsto> CANCELLED)"
    using st(1) by (simp add: s')
  moreover have "rt_workers s' = rt_workers s" "\<not> rt_closed s'" "qids s' = qids s"
    using c by (simp_all add: s')
  ultimately show ?thesis using e x by (auto simp: exec_at_def)
qed

subsection \<open>States\<close>

lemma small_capacity: "rt_inv small_env s \<Longrightarrow> tq_capacity (rt_queue s) = 2"
  using rt_inv0D(6) [OF rt_invD(1)] by (fastforce simp: inv_queue_def small_env_def small_config_def)

text \<open>A run that was submitted under a key.\<close>

lemma ex_demo_keyed:
  "\<exists>s. submit small_env 1 ''hello'' (Inr SIMPLE) None (Some ''k'') small_start = (Inr demo_run, s)
     \<and> reachable small_env s \<and> run_state_of s demo_run = Some READY \<and> \<not> rt_closed s
     \<and> dict_get (rt_idem s) ''k'' = Some (demo_run, ''hello'', SIMPLE, None)"
proof -
  have r0: "reachable small_env small_start" by (rule reachable.init [OF wf_small_bus small_new])
  have h: "strip ''hello'' = ''hello''" by code_simp
  have "rt_idem small_start = []"
    by (simp add: small_start_def runtime_new_def small_env_def small_config_def
        runtime_defaults_def runtime_validate_def Let_def session_store_new_def queue_new_def)
  then obtain s where s: "submit small_env 1 ''hello'' (Inr SIMPLE) None (Some ''k'') small_start =
      (Inr (env_uuids small_env (uuids_of small_start)), s)"
    "run_state_of s = (run_state_of small_start)(env_uuids small_env (uuids_of small_start) \<mapsto> READY)"
    "dict_get (rt_idem s) ''k'' = Some (env_uuids small_env (uuids_of small_start), ''hello'', SIMPLE, None)"
    "\<not> rt_closed s"
    using submit_accepts_key [OF reachable_inv [OF r0 small_uuids_ok] small_uuids_ok, of "''hello''" "''k''" 1 SIMPLE None]
    by (auto simp: small_start_fields queue_full_def h)
  moreover have "reachable small_env s"
    using reachable.step [OF r0 rt_step.submit, of 1 "''hello''" "Inr SIMPLE" None "Some ''k''"] s(1) by simp
  ultimately show ?thesis by (simp add: small_env_def small_start_fields)
qed

text \<open>Two runs in a queue for two.\<close>

lemma ex_demo_full: "\<exists>s. reachable small_env s \<and> queue_full (rt_queue s) \<and> \<not> rt_closed s"
proof -
  obtain s where s: "demo_ready s" using ex_demo_ready by blast
  have h: "strip ''hello'' = ''hello''" by code_simp
  have r: "reachable small_env s" and i: "rt_inv small_env s"
    using s by (auto simp: demo_ready_def intro: reachable_inv small_uuids_ok)
  have c: "\<not> rt_closed s" and u: "qids s = [demo_run]" using s unfolding demo_ready_def by blast+
  have l: "length (qids s) = 1" by (simp only: u) simp
  have q: "\<not> queue_full (rt_queue s)" using small_capacity [OF i] l by (simp add: queue_full_def)
  obtain rid s' where s': "submit small_env 2 ''hello'' (Inr SIMPLE) None None s = (Inr rid, s')"
    "qids s' = qids s @ [rid]" "\<not> rt_closed s'"
    using submit_accepts [OF i small_uuids_ok c _ q, of "''hello''" 2 SIMPLE None] h by auto
  have r': "reachable small_env s'"
    using reachable.step [OF r rt_step.submit, of 2 "''hello''" "Inr SIMPLE" None None] s'(1) by simp
  have "length (qids s') = 2" unfolding s'(2) using l by simp
  then have "length (tq_items (rt_queue s')) = 2" unfolding length_map .
  moreover have "tq_capacity (rt_queue s') = 2" by (rule small_capacity [OF reachable_inv [OF r' small_uuids_ok]])
  ultimately have "queue_full (rt_queue s')" unfolding queue_full_def by (simp only: order_refl)
  then show ?thesis using r' s'(3) by blast
qed

text \<open>The run whose time is up.\<close>

definition demo_failed :: "runtime \<Rightarrow> bool" where
  "demo_failed s \<longleftrightarrow> reachable small_env s \<and> run_state_of s demo_run = Some FAILED
     \<and> demo_run \<in> set (rt_runs s) \<and> qids s = [] \<and> \<not> rt_closed s"

lemma ex_demo_failed: "\<exists>s. demo_failed s"
proof -
  obtain s req k where s: "demo_at (Driving (Complete req ''simple.generate'' k)) RUNNING s"
    using ex_demo_running by blast
  note d = demo_atD [OF s]
  obtain r where r: "rt_heap s demo_run = Some r" "rr_state r = RUNNING"
    using d(5) by (auto simp: run_state_of_def)
  have reg: "demo_run \<in> set (rt_runs s)" using s by (simp add: demo_at_def)
  obtain s' where s': "exec_timeout small_env 400 0 s = Some s'"
    "run_state_of s' = (run_state_of s)(demo_run \<mapsto> FAILED)" "rt_runs s' = rt_runs s"
    "qids s' = qids s" "rt_closed s' = rt_closed s"
    using exec_timeout_fails [OF d(1,2), of r 400] r reg d(3) by auto
  have "reachable small_env s'" using d(6) s'(1) by (auto intro: reachable.step rt_step.exec_timeout)
  then show ?thesis using s s' by (auto simp: demo_failed_def demo_at_def intro!: exI [of _ s'])
qed

text \<open>
  The registry is full: the run that waits for the model, and two queued runs behind it.
\<close>

definition demo_crowded :: "runtime \<Rightarrow> bool" where
  "demo_crowded s \<longleftrightarrow> reachable small_env s \<and> \<not> rt_closed s \<and> length (qids s) = 2
     \<and> (\<exists>k began. exec_at s 0 = Some (At_llm ''simple.generate'' k began)) \<and> exec_run s 0 = demo_run
     \<and> rt_workers s = [\<lparr>wk_pc = W_busy demo_run 0, wk_cancel = False\<rparr>]
     \<and> dict_get (rt_tasks s) demo_run = Some 0 \<and> run_state_of s demo_run = Some WAITING
     \<and> (\<exists>b c. b \<noteq> c \<and> demo_run \<notin> {b, c} \<and> run_state_of s b = Some READY \<and> run_state_of s c = Some READY)"

lemma queue_another:
  assumes r: "reachable small_env s" and c: "\<not> rt_closed s" and w: "rt_workers s \<noteq> []"
    and q: "length (qids s) < 2"
  shows "\<exists>s' rid. reachable small_env s' \<and> \<not> rt_closed s' \<and> run_state_of s rid = None
    \<and> run_state_of s' = (run_state_of s)(rid \<mapsto> READY) \<and> length (qids s') = Suc (length (qids s))
    \<and> rt_workers s' = rt_workers s \<and> rt_execs s' = rt_execs s \<and> rt_tasks s' = rt_tasks s"
proof -
  have i: "rt_inv small_env s" using r small_uuids_ok by (rule reachable_inv)
  have "\<not> queue_full (rt_queue s)" using q small_capacity [OF i] by (simp add: queue_full_def)
  moreover have "strip ''hello'' \<noteq> []" by code_simp
  ultimately obtain rid s' where s': "submit small_env 3 ''hello'' (Inr SIMPLE) None None s = (Inr rid, s')"
    "rid = env_uuids small_env (uuids_of s)" "run_state_of s' = (run_state_of s)(rid \<mapsto> READY)"
    "qids s' = qids s @ [rid]" "rt_workers s' = rt_workers (snd (runtime_start small_env s))"
    "rt_execs s' = rt_execs s" "rt_tasks s' = rt_tasks s" "\<not> rt_closed s'"
    using submit_accepts [OF i small_uuids_ok c, of "''hello''" 3 SIMPLE None] by blast
  have "reachable small_env s'"
    using reachable.step [OF r rt_step.submit, of 3 "''hello''" "Inr SIMPLE" None None] s'(1) by simp
  moreover have "length (qids s') = Suc (length (qids s))" by (simp only: s'(4) length_append) simp
  moreover have "run_state_of s rid = None" unfolding s'(2) using i small_uuids_ok by (rule fresh_unknown)
  moreover have "rt_workers s' = rt_workers s" unfolding s'(5) using i w c by (rule start_again)
  ultimately show ?thesis using s'(3,6-8) by blast
qed

lemma ex_demo_crowded: "\<exists>s. demo_crowded s"
proof -
  obtain s k where s: "demo_at (At_llm ''simple.generate'' k 2) WAITING s" using ex_demo_waiting by blast
  note d = demo_atD [OF s]
  have f: "\<not> rt_closed s" "qids s = []" "rt_workers s = [\<lparr>wk_pc = W_busy demo_run 0, wk_cancel = False\<rparr>]"
    "dict_get (rt_tasks s) demo_run = Some 0"
    using s unfolding demo_at_def by blast+
  obtain s1 b where s1: "reachable small_env s1" "\<not> rt_closed s1" "run_state_of s b = None"
    "run_state_of s1 = (run_state_of s)(b \<mapsto> READY)" "length (qids s1) = Suc (length (qids s))"
    "rt_workers s1 = rt_workers s" "rt_execs s1 = rt_execs s" "rt_tasks s1 = rt_tasks s"
    using queue_another [OF d(6) f(1)] f(2,3) by auto
  have l: "length (qids s1) = 1" by (simp only: s1(5) f(2)) simp
  have ne: "rt_workers s1 \<noteq> []" by (simp add: s1(6) f(3))
  have lt: "length (qids s1) < 2" unfolding l by simp
  obtain s2 c where s2: "reachable small_env s2" "\<not> rt_closed s2" "run_state_of s1 c = None"
    "run_state_of s2 = (run_state_of s1)(c \<mapsto> READY)" "length (qids s2) = Suc (length (qids s1))"
    "rt_workers s2 = rt_workers s1" "rt_execs s2 = rt_execs s1" "rt_tasks s2 = rt_tasks s1"
    using queue_another [OF s1(1,2) ne lt] by blast
  have "length (qids s2) = 2" unfolding s2(5) l by simp
  moreover have "exec_at s2 0 = exec_at s 0" by (simp add: exec_at_def s2(7) s1(7))
  moreover have "demo_run \<noteq> b" "demo_run \<noteq> c" "b \<noteq> c" using s1(3,4) s2(3) d(5) by (auto split: if_splits)
  moreover have "exec_run s2 0 = demo_run" using d(3) by (simp add: s2(7) s1(7))
  moreover have "rt_workers s2 = [\<lparr>wk_pc = W_busy demo_run 0, wk_cancel = False\<rparr>]"
    "dict_get (rt_tasks s2) demo_run = Some 0"
    using f(3,4) by (simp_all add: s2(6,8) s1(6,8))
  moreover have "run_state_of s2 demo_run = Some WAITING" "run_state_of s2 b = Some READY"
    "run_state_of s2 c = Some READY"
    using d(5) calculation(3-5) by (simp_all add: s2(4) s1(4))
  ultimately have "demo_crowded s2"
    unfolding demo_crowded_def using s2(1,2) d(2) by auto
  then show ?thesis by blast
qed

end
