(* ===== verification/Runtime_Operations.thy ===== *)
theory Runtime_Operations
  imports Runtime_Cases
begin

section \<open>What the operations of the runtime promise\<close>

text \<open>
  The interface of \<open>AgentRuntime\<close>, operation by operation and branch by branch, in any reachable
  state: submitting with and without an idempotency key, back-pressure, cancelling, retrying,
  reclaiming and closing.
\<close>

subsection \<open>Idempotency keys\<close>

lemma evict_keeps_key:
  assumes s: "rt_inv E s" and k: "dict_get (rt_idem s) k = Some (rid, p)" and r: "rid' \<noteq> rid"
  shows "dict_get (rt_idem (evict rid' s)) k = Some (rid, p)"
proof (cases "dict_get (rt_idem_by_run s) rid'")
  case (Some key)
  have "\<exists>p. dict_get (rt_idem s) key = Some (rid', p)"
    using rt_inv0D(3) [OF rt_invD(1) [OF s]] Some unfolding inv_idem_def by blast
  then have "key \<noteq> k" using k r by auto
  then show ?thesis using Some k by simp
qed (simp add: k)

lemma fold_evict_keeps_key:
  assumes "rt_inv E s" and "\<forall>i \<in> set rids. \<exists>t. run_state_of s i = Some t \<and> terminal t"
    and "dict_get (rt_idem s) k = Some (rid, p)" and "rid \<notin> set rids"
  shows "dict_get (rt_idem (fold evict rids s)) k = Some (rid, p)"
  using assms
proof (induction rids arbitrary: s)
  case (Cons i rids)
  have "rt_inv E (evict i s)" using Cons.prems(1,2) by (auto intro: evict_inv)
  then show ?case
    using Cons.prems evict_keeps_key [OF Cons.prems(1,3), of i] Cons.IH [of "evict i s"] by auto
qed simp

lemma cleanup_keeps_key:
  assumes s: "rt_inv E s" and k: "dict_get (rt_idem s) k = Some (rid, p)"
    and u: "unfinished s rid"
  shows "dict_get (rt_idem (cleanup_runs E now reserve s)) k = Some (rid, p)"
proof -
  note f = removable_facts [OF s, where now = now and reserve = reserve]
  have "rid \<notin> set (removable E now reserve s)"
    using f(3) [of rid] u by (auto simp: unfinished_def)
  moreover have "\<forall>i \<in> set (removable E now reserve s). \<exists>t. run_state_of s i = Some t \<and> terminal t"
    using f(3) by blast
  ultimately show ?thesis
    unfolding cleanup_runs_def using fold_evict_keeps_key [OF s] k by simp
qed

text \<open>A submission with a key that is bound to an unfinished run.\<close>

lemma submit_bound_key:
  assumes s: "rt_inv E s" and c: "\<not> rt_closed s"
    and k: "dict_get (rt_idem s) k = Some (rid, request)" and u: "unfinished s rid"
    and ok: "strip text \<noteq> []" "submit_kind kind = Inr kd" "k \<noteq> []" "length k \<le> 128"
  shows "\<exists>s'. submit E now text kind ss (Some k) s =
      ((if request = (strip text, kd, ss) then Inr rid
        else Inl (IdempotencyConflictError
          ''idempotency key was already used with a different request'')), s')
    \<and> rt_heap s' = rt_heap s \<and> rt_queue s' = rt_queue s \<and> rt_execs s' = rt_execs s
    \<and> rt_tasks s' = rt_tasks s \<and> set (rt_runs s') \<subseteq> set (rt_runs s)"
proof -
  let ?s1 = "snd (runtime_start E s)"
  have i1: "rt_inv E ?s1" using s by (rule runtime_start_inv)
  note cl = cleanup_runs_inv [OF i1, where now = now and reserve = 1]
  have "dict_get (rt_idem (cleanup_runs E now 1 ?s1)) k = Some (rid, request)"
    using k u by (intro cleanup_keeps_key [OF i1]) (simp_all add: start_fields)
  then show ?thesis
    using ok cl(4-6) by (auto simp: submit_eq [OF s c] Let_def start_fields)
qed

lemma bound_key_length:
  assumes s: "rt_inv E s" and c: "\<not> rt_closed s"
    and r: "submit E now text kind ss (Some k) s = (Inr rid, s')"
  shows "strip text \<noteq> [] \<and> k \<noteq> [] \<and> length k \<le> 128
    \<and> (\<exists>kd. submit_kind kind = Inr kd \<and> dict_get (rt_idem s') k = Some (rid, strip text, kd, ss))"
proof -
  let ?s2 = "cleanup_runs E now 1 (snd (runtime_start E s))"
  obtain kd where ok: "strip text \<noteq> []" "submit_kind kind = Inr kd" "k \<noteq> []" "length k \<le> 128"
    and r': "(case dict_get (rt_idem ?s2) k of
          None \<Rightarrow> admit E now (strip text) kd ss (Some k) ?s2
        | Some (rid, request) \<Rightarrow>
            if request = (strip text, kd, ss) then (Inr rid, incr ''idempotency_replays_total'' 1 ?s2)
            else (Inl (IdempotencyConflictError
                    ''idempotency key was already used with a different request''), ?s2)) = (Inr rid, s')"
    using r unfolding submit_eq [OF s c] Let_def
    by (auto split: if_splits sum.splits)
  have "dict_get (rt_idem s') k = Some (rid, strip text, kd, ss)"
  proof (cases "dict_get (rt_idem ?s2) k")
    case None
    then have "admit E now (strip text) kd ss (Some k) ?s2 = (Inr rid, s')" using r' by simp
    then show ?thesis
      by (auto simp: admit_def rejected_def Let_def fsm_transition_eq enqueue_def
          split: if_splits sum.splits prod.splits option.splits dest!: mk_run_record_Inr)
  next
    case (Some e)
    then show ?thesis using r' by (cases e) (auto split: if_splits)
  qed
  with ok show ?thesis by blast
qed

lemma admit_closed: "rt_closed (snd (admit E now i kd ss key s)) = rt_closed s"
  by (auto simp: admit_def rejected_def Let_def fsm_transition_eq enqueue_def uuid4_def
      split: sum.split prod.split option.split)

lemma submit_closed:
  "rt_inv E s \<Longrightarrow> \<not> rt_closed s \<Longrightarrow> \<not> rt_closed (snd (submit E now text kind ss key s))"
  using cleanup_runs_inv(2) [OF runtime_start_inv, of E s now 1]
  by (auto simp: submit_eq Let_def admit_closed runtime_start_closed split: sum.split option.split)



text \<open>A key that is bound to an unfinished run refuses every other request: \<open>submit\<close> raises
  \<open>IdempotencyConflictError\<close> and creates nothing.\<close>

theorem key_conflict_is_refused:
  assumes "reachable E s" and "uuids_ok E" and "\<not> rt_closed s"
    and "dict_get (rt_idem s) k = Some (rid, request)" and "run_state_of s rid = Some t" "\<not> terminal t"
    and "strip text \<noteq> []" "submit_kind kind = Inr kd" "k \<noteq> []" "length k \<le> 128"
    and "request \<noteq> (strip text, kd, ss)"
  shows "\<exists>s'. submit E now text kind ss (Some k) s = (Inl (IdempotencyConflictError
      ''idempotency key was already used with a different request''), s')
    \<and> rt_heap s' = rt_heap s \<and> rt_queue s' = rt_queue s \<and> rt_execs s' = rt_execs s"
proof -
  have i: "rt_inv E s" using assms(1,2) by (rule reachable_inv)
  have u: "unfinished s rid" using assms(5,6) by (simp add: unfinished_def)
  from submit_bound_key [OF i assms(3,4) u assms(7-10), where now = now and ss = ss] assms(11) show ?thesis by auto
qed

theorem key_conflict_is_refused_witness:
  "\<exists>s s'. reachable small_env s
     \<and> submit small_env 2 ''bye'' (Inr SIMPLE) None (Some ''k'') s =
        (Inl (IdempotencyConflictError ''idempotency key was already used with a different request''), s')
     \<and> rt_queue s' = rt_queue s"
proof -
  obtain s where s: "reachable small_env s" "run_state_of s demo_run = Some READY" "\<not> rt_closed s"
    "dict_get (rt_idem s) ''k'' = Some (demo_run, ''hello'', SIMPLE, None)"
    using ex_demo_keyed by blast
  have "strip ''bye'' = ''bye''" by code_simp
  then show ?thesis
    using key_conflict_is_refused [OF s(1) small_uuids_ok s(3,4,2), of "''bye''" "Inr SIMPLE" SIMPLE None 2] s(1)
    by (auto simp: submit_kind_def)
qed

text \<open>The idempotency index is consistent: a key leads to a retained run that was submitted with
  the recorded input, kind and session, and the reverse index names the same key.\<close>

theorem idempotency_index_consistent:
  assumes "reachable E s" and "uuids_ok E" and "dict_get (rt_idem s) k = Some (rid, input, kd, ss)"
  shows "dict_get (rt_idem_by_run s) rid = Some k
    \<and> (\<exists>r. runs_get s rid = Some r \<and> rr_input r = input \<and> rr_kind r = kd
         \<and> (\<forall>sid. ss = Some sid \<longrightarrow> sid \<noteq> [] \<longrightarrow> rr_session_id r = sid))"
proof -
  note inv = rt_inv0D(3) [OF rt_invD(1) [OF reachable_inv [OF assms(1,2)]]]
  have "dict_get (rt_idem_by_run s) rid = Some k" "rid \<in> set (rt_runs s)"
    "\<exists>r. rt_heap s rid = Some r \<and> rr_input r = input \<and> rr_kind r = kd
       \<and> (\<forall>sid. ss = Some sid \<longrightarrow> sid \<noteq> [] \<longrightarrow> rr_session_id r = sid)"
    using inv assms(3) unfolding inv_idem_def by blast+
  then show ?thesis by (simp add: runs_get_def)
qed

theorem idempotency_index_consistent_witness:
  "\<exists>s r. reachable small_env s \<and> dict_get (rt_idem s) ''k'' = Some (demo_run, ''hello'', SIMPLE, None)
     \<and> runs_get s demo_run = Some r \<and> rr_input r = ''hello''"
proof -
  obtain s where s: "reachable small_env s"
    "dict_get (rt_idem s) ''k'' = Some (demo_run, ''hello'', SIMPLE, None)"
    using ex_demo_keyed by blast
  show ?thesis using idempotency_index_consistent [OF s(1) small_uuids_ok s(2)] s by blast
qed

subsection \<open>Admission\<close>



text \<open>When the queue is full, \<open>submit\<close> without a key raises \<open>RunQueueFullError\<close> with the configured
  delay, and no run, queue entry or task is created or changed.\<close>

theorem full_queue_rejects:
  assumes "reachable E s" and "uuids_ok E" and "\<not> rt_closed s" and "strip text \<noteq> []"
    and "queue_full (rt_queue s)"
  shows "\<exists>s'. submit E now text (Inr kd) ss None s =
      (Inl (RunQueueFullError (cf_queue_retry_after_seconds (env_config E))), s')
    \<and> rt_heap s' = rt_heap s \<and> rt_queue s' = rt_queue s \<and> rt_execs s' = rt_execs s
    \<and> metric (w_metrics (rt_world s')) ''run_submissions_rejected_total'' =
        metric (w_metrics (rt_world (cleanup_runs E now 1 (snd (runtime_start E s)))))
          ''run_submissions_rejected_total'' + 1"
proof -
  have i: "rt_inv E s" using assms(1,2) by (rule reachable_inv)
  note cl = cleanup_runs_inv [OF runtime_start_inv [OF i], where now = now and reserve = 1]
  show ?thesis
    using assms(4,5) cl(4,5)
    by (simp add: submit_eq [OF i assms(3)] Let_def submit_kind_def admit_def rejected_def
        start_fields) (simp add: incr_def)
qed

theorem full_queue_rejects_witness:
  "\<exists>s s'. reachable small_env s
     \<and> submit small_env 3 ''hello'' (Inr SIMPLE) None None s = (Inl (RunQueueFullError 1), s')
     \<and> rt_queue s' = rt_queue s"
proof -
  obtain s where s: "reachable small_env s" "queue_full (rt_queue s)" "\<not> rt_closed s"
    using ex_demo_full by blast
  have "strip ''hello'' \<noteq> []" by code_simp
  from full_queue_rejects [OF s(1) small_uuids_ok s(3) this s(2), of 3 SIMPLE None] s(1)
  show ?thesis by (auto simp: small_env_def small_config_def runtime_defaults_def)
qed

text \<open>Reclaiming removes only finished runs: an unfinished run stays registered, every removed run
  is finished, and what remains fits under the limit with the reserve or is unfinished.\<close>

theorem reclaim_spares_unfinished:
  assumes "reachable E s" and "uuids_ok E"
  shows "\<exists>s'. s' = cleanup_runs E now reserve s
    \<and> (\<forall>rid \<in> set (rt_runs s). rid \<notin> set (rt_runs s') \<longrightarrow>
         (\<exists>t. run_state_of s rid = Some t \<and> terminal t))
    \<and> set (rt_runs s') \<subseteq> set (rt_runs s) \<and> rt_heap s' = rt_heap s
    \<and> (int (length (rt_runs s')) + reserve \<le> cf_max_run_records (env_config E)
       \<or> (\<forall>rid \<in> set (rt_runs s'). unfinished s' rid))"
proof -
  have i: "rt_inv E s" using assms by (rule reachable_inv)
  note cl = cleanup_runs_inv [OF i, where now = now and reserve = reserve]
    and f = removable_facts [OF i, where now = now and reserve = reserve]
  show ?thesis using cl(5-7) f(3) by auto
qed

theorem reclaim_spares_unfinished_witness:
  "\<exists>s. demo_ready s \<and> demo_run \<in> set (rt_runs (cleanup_runs small_env 9000 0 s))"
proof -
  obtain s where s: "demo_ready s" using ex_demo_ready by blast
  then have f: "reachable small_env s" "demo_run \<in> set (rt_runs s)" "run_state_of s demo_run = Some READY"
    by (simp_all only: demo_ready_def)
  show ?thesis
    using reclaim_spares_unfinished [OF f(1) small_uuids_ok, of 9000 0] s f(2,3)
    by (metis option.inject terminal_simps(5))
qed

subsection \<open>Cancelling and retrying\<close>

text \<open>C21: \<open>cancel\<close> raises for an unknown run, returns \<open>False\<close> and changes nothing for a finished one, and
  otherwise returns \<open>True\<close>: the run is CANCELLED, its waiters are released, and the task that executes
  it, if there is one, is asked to stop.\<close>

theorem cancel_outcome:
  assumes "reachable E s" and "uuids_ok E"
  shows "case runs_get s rid of
      None \<Rightarrow> cancel E now rid s = (Inl (RunNotFoundError (''unknown run: '' @ rid)), s)
    | Some run \<Rightarrow>
       if terminal (rr_state run) then cancel E now rid s = (Inr False, s)
       else \<exists>s'. cancel E now rid s = (Inr True, s')
         \<and> run_state_of s' = (run_state_of s)(rid \<mapsto> CANCELLED)
         \<and> dict_get (rt_completion s') rid = Some True \<and> qids s' = qids s
         \<and> (\<forall>tid. dict_get (rt_tasks s) rid = Some tid \<longrightarrow> live (rt_execs s) tid \<longrightarrow>
              et_cancel (rt_execs s' ! tid))"
proof (cases "runs_get s rid")
  case None
  then show ?thesis by (simp add: cancel_def runtime_get_def)
next
  case (Some run)
  have i: "rt_inv E s" using assms by (rule reachable_inv)
  have st: "run_state_of s rid \<noteq> None"
    using Some by (auto simp: runs_get_def run_state_of_def split: if_splits)
  show ?thesis
    using Some st unfolding cancel_eq [OF i Some]
    by (auto simp: task_cancel_execs split: option.split)
qed

theorem cancel_outcome_witness:
  "\<exists>s s'. demo_ready s \<and> cancel small_env 5 demo_run s = (Inr True, s')
     \<and> run_state_of s' demo_run = Some CANCELLED"
proof -
  obtain s where s: "demo_ready s" using ex_demo_ready by blast
  then have f: "reachable small_env s" "demo_run \<in> set (rt_runs s)" "run_state_of s demo_run = Some READY"
    by (simp_all only: demo_ready_def)
  then obtain run where run: "runs_get s demo_run = Some run" "rr_state run = READY"
    by (auto simp: runs_get_def run_state_of_def)
  show ?thesis
    using cancel_outcome [OF f(1) small_uuids_ok, where rid = demo_run and now = 5] s
    unfolding run(1) option.case run(2) by auto
qed

text \<open>C22: \<open>retry\<close> revives exactly the failed runs, when the queue has room: the run is READY and last in
  the queue, with its result, error and end stamp cleared and its completion event cleared. A full
  queue and any other state are refused without touching the run.\<close>

theorem retry_outcome:
  assumes "reachable E s" and "uuids_ok E" and "runs_get s rid = Some run"
  shows "if queue_full (rt_queue s)
    then \<exists>s'. retry E now rid s = (Inl (RunQueueFullError (cf_queue_retry_after_seconds (env_config E))), s')
      \<and> rt_heap s' = rt_heap s \<and> rt_queue s' = rt_queue s
    else if rr_state run = FAILED
    then \<exists>s' r. retry E now rid s = (Inr rid, s')
      \<and> run_state_of s' = (run_state_of s)(rid \<mapsto> READY) \<and> rt_heap s' rid = Some r
      \<and> rr_output r = None \<and> rr_error r = None \<and> rr_finished_at r = None \<and> \<not> rr_cancel_requested r
      \<and> qids s' = qids s @ [rid] \<and> dict_get (rt_completion s') rid = Some False
    else \<exists>s'. retry E now rid s =
        (Inl (InvalidStateTransition (illegal_message (rr_state run) READY)), s')
      \<and> rt_heap s' = rt_heap s \<and> rt_queue s' = rt_queue s"
proof -
  have i: "rt_inv E s" using assms(1,2) by (rule reachable_inv)
  have h: "rt_heap s rid = Some run" using assms(3) by (auto simp: runs_get_def split: if_splits)
  have same: "rt_heap (fsm_effect E now rid READY ''manual retry'' False s) = rt_heap s"
    by (auto simp: fsm_effect_heap option.map_ident)
  show ?thesis
    using h same unfolding retry_eq [OF i] assms(3) option.case
    by (auto simp: retried_def Let_def fsm_effect_heap run_state_of_def)
qed

theorem retry_outcome_witness:
  "\<exists>s s'. demo_failed s \<and> retry small_env 500 demo_run s = (Inr demo_run, s')
     \<and> run_state_of s' demo_run = Some READY \<and> qids s' = [demo_run]"
proof -
  obtain s where s: "demo_failed s" using ex_demo_failed by blast
  then have f: "reachable small_env s" "demo_run \<in> set (rt_runs s)" "run_state_of s demo_run = Some FAILED"
    "qids s = []"
    by (simp_all only: demo_failed_def)
  then obtain run where run: "runs_get s demo_run = Some run" "rr_state run = FAILED"
    by (auto simp: runs_get_def run_state_of_def)
  have "tq_capacity (rt_queue s) = 2"
    using rt_inv0D(6) [OF rt_invD(1) [OF reachable_inv [OF f(1) small_uuids_ok]]]
    by (simp add: inv_queue_def small_env_def small_config_def)
  then have "\<not> queue_full (rt_queue s)" using f(4) by (simp add: queue_full_def)
  with retry_outcome [OF f(1) small_uuids_ok run(1), of 500] run(2) f(4) s show ?thesis by auto
qed

subsection \<open>Closing\<close>



end
