(* ===== verification/Component_Properties.thy ===== *)
theory Component_Properties
  imports Fsm Events Sessions Task_Queue Patterns
begin

section \<open>Properties of the supporting components\<close>

text \<open>
  What the data model, the state machine, the metrics, the event bus, the session store, the task
  queue and the agent patterns promise, each stated on the component alone.
\<close>

subsection \<open>State machine\<close>

text \<open>A transition succeeds exactly when the whitelist has it. Then the run is in the target state
  with one history entry more and the hook has been called once, on the updated run; otherwise the
  operation raises and neither the run nor the hook's world has changed. Either way the run's lock is
  free again and no other lock is touched.\<close>

theorem transition_guarded:
  "\<exists>ls' r'. r' = apply_record now (rr_state r) target reason r \<and> transition (Some hook) now target reason (r, w) ls =
      (if can_transition (rr_state r) target
       then ((Inr (), r', hook r' (rr_state r) target reason w), ls')
       else ((Inl (InvalidStateTransition (illegal_message (rr_state r) target)), r, w), ls'))
    \<and> rr_state r' = target
    \<and> rr_transitions r' = rr_transitions r @ [\<lparr>te_from = rr_state r, te_to = target, te_at = now,
         te_reason = (if reason \<noteq> [] then Some reason else None)\<rparr>]
    \<and> dict_get ls' = (dict_get ls)(rr_id r \<mapsto> False)"
  by (simp add: fun_eq_iff transition_def Let_def with_lock_const apply_transition_def
      apply_record_history lock_for_def dict_get_setdefault)

subsection \<open>Messages\<close>

text \<open>A valid message survives the round trip through its dictionary form.\<close>

theorem message_roundtrip:
  assumes "wf_message m" and "msg_name m \<noteq> Some []"
  shows "message_from_dict repr (map (\<lambda>(k, v). (k, PStr v)) (message_to_dict m)) = Inr m"
  by (rule message_dict_roundtrip [OF assms])

theorem message_roundtrip_witness:
  "message_from_dict (\<lambda>_. []) (map (\<lambda>(k, v). (k, PStr v))
     (message_to_dict \<lparr>msg_role = ''tool'', msg_content = ''4'', msg_name = Some ''calc''\<rparr>)) =
   Inr \<lparr>msg_role = ''tool'', msg_content = ''4'', msg_name = Some ''calc''\<rparr>"
  by (rule message_roundtrip) (simp add: wf_message_def not_blank_ConsI is_space_def, simp)

subsection \<open>Event bus\<close>

text \<open>Publishing records the event in the audit trail, which keeps the last \<open>capacity\<close> events,
  and touches every subscription on its own: a matching one with room gets the event at the end of
  its queue, a full one loses only its own copy, and a subscription is never affected by another.\<close>

theorem publish_is_local:
  "\<exists>e. e = \<lparr>ev_id = uuids (w_uuids w), ev_topic = topic, ev_trace_id = trace,
      ev_agent_id = agent, ev_timestamp = now, ev_payload = payload\<rparr>
    \<and> eb_audit (w_bus (emit uuids now topic trace agent payload w)) =
      lastn (eb_capacity (w_bus w)) (eb_audit (w_bus w) @ [e])
    \<and> eb_subs (w_bus (emit uuids now topic trace agent payload w)) =
      map (\<lambda>s. if matches topic s \<and> \<not> sub_full s
               then s\<lparr>sub_queue := sub_queue s @ [Some e],
                      sub_unfinished := Suc (sub_unfinished s)\<rparr>
               else s) (eb_subs (w_bus w))"
  by (simp add: eb_audit_emit eb_subs_emit fst_deliver deque_append_lastn deliver_one_def
      sub_put_def)


text \<open>From a new bus on, whatever happens, the audit trail holds at most its capacity, every
  subscription queue at most its size, and the number of items a queue expects \<open>task_done\<close> for is
  the queued ones plus those in a handler.\<close>

theorem bus_stays_bounded:
  assumes "bus_new cap = Inr (w_bus w)" and "b = w_bus (fold (bus_exec uuids) ops w)"
  shows "length (eb_audit b) \<le> eb_capacity b
    \<and> (\<forall>s \<in> set (eb_subs b). length (sub_queue s) \<le> sub_maxsize s
         \<and> sub_unfinished s = length (sub_queue s) + sub_busy s \<and> sub_busy s \<le> sub_workers s)"
proof -
  have "wf_bus b" unfolding assms(2) by (intro wf_bus_exec_all wf_bus_new [OF assms(1)])
  then show ?thesis by (auto simp: wf_bus_def wf_sub_def)
qed

definition demo_world :: world where
  "demo_world = \<lparr>w_metrics = [], w_bus = projr (bus_new 1), w_uuids = 0\<rparr>"

theorem bus_stays_bounded_witness:
  "length (eb_audit (w_bus (fold (bus_exec (\<lambda>n. replicate n CHR ''a''))
     [Subscribe ''*'' 1 1, Start, Emit 1 ''t'' ''r'' ''a'' [], Emit 2 ''t'' ''r'' ''a'' []] demo_world))) \<le>
   eb_capacity (w_bus (fold (bus_exec (\<lambda>n. replicate n CHR ''a''))
     [Subscribe ''*'' 1 1, Start, Emit 1 ''t'' ''r'' ''a'' [], Emit 2 ''t'' ''r'' ''a'' []] demo_world))"
proof -
  have "bus_new 1 = Inr (w_bus demo_world)"
    by (simp add: demo_world_def bus_new_def audit_new_def)
  from bus_stays_bounded [OF this refl] show ?thesis by blast
qed

subsection \<open>Sessions\<close>

text \<open>After any number of turns a session's history is the last \<open>max_messages\<close> messages of what
  was there and what was said, user before assistant in every turn; other sessions are untouched.\<close>

theorem history_is_last_messages:
  assumes "wf_sessions st" and "\<forall>(u, a) \<in> set turns. \<not> blank u \<and> \<not> blank a"
  shows "session_get (fold (\<lambda>(u, a) st. snd (append_turn sid u a st)) turns st) sid' =
    (if sid' = sid
     then lastn (ss_max_messages st)
       (session_get st sid @ concat (map (\<lambda>(u, a). [user_message u, assistant_message a]) turns))
     else session_get st sid')"
  using memory_sessions.get_append_turns [OF assms]
    memory_sessions.get_append_turns_other [OF assms(1)]
  by (simp add: memory_sessions.append_turns_def)

theorem history_is_last_messages_witness:
  "session_get (fold (\<lambda>(u, a) st. snd (append_turn ''s'' u a st))
      [(''hi'', ''hello''), (''more'', ''done'')] \<lparr>ss_max_messages = 3, ss_sessions = []\<rparr>) ''s'' =
    [assistant_message ''hello'', user_message ''more'', assistant_message ''done'']"
proof -
  have "wf_sessions \<lparr>ss_max_messages = 3, ss_sessions = []\<rparr>"
    by (simp add: wf_sessions_def session_get_def)
  from history_is_last_messages [OF this, of "[(''hi'', ''hello''), (''more'', ''done'')]" "''s''" "''s''"]
  show ?thesis
    by (simp add: session_get_def lastn_def not_blank_ConsI is_space_def)
qed

text \<open>\<open>append_turn\<close> is not atomic: when the assistant's text is blank it raises, but the user's
  message has been stored already, so the history ends with a question that was never answered.\<close>

theorem blank_answer_leaves_question:
  assumes "wf_sessions st" and "\<not> blank u" and "blank a"
  shows "\<exists>st'. append_turn sid u a st =
      (Inl (ValueError ''message content must not be empty''), st')
    \<and> session_get st' sid = lastn (ss_max_messages st) (session_get st sid @ [user_message u])
    \<and> session_get st' sid \<noteq> [] \<and> last (session_get st' sid) = user_message u"
proof -
  have "0 < ss_max_messages st" using assms(1) by (simp add: wf_sessions_def)
  then have "lastn (ss_max_messages st) (xs @ [user_message u]) \<noteq> []
      \<and> last (lastn (ss_max_messages st) (xs @ [user_message u])) = user_message u" for xs
    by (auto simp: lastn_def)
  then show ?thesis
    using assms(2,3) by (simp add: append_turn_cases Let_def deque_append_lastn)
qed

theorem blank_answer_leaves_question_witness:
  "\<exists>st'. append_turn ''s'' ''hi'' ''  '' \<lparr>ss_max_messages = 20, ss_sessions = []\<rparr> =
      (Inl (ValueError ''message content must not be empty''), st')
    \<and> session_get st' ''s'' = [user_message ''hi'']"
proof -
  have "wf_sessions \<lparr>ss_max_messages = 20, ss_sessions = []\<rparr>" "\<not> blank ''hi''" "blank ''  ''"
    by (simp_all add: wf_sessions_def session_get_def not_blank_ConsI is_space_def strip_of_def)
  from blank_answer_leaves_question [OF this, of "''s''"] show ?thesis
    by (auto simp: session_get_def lastn_def)
qed

subsection \<open>Task queue\<close>

text \<open>Tasks leave the queue in the order in which they entered it, and a producer that checks
  \<open>full\<close> first never sees \<open>QueueFull\<close>; what does not fit is refused, not reordered.\<close>

theorem queue_is_fifo:
  assumes "queue_new capacity = Inr q"
  shows "memory_queue.get_all (length xs) (memory_queue.put_all xs q) = take (nat capacity) xs"
proof -
  have "wf_queue q" "tq_items q = []" "tq_capacity q = nat capacity"
    using assms by (auto simp: wf_queue_new queue_new_def split: if_splits)
  then show ?thesis using memory_queue.fifo [of q xs] by simp
qed

theorem queue_is_fifo_witness:
  "memory_queue.get_all (length [''a'', ''b'', ''c'']) (memory_queue.put_all [''a'', ''b'', ''c'']
     \<lparr>tq_capacity = 2, tq_items = [], tq_unfinished = 0\<rparr>) = [''a'', ''b'']"
proof -
  have "queue_new 2 = Inr \<lparr>tq_capacity = 2, tq_items = [], tq_unfinished = 0\<rparr>"
    by (simp add: queue_new_def)
  from queue_is_fifo [OF this, of "[''a'', ''b'', ''c'']"] show ?thesis
    by (simp only: list.size) simp
qed

subsection \<open>Agent patterns\<close>

text \<open>Whatever the model and the tools answer, a pattern makes at most its budget of calls: one for
  SIMPLE, three for REFLECTION, one per step and one more for REACT with at most one tool call per
  step, and one per step and two more for PLAN_SOLVE. So every run of a pattern ends.\<close>

theorem pattern_call_budget:
  "length (filter is_llm_call (calls_of llm tool (pattern_run c kind ctx) s))
      \<le> llm_budget kind (ctx_max_steps ctx)
   \<and> length (filter (\<lambda>x. \<not> is_llm_call x) (calls_of llm tool (pattern_run c kind ctx) s))
      \<le> tool_budget kind (ctx_max_steps ctx)"
  by (intro conjI within_calls_of [OF within_pattern])

text \<open>With a non-blank task and a valid history, a pattern only sends well-formed requests, and it
  raises only what the model or a tool raised: building a message never fails, whatever was
  answered. (The parser must reject the empty text, as JSON parsers do.)\<close>

theorem pattern_is_robust:
  assumes "wf_context ctx" and "cd_loads c [] = None"
  shows "(\<forall>req st. Llm_call req st \<in> set (calls_of llm tool (pattern_run c kind ctx) s) \<longrightarrow>
      wf_request req)
    \<and> fst (run_coro (answering f) (observing g) (pattern_run c kind ctx) s) \<noteq> Inl e"
proof
  have safe: "safe wf_request (pattern_run c kind ctx)" using assms by (rule safe_pattern)
  show "\<forall>req st. Llm_call req st \<in> set (calls_of llm tool (pattern_run c kind ctx) s) \<longrightarrow> wf_request req"
    using safe_logged [OF safe, where cs = "[]" and s = s and llm = llm and tool = tool]
    by (auto simp: calls_of_def run_logged_def)
  show "fst (run_coro (answering f) (observing g) (pattern_run c kind ctx) s) \<noteq> Inl e"
    using safe_run [OF safe, where Q = "\<lambda>_. True" and llm = "answering f" and tool = "observing g"]
    by (auto simp: answering_def observing_def)
qed

definition demo_codec :: codec where
  "demo_codec = \<lparr>cd_loads = (\<lambda>_. None), cd_dumps = (\<lambda>_. ''[]''), cd_repr = (\<lambda>_. ''x'')\<rparr>"

definition demo_context :: agent_context where
  "demo_context = \<lparr>ctx_task = ''add'', ctx_history = [], ctx_max_steps = 2, ctx_tools = []\<rparr>"

theorem pattern_is_robust_witness:
  "fst (run_coro (answering (\<lambda>_ _. [])) (observing (\<lambda>_ _. [])) (pattern_run demo_codec REACT demo_context) ())
     \<noteq> Inl (ValueError ''message content must not be empty'')"
proof -
  have "wf_context demo_context" "cd_loads demo_codec [] = None"
    by (simp_all add: wf_context_def demo_context_def demo_codec_def not_blank_ConsI is_space_def)
  from pattern_is_robust [OF this, THEN conjunct2] show ?thesis .
qed

text \<open>REFLECTION asks for a draft, for a critique of that draft and for a revision that sees both,
  in this order, calls no tool, and returns the revision.\<close>

theorem reflection_order:
  assumes "\<not> blank (ctx_task ctx)"
  shows "\<exists>r1 r2 r3. run_logged (answering f) tool (reflection_run ctx) s =
      (Inr (f r3 ''reflection.revise''),
       [Llm_call r1 ''reflection.draft'', Llm_call r2 ''reflection.critique'',
        Llm_call r3 ''reflection.revise''], s)
    \<and> msg_content (last (req_messages r2)) =
        ''Task:'' @ nl @ ctx_task ctx @ nl @ nl @ ''Draft:'' @ nl @ f r1 ''reflection.draft''
    \<and> msg_content (last (req_messages r3)) =
        ''Task:'' @ nl @ ctx_task ctx @ nl @ nl @ ''Draft:'' @ nl @ f r1 ''reflection.draft'' @ nl @ nl
        @ ''Critique:'' @ nl @ f r2 ''reflection.critique''"
proof -
  have "\<not> blank (''Task:'' @ x)" for x by (simp add: not_blank_ConsI is_space_def)
  then show ?thesis
    using assms
    by (simp add: reflection_run_def run_logged_def log_llm_def answering_def not_blank_ConsI
        is_space_def del: append_Cons)
qed

theorem reflection_order_witness:
  "\<exists>r1 r2 r3. run_logged (answering (\<lambda>_ st. st)) (observing (\<lambda>_ _. [])) (reflection_run demo_context) () =
      (Inr ''reflection.revise'',
       [Llm_call r1 ''reflection.draft'', Llm_call r2 ''reflection.critique'',
        Llm_call r3 ''reflection.revise''], ())"
proof -
  have "\<not> blank (ctx_task demo_context)" by (simp add: demo_context_def not_blank_ConsI is_space_def)
  from reflection_order [OF this, of "\<lambda>_ st. st" "observing (\<lambda>_ _. [])" "()"] show ?thesis by blast
qed

end
