(* ===== verification/Resilience.thy ===== *)
theory Resilience
  imports Config Metrics
begin

section \<open>Token bucket and circuit breaker\<close>

text \<open>
  The first half of \<open>llm/resilience.py\<close>. Both objects take their lock for the whole body of every
  method and suspend nowhere inside it, so a method is one function of the object's state and the
  reading of the clock. \<open>TokenBucket.acquire\<close> is a loop that sleeps between its rounds:
  \<open>acquire_round\<close> is one round, \<open>acquire_loop\<close> is the loop of a caller on its own, driven by how
  late \<open>asyncio.sleep\<close> wakes it.
\<close>

subsection \<open>Token bucket\<close>

record token_bucket =
  tb_capacity :: pyfloat
  tb_refill_rate :: pyfloat
  tb_tokens :: pyfloat
  tb_updated_at :: time

definition bucket_new :: "rate_limit_config \<Rightarrow> time \<Rightarrow> exn + token_bucket" where
  "bucket_new c now =
     (case rate_limit_validate c of
        Inl e \<Rightarrow> Inl e
      | Inr _ \<Rightarrow> Inr \<lparr>tb_capacity = rl_capacity c, tb_refill_rate = rl_refill_per_second c,
                     tb_tokens = rl_capacity c, tb_updated_at = now\<rparr>)"

definition bucket_refill :: "time \<Rightarrow> token_bucket \<Rightarrow> token_bucket" where
  "bucket_refill now b =
     (let elapsed = max 0 (now - tb_updated_at b)
      in b\<lparr>tb_tokens := min (tb_capacity b) (tb_tokens b + elapsed * tb_refill_rate b),
           tb_updated_at := now\<rparr>)"

text \<open>A round of the loop: \<open>None\<close> is the return, \<open>Some w\<close> asks for a sleep of \<open>w\<close> seconds.\<close>

definition acquire_round :: "time \<Rightarrow> pyfloat \<Rightarrow> token_bucket \<Rightarrow> pyfloat option \<times> token_bucket" where
  "acquire_round now tokens b =
     (let b1 = bucket_refill now b in
      if tokens \<le> tb_tokens b1 then (None, b1\<lparr>tb_tokens := tb_tokens b1 - tokens\<rparr>)
      else (Some ((tokens - tb_tokens b1) / tb_refill_rate b1), b1))"

definition acquire_check :: "pyfloat \<Rightarrow> token_bucket \<Rightarrow> exn + unit" where
  "acquire_check tokens b =
     (if tokens \<le> 0 \<or> tb_capacity b < tokens
      then Inl (ValueError ''requested tokens must be in (0, capacity]'') else Inr ())"

text \<open>
  The whole loop of one caller. The \<open>n\<close>-th sleep lasts \<open>late n\<close> seconds longer than asked. The
  result holds the time of the return and the number of sleeps; \<open>None\<close> would be a loop that never
  ends.
\<close>

partial_function (option) acquire_loop ::
    "(nat \<Rightarrow> pyfloat) \<Rightarrow> pyfloat \<Rightarrow> nat \<Rightarrow> time \<Rightarrow> token_bucket \<Rightarrow> (token_bucket \<times> time \<times> nat) option" where
  "acquire_loop late tokens n now b =
     (case acquire_round now tokens b of
        (None, b1) \<Rightarrow> Some (b1, now, n)
      | (Some w, b1) \<Rightarrow> acquire_loop late tokens (Suc n) (now + w + late n) b1)"

definition acquire ::
    "(nat \<Rightarrow> pyfloat) \<Rightarrow> pyfloat \<Rightarrow> time \<Rightarrow> token_bucket \<Rightarrow> (exn + token_bucket \<times> time \<times> nat) option" where
  "acquire late tokens now b =
     (case acquire_check tokens b of
        Inl e \<Rightarrow> Some (Inl e)
      | Inr _ \<Rightarrow> map_option Inr (acquire_loop late tokens 0 now b))"

definition wf_bucket :: "token_bucket \<Rightarrow> bool" where
  "wf_bucket b \<longleftrightarrow> 0 < tb_refill_rate b \<and> 0 \<le> tb_tokens b \<and> tb_tokens b \<le> tb_capacity b"

lemma wf_bucket_new: "bucket_new c now = Inr b \<Longrightarrow> wf_bucket b"
  by (auto simp: bucket_new_def wf_bucket_def split: sum.splits dest: rate_limit_validateD)

lemma refill_fields [simp]:
  "tb_capacity (bucket_refill now b) = tb_capacity b"
  "tb_refill_rate (bucket_refill now b) = tb_refill_rate b"
  "tb_updated_at (bucket_refill now b) = now"
  by (simp_all add: bucket_refill_def Let_def)

lemma refill_tokens:
  "tb_tokens (bucket_refill now b) =
     min (tb_capacity b) (tb_tokens b + max 0 (now - tb_updated_at b) * tb_refill_rate b)"
  by (simp add: bucket_refill_def Let_def)

lemma wf_refill [inv_intros]: "wf_bucket b \<Longrightarrow> wf_bucket (bucket_refill now b)"
  by (auto simp: wf_bucket_def refill_tokens intro!: add_nonneg_nonneg mult_nonneg_nonneg)

lemma acquire_round_cases:
  assumes "acquire_round now tokens b = (r, b')"
  obtains (granted) "r = None" "tokens \<le> tb_tokens (bucket_refill now b)"
      "b' = (bucket_refill now b)\<lparr>tb_tokens := tb_tokens (bucket_refill now b) - tokens\<rparr>"
    | (wait) "r = Some ((tokens - tb_tokens (bucket_refill now b)) / tb_refill_rate b)"
      "tb_tokens (bucket_refill now b) < tokens" "b' = bucket_refill now b"
proof (cases "tokens \<le> tb_tokens (bucket_refill now b)")
  case True
  then show thesis using assms by (intro granted) (simp_all add: acquire_round_def Let_def)
next
  case False
  then show thesis using assms by (intro wait) (auto simp: acquire_round_def Let_def)
qed

lemma acquire_round_fields:
  assumes "acquire_round now tokens b = (r, b')"
  shows "tb_capacity b' = tb_capacity b" "tb_refill_rate b' = tb_refill_rate b" "tb_updated_at b' = now"
  using assms by (cases rule: acquire_round_cases; simp)+

lemma wf_acquire_round [inv_intros]:
  assumes "acquire_round now tokens b = (r, b')" and "wf_bucket b" and "0 < tokens"
  shows "wf_bucket b'"
proof -
  note w = wf_refill [OF assms(2), of now]
  from assms(1) show ?thesis
  proof (cases rule: acquire_round_cases)
    case granted
    then show ?thesis using w assms(3) by (simp add: wf_bucket_def)
  next
    case wait
    then show ?thesis using w by simp
  qed
qed

text \<open>
  Many callers: a sequence of rounds, each with its time and the tokens it asks for. \<open>granted\<close> is
  what they get in total.
\<close>

fun granted :: "(time \<times> pyfloat) list \<Rightarrow> token_bucket \<Rightarrow> pyfloat \<times> token_bucket" where
  "granted [] b = (0, b)"
| "granted ((now, tokens) # rounds) b =
     (let (r, b1) = acquire_round now tokens b; (got, b2) = granted rounds b1
      in ((if r = None then tokens else 0) + got, b2))"

text \<open>A bucket's tokens pay for what is granted: the potential only grows with the clock.\<close>

lemma refill_pays:
  assumes "wf_bucket b" and "tb_updated_at b \<le> now"
  shows "tb_tokens (bucket_refill now b) \<le> tb_tokens b + (now - tb_updated_at b) * tb_refill_rate b"
  using assms by (simp add: refill_tokens)

lemma granted_pays:
  assumes "wf_bucket b" and "sorted (tb_updated_at b # map fst rounds)" and "\<forall>(_, k) \<in> set rounds. 0 < k"
    and "granted rounds b = (got, b')"
  shows "wf_bucket b' \<and> tb_capacity b' = tb_capacity b \<and> tb_refill_rate b' = tb_refill_rate b
    \<and> got + tb_tokens b' \<le> tb_tokens b + (tb_updated_at b' - tb_updated_at b) * tb_refill_rate b
    \<and> tb_updated_at b' = last (tb_updated_at b # map fst rounds)"
  using assms
proof (induction rounds arbitrary: b got)
  case (Cons p rounds)
  obtain now k where p: "p = (now, k)" by fastforce
  obtain r b1 where r: "acquire_round now k b = (r, b1)" by fastforce
  obtain rest b2 where g: "granted rounds b1 = (rest, b2)" by fastforce
  have k: "0 < k" and mono: "tb_updated_at b \<le> now" using Cons.prems(2,3) p by auto
  note f = acquire_round_fields [OF r]
  have w1: "wf_bucket b1" using r Cons.prems(1) k by (rule wf_acquire_round)
  have s1: "sorted (tb_updated_at b1 # map fst rounds)" using Cons.prems(2) p f(3) by simp
  have b': "got = (if r = None then k else 0) + rest" "b' = b2"
    using Cons.prems(4) p r g by (auto simp: Let_def split: if_splits)
  have k1: "\<forall>(_, k) \<in> set rounds. 0 < k" using Cons.prems(3) by simp
  note ih = Cons.IH [OF w1 s1 k1 g [folded b'(2)]]
  have pay: "(if r = None then k else 0) + tb_tokens b1 \<le> tb_tokens (bucket_refill now b)"
    using r by (cases rule: acquire_round_cases) auto
  have "wf_bucket b' \<and> tb_capacity b' = tb_capacity b \<and> tb_refill_rate b' = tb_refill_rate b
    \<and> rest + tb_tokens b' \<le> tb_tokens b1 + (tb_updated_at b' - now) * tb_refill_rate b
    \<and> tb_updated_at b' = last (now # map fst rounds)"
    using ih unfolding f .
  note step = this
  have "tb_tokens (bucket_refill now b) \<le> tb_tokens b + (now - tb_updated_at b) * tb_refill_rate b"
    using Cons.prems(1) mono by (rule refill_pays)
  moreover have "(now - tb_updated_at b) * tb_refill_rate b + (tb_updated_at b' - now) * tb_refill_rate b =
      (tb_updated_at b' - tb_updated_at b) * tb_refill_rate b" by (simp add: algebra_simps)
  ultimately have "got + tb_tokens b' \<le> tb_tokens b + (tb_updated_at b' - tb_updated_at b) * tb_refill_rate b"
    using pay b'(1) step by linarith
  then show ?case using step p by simp
qed simp

text \<open>A caller on its own sleeps at most once.\<close>

lemma acquire_second:
  assumes wf: "wf_bucket b" and k: "0 < tokens" "tokens \<le> tb_capacity b" and late: "0 \<le> late"
    and w: "acquire_round now tokens b = (Some w, b1)"
  shows "0 < w \<and> (\<exists>b2. acquire_round (now + w + late) tokens b1 = (None, b2))"
proof -
  from w have d: "w = (tokens - tb_tokens b1) / tb_refill_rate b" "tb_tokens b1 < tokens" "b1 = bucket_refill now b"
    by (cases rule: acquire_round_cases; simp)+
  have f: "tb_capacity b1 = tb_capacity b" "tb_refill_rate b1 = tb_refill_rate b" "tb_updated_at b1 = now"
    by (simp_all add: d(3))
  have rate: "0 < tb_refill_rate b" using wf by (simp add: wf_bucket_def)
  then have pos: "0 < w" using d by simp
  have "tokens = tb_tokens b1 + w * tb_refill_rate b" using d(1) rate by simp
  also have "\<dots> \<le> tb_tokens b1 + max 0 (now + w + late - tb_updated_at b1) * tb_refill_rate b1"
    using f late pos rate by (auto intro!: mult_right_mono)
  finally have "tokens \<le> tb_tokens (bucket_refill (now + w + late) b1)"
    using k f by (simp add: refill_tokens)
  then show ?thesis using pos by (simp add: acquire_round_def Let_def)
qed

lemma acquire_loop_once:
  assumes wf: "wf_bucket b" and k: "0 < tokens" "tokens \<le> tb_capacity b" and late: "0 \<le> late n"
    and w: "acquire_round now tokens b = (Some w, b1)"
  shows "\<exists>b2. acquire_loop late tokens n now b = Some (b2, now + w + late n, Suc n)"
proof -
  obtain b2 where "acquire_round (now + w + late n) tokens b1 = (None, b2)"
    using acquire_second [OF wf k late w] by blast
  then have "acquire_loop late tokens (Suc n) (now + w + late n) b1 = Some (b2, now + w + late n, Suc n)"
    by (simp add: acquire_loop.simps)
  then have "acquire_loop late tokens n now b = Some (b2, now + w + late n, Suc n)"
    using w by (simp add: acquire_loop.simps [of late tokens n now b])
  then show ?thesis by blast
qed

subsection \<open>Circuit breaker\<close>

datatype breaker_state = CB_CLOSED | CB_OPEN | CB_HALF_OPEN

fun breaker_value :: "breaker_state \<Rightarrow> string" where
  "breaker_value CB_CLOSED = ''closed''"
| "breaker_value CB_OPEN = ''open''"
| "breaker_value CB_HALF_OPEN = ''half_open''"

record breaker =
  br_config :: breaker_config
  br_state :: breaker_state
  br_failure_count :: int
  br_opened_at :: "time option"
  br_half_open_calls :: int

definition breaker_new :: "breaker_config \<Rightarrow> exn + breaker" where
  "breaker_new c =
     (case breaker_validate c of
        Inl e \<Rightarrow> Inl e
      | Inr _ \<Rightarrow> Inr \<lparr>br_config = c, br_state = CB_CLOSED, br_failure_count = 0,
                     br_opened_at = None, br_half_open_calls = 0\<rparr>)"

text \<open>\<open>self._opened_at or 0.0\<close>\<close>

definition opened_or_zero :: "breaker \<Rightarrow> time" where
  "opened_or_zero b = (case br_opened_at b of None \<Rightarrow> 0 | Some t \<Rightarrow> t)"

text \<open>The second half of \<open>before_call\<close>: a probe slot is taken in the half-open state.\<close>

definition take_probe :: "breaker \<Rightarrow> (exn + unit) \<times> breaker" where
  "take_probe b =
     (if br_state b = CB_HALF_OPEN
      then if cb_half_open_max_calls (br_config b) \<le> br_half_open_calls b
           then (Inl (CircuitOpenError ''circuit breaker half-open probe is busy''), b)
           else (Inr (), b\<lparr>br_half_open_calls := br_half_open_calls b + 1\<rparr>)
      else (Inr (), b))"

definition before_call :: "time \<Rightarrow> breaker \<Rightarrow> (exn + unit) \<times> breaker" where
  "before_call now b =
     (if br_state b = CB_OPEN
      then if now - opened_or_zero b < cb_recovery_timeout_seconds (br_config b)
           then (Inl (CircuitOpenError ''circuit breaker is open''), b)
           else take_probe (b\<lparr>br_state := CB_HALF_OPEN, br_half_open_calls := 0\<rparr>)
      else take_probe b)"

definition record_success :: "breaker \<Rightarrow> breaker" where
  "record_success b =
     b\<lparr>br_state := CB_CLOSED, br_failure_count := 0, br_opened_at := None, br_half_open_calls := 0\<rparr>"

definition record_failure :: "time \<Rightarrow> breaker \<Rightarrow> breaker" where
  "record_failure now b =
     (let b1 = b\<lparr>br_failure_count := br_failure_count b + 1\<rparr>
      in if br_state b1 = CB_HALF_OPEN
            \<or> cb_failure_threshold (br_config b1) \<le> br_failure_count b1
         then b1\<lparr>br_state := CB_OPEN, br_opened_at := Some now, br_half_open_calls := 0\<rparr>
         else b1)"

definition release_probe :: "breaker \<Rightarrow> breaker" where
  "release_probe b =
     (if br_state b = CB_HALF_OPEN
      then b\<lparr>br_half_open_calls := max 0 (br_half_open_calls b - 1)\<rparr> else b)"

definition breaker_snapshot :: "breaker \<Rightarrow> (string, pyval) dict" where
  "breaker_snapshot b =
     [(''state'', PStr (breaker_value (br_state b))), (''failure_count'', PInt (br_failure_count b))]"

text \<open>The calls of a breaker's methods, whoever makes them, and what they do.\<close>

datatype breaker_op = B_call time | B_success | B_failure time | B_release

fun breaker_exec :: "breaker_op \<Rightarrow> breaker \<Rightarrow> breaker" where
  "breaker_exec (B_call now) b = snd (before_call now b)"
| "breaker_exec B_success b = record_success b"
| "breaker_exec (B_failure now) b = record_failure now b"
| "breaker_exec B_release b = release_probe b"

text \<open>
  The specification: what has been reported so far decides. \<open>failures_since\<close> counts the failures
  reported after the last success, \<open>last_failure\<close> is the time of the last one.
\<close>

fun failures_since :: "nat \<Rightarrow> breaker_op list \<Rightarrow> nat" where
  "failures_since n [] = n"
| "failures_since n (B_failure t # ops) = failures_since (Suc n) ops"
| "failures_since n (B_success # ops) = failures_since 0 ops"
| "failures_since n (x # ops) = failures_since n ops"

fun last_failure :: "time option \<Rightarrow> breaker_op list \<Rightarrow> time option" where
  "last_failure r [] = r"
| "last_failure r (B_failure t # ops) = last_failure (Some t) ops"
| "last_failure r (B_success # ops) = last_failure None ops"
| "last_failure r (x # ops) = last_failure r ops"

text \<open>The breaker agrees with what was reported: \<open>n\<close> failures in a row, the last one at \<open>r\<close>.\<close>

definition breaker_agrees :: "nat \<Rightarrow> time option \<Rightarrow> breaker \<Rightarrow> bool" where
  "breaker_agrees n r b \<longleftrightarrow>
     br_failure_count b = int n \<and> 0 < cb_failure_threshold (br_config b)
     \<and> (br_state b = CB_CLOSED \<longleftrightarrow> int n < cb_failure_threshold (br_config b))
     \<and> (br_state b \<noteq> CB_CLOSED \<longrightarrow> br_opened_at b = r \<and> r \<noteq> None)
     \<and> 0 \<le> br_half_open_calls b
     \<and> br_half_open_calls b \<le> cb_half_open_max_calls (br_config b)
     \<and> 0 < cb_half_open_max_calls (br_config b)"

lemma breaker_config_exec [simp]: "br_config (breaker_exec x b) = br_config b"
  by (cases x) (simp_all add: before_call_def take_probe_def record_success_def record_failure_def
      release_probe_def Let_def)

lemma agrees_new: "breaker_new c = Inr b \<Longrightarrow> breaker_agrees 0 None b"
  by (auto simp: breaker_new_def breaker_agrees_def split: sum.splits dest: breaker_validateD)

lemma agrees_exec:
  assumes "breaker_agrees n r b"
  shows "breaker_agrees (failures_since n [x]) (last_failure r [x]) (breaker_exec x b)"
  using assms
  by (cases x; cases "br_state b")
    (auto simp: breaker_agrees_def before_call_def take_probe_def record_success_def
      record_failure_def release_probe_def Let_def)

lemma agrees_exec_all:
  assumes "breaker_agrees n r b"
  shows "breaker_agrees (failures_since n ops) (last_failure r ops) (fold breaker_exec ops b)"
  using assms
proof (induction ops arbitrary: n r b)
  case (Cons x ops)
  have "failures_since n (x # ops) = failures_since (failures_since n [x]) ops"
    "last_failure r (x # ops) = last_failure (last_failure r [x]) ops" by (cases x; simp)+
  then show ?case using Cons.IH [OF agrees_exec [OF Cons.prems, of x]] by simp
qed simp

lemma breaker_config_exec_all [simp]: "br_config (fold breaker_exec ops b) = br_config b"
  by (induction ops arbitrary: b) simp_all

text \<open>When a call passes.\<close>

lemma before_call_passes:
  "fst (before_call now b) = Inr () \<longleftrightarrow>
     (case br_state b of
        CB_CLOSED \<Rightarrow> True
      | CB_OPEN \<Rightarrow> cb_recovery_timeout_seconds (br_config b) \<le> now - opened_or_zero b
          \<and> 0 < cb_half_open_max_calls (br_config b)
      | CB_HALF_OPEN \<Rightarrow> br_half_open_calls b < cb_half_open_max_calls (br_config b))"
  by (auto simp: before_call_def take_probe_def split: breaker_state.split)

lemma before_call_refuses:
  "fst (before_call now b) = Inl e \<Longrightarrow> is_transient e \<and> snd (before_call now b) = b \<or>
     br_state b = CB_OPEN \<and> cb_half_open_max_calls (br_config b) \<le> 0"
  by (auto simp: before_call_def take_probe_def split: if_splits)

end
