(* ===== verification/Resilient_Client.thy ===== *)
theory Resilient_Client
  imports Resilience
begin

section \<open>The resilient LLM client\<close>

text \<open>
  \<open>ResilientLLMClient.complete\<close>, cut at its suspension points: the sleep of the token bucket, the
  provider's call and the back-off sleep. The calls of one client share its bucket, its breaker and
  its metrics, and interleave between these points in any order (\<open>cl_step\<close>). Passing the bucket and
  asking the breaker is one step, because neither lock is held across a suspension.
  \<open>alone\<close> runs a single call with nobody in between.
\<close>

subsection \<open>State and steps\<close>

text \<open>Where a call of \<open>complete\<close> is, with the number of its attempt.\<close>

datatype call_pc =
    Acquiring nat
  | Sleeping nat pyfloat
  | Calling nat
  | Backoff nat pyfloat
  | Call_done nat "exn + llm_response"

record client =
  cl_retry :: retry_config
  cl_limiter :: token_bucket
  cl_breaker :: breaker
  cl_metrics :: metrics
  cl_calls :: "call_pc list"

definition client_new :: "retry_config \<Rightarrow> token_bucket \<Rightarrow> breaker \<Rightarrow> metrics \<Rightarrow> exn + client" where
  "client_new c l b m =
     (case retry_validate c of
        Inl e \<Rightarrow> Inl e
      | Inr _ \<Rightarrow> Inr \<lparr>cl_retry = c, cl_limiter = l, cl_breaker = b, cl_metrics = m, cl_calls = []\<rparr>)"

definition backoff_delay :: "retry_config \<Rightarrow> nat \<Rightarrow> pyfloat" where
  "backoff_delay c attempt =
     min (rc_max_delay_seconds c) (rc_base_delay_seconds c * 2 ^ (attempt - 1))"

definition backoff_sleep :: "retry_config \<Rightarrow> nat \<Rightarrow> pyfloat \<Rightarrow> pyfloat" where
  "backoff_sleep c attempt rnd =
     (let delay = backoff_delay c attempt; jitter = delay * rc_jitter_ratio c * rnd in delay + jitter)"

definition set_call :: "nat \<Rightarrow> call_pc \<Rightarrow> client \<Rightarrow> client" where
  "set_call i pc s = s\<lparr>cl_calls := (cl_calls s)[i := pc]\<rparr>"

definition count :: "string \<Rightarrow> client \<Rightarrow> client" where
  "count k s = s\<lparr>cl_metrics := increment k 1 (cl_metrics s)\<rparr>"

definition call_at :: "nat \<Rightarrow> client \<Rightarrow> call_pc option" where
  "call_at i s = (if i < length (cl_calls s) then Some (cl_calls s ! i) else None)"

text \<open>\<open>complete(request)\<close> is called: \<open>range(1, max_attempts + 1)\<close> starts at 1.\<close>

definition call_begin :: "client \<Rightarrow> client" where
  "call_begin s = s\<lparr>cl_calls := cl_calls s @ [Acquiring 1]\<rparr>"

text \<open>A round of \<open>limiter.acquire()\<close>, and \<open>breaker.before_call()\<close> after the last one.\<close>

definition call_round :: "time \<Rightarrow> nat \<Rightarrow> client \<Rightarrow> client option" where
  "call_round now i s =
     (case call_at i s of
        Some (Acquiring a) \<Rightarrow>
         (case acquire_check 1 (cl_limiter s) of
            Inl e \<Rightarrow> Some (set_call i (Call_done (a - 1) (Inl e)) s)
          | Inr _ \<Rightarrow>
             (case acquire_round now 1 (cl_limiter s) of
                (Some w, l) \<Rightarrow> Some (set_call i (Sleeping a w) (s\<lparr>cl_limiter := l\<rparr>))
              | (None, l) \<Rightarrow>
                 (case before_call now (cl_breaker s) of
                    (Inl e, b) \<Rightarrow>
                       Some (set_call i (Call_done (a - 1) (Inl e))
                         (count ''circuit_open_rejections_total'' (s\<lparr>cl_limiter := l, cl_breaker := b\<rparr>)))
                  | (Inr _, b) \<Rightarrow>
                       Some (set_call i (Calling a)
                         (count ''llm_attempts_total'' (s\<lparr>cl_limiter := l, cl_breaker := b\<rparr>))))))
      | _ \<Rightarrow> None)"

text \<open>\<open>provider.complete(request)\<close> returns or raises.\<close>

definition call_return :: "time \<Rightarrow> pyfloat \<Rightarrow> nat \<Rightarrow> exn + llm_response \<Rightarrow> client \<Rightarrow> client option" where
  "call_return now rnd i result s =
     (case call_at i s of
        Some (Calling a) \<Rightarrow>
         (case result of
            Inr response \<Rightarrow>
              Some (set_call i (Call_done a (Inr response))
                (count ''llm_success_total'' (s\<lparr>cl_breaker := record_success (cl_breaker s)\<rparr>)))
          | Inl e \<Rightarrow>
             if e = CancelledError
             then Some (set_call i (Call_done a (Inl e)) (s\<lparr>cl_breaker := release_probe (cl_breaker s)\<rparr>))
             else if is_transient e
             then
              (let s1 = count ''llm_transient_errors_total''
                     (s\<lparr>cl_breaker := record_failure now (cl_breaker s)\<rparr>)
               in if rc_max_attempts (cl_retry s) \<le> int a
                  then Some (set_call i (Call_done a (Inl e)) s1)
                  else Some (set_call i (Backoff a (backoff_sleep (cl_retry s) a rnd))
                         (count ''llm_retries_total'' s1)))
             else Some (set_call i (Call_done a (Inl e))
                    (count ''llm_permanent_errors_total''
                      (s\<lparr>cl_breaker := record_success (cl_breaker s)\<rparr>))))
      | _ \<Rightarrow> None)"

text \<open>The end of a sleep: another round for the same attempt, or the next attempt.\<close>

definition call_wake :: "nat \<Rightarrow> client \<Rightarrow> client option" where
  "call_wake i s =
     (case call_at i s of
        Some (Sleeping a w) \<Rightarrow> Some (set_call i (Acquiring a) s)
      | Some (Backoff a d) \<Rightarrow> Some (set_call i (Acquiring (Suc a)) s)
      | _ \<Rightarrow> None)"

text \<open>The calling task is cancelled in a sleep: no handler, the error leaves \<open>complete\<close>.\<close>

definition call_cancelled :: "nat \<Rightarrow> client \<Rightarrow> client option" where
  "call_cancelled i s =
     (case call_at i s of
        Some (Sleeping a w) \<Rightarrow> Some (set_call i (Call_done (a - 1) (Inl CancelledError)) s)
      | Some (Backoff a d) \<Rightarrow> Some (set_call i (Call_done a (Inl CancelledError)) s)
      | _ \<Rightarrow> None)"

inductive cl_step :: "client \<Rightarrow> client \<Rightarrow> bool" where
  begin_call: "cl_step s (call_begin s)"
| round: "call_round now i s = Some s' \<Longrightarrow> cl_step s s'"
| return: "call_return now rnd i result s = Some s' \<Longrightarrow> cl_step s s'"
| wake: "call_wake i s = Some s' \<Longrightarrow> cl_step s s'"
| cancelled: "call_cancelled i s = Some s' \<Longrightarrow> cl_step s s'"

inductive_cases cl_stepE: "cl_step s s'"

inductive cl_reachable :: "retry_config \<Rightarrow> client \<Rightarrow> bool" for c where
  cl_init: "client_new c l b [] = Inr s \<Longrightarrow> cl_reachable c s"
| cl_next: "cl_reachable c s \<Longrightarrow> cl_step s s' \<Longrightarrow> cl_reachable c s'"

subsection \<open>Attempts\<close>

text \<open>How often a call has called the provider.\<close>

fun provider_calls :: "call_pc \<Rightarrow> nat" where
  "provider_calls (Acquiring a) = a - 1"
| "provider_calls (Sleeping a w) = a - 1"
| "provider_calls (Calling a) = a"
| "provider_calls (Backoff a d) = a"
| "provider_calls (Call_done n r) = n"

text \<open>A call is within its attempts; a call that has given up on a transient error has used them all.\<close>

definition gave_up :: "exn \<Rightarrow> bool" where
  "gave_up e \<longleftrightarrow> (case e of TransientLLMError _ \<Rightarrow> True | _ \<Rightarrow> False)"

fun call_ok :: "nat \<Rightarrow> call_pc \<Rightarrow> bool" where
  "call_ok m (Acquiring a) = (1 \<le> a \<and> a \<le> m)"
| "call_ok m (Sleeping a w) = (1 \<le> a \<and> a \<le> m)"
| "call_ok m (Calling a) = (1 \<le> a \<and> a \<le> m)"
| "call_ok m (Backoff a d) = (1 \<le> a \<and> a < m)"
| "call_ok m (Call_done n r) = (n \<le> m \<and> (case r of Inr _ \<Rightarrow> 1 \<le> n | Inl e \<Rightarrow> gave_up e \<longrightarrow> n = m))"

definition client_ok :: "retry_config \<Rightarrow> client \<Rightarrow> bool" where
  "client_ok c s \<longleftrightarrow> cl_retry s = c \<and> 0 < rc_max_attempts c
     \<and> (\<forall>pc \<in> set (cl_calls s). call_ok (nat (rc_max_attempts c)) pc)
     \<and> metric (cl_metrics s) ''llm_attempts_total'' = of_nat (sum_list (map provider_calls (cl_calls s)))"

lemma gave_up_simps [simp]:
  "gave_up (TransientLLMError m)" "\<not> gave_up CancelledError" "\<not> gave_up (ValueError m)"
  "\<not> gave_up (CircuitOpenError m)"
  by (simp_all add: gave_up_def)

lemma gave_up_transient: "gave_up e \<Longrightarrow> is_transient e"
  by (cases e) (simp_all add: gave_up_def)

lemma not_gave_up:
  "before_call now b = (Inl e, b') \<Longrightarrow> \<not> gave_up e" "acquire_check k l = Inl e \<Longrightarrow> \<not> gave_up e"
  by (auto simp: before_call_def take_probe_def acquire_check_def split: if_splits)

lemma set_call_fields [simp]:
  "cl_retry (set_call i pc s) = cl_retry s" "cl_limiter (set_call i pc s) = cl_limiter s"
  "cl_breaker (set_call i pc s) = cl_breaker s" "cl_metrics (set_call i pc s) = cl_metrics s"
  "cl_calls (set_call i pc s) = (cl_calls s)[i := pc]"
  by (simp_all add: set_call_def)

lemma count_fields [simp]:
  "cl_retry (count k s) = cl_retry s" "cl_limiter (count k s) = cl_limiter s"
  "cl_breaker (count k s) = cl_breaker s" "cl_calls (count k s) = cl_calls s"
  "cl_metrics (count k s) = increment k 1 (cl_metrics s)"
  by (simp_all add: count_def)

lemma call_at_Some: "call_at i s = Some pc \<longleftrightarrow> i < length (cl_calls s) \<and> cl_calls s ! i = pc"
  by (auto simp: call_at_def)

lemma provider_calls_update:
  "i < length xs \<Longrightarrow> sum_list (map provider_calls (xs[i := pc])) + provider_calls (xs ! i) =
     sum_list (map provider_calls xs) + provider_calls pc"
  by (induction xs arbitrary: i) (auto split: nat.split simp: nth_Cons')

text \<open>One call moves; the attempt counter moves with it.\<close>

lemma client_ok_update:
  assumes s: "client_ok c s" and i: "i < length (cl_calls s)"
    and s': "cl_retry s' = cl_retry s" "cl_calls s' = (cl_calls s)[i := cl_calls s' ! i]"
    and pc: "call_ok (nat (rc_max_attempts c)) (cl_calls s' ! i)"
    and m: "metric (cl_metrics s') ''llm_attempts_total'' + of_nat (provider_calls (cl_calls s ! i)) =
        metric (cl_metrics s) ''llm_attempts_total'' + of_nat (provider_calls (cl_calls s' ! i))"
  shows "client_ok c s'"
proof -
  let ?n = "\<lambda>s. of_nat (sum_list (map provider_calls (cl_calls s))) :: pyfloat"
  have "?n s' + of_nat (provider_calls (cl_calls s ! i)) = ?n s + of_nat (provider_calls (cl_calls s' ! i))"
    using provider_calls_update [OF i, of "cl_calls s' ! i"] s'(2) by (simp flip: of_nat_add)
  then have "metric (cl_metrics s') ''llm_attempts_total'' = ?n s'"
    using m s by (simp add: client_ok_def)
  moreover have "set (cl_calls s') \<subseteq> insert (cl_calls s' ! i) (set (cl_calls s))"
    using set_update_subset_insert [of "cl_calls s" i "cl_calls s' ! i"] s'(2) by simp
  ultimately show ?thesis using s s'(1) pc by (auto simp: client_ok_def)
qed

lemma client_ok_at:
  "client_ok c s \<Longrightarrow> call_at i s = Some pc \<Longrightarrow>
     call_ok (nat (rc_max_attempts c)) pc \<and> i < length (cl_calls s) \<and> cl_calls s ! i = pc"
  by (auto simp: client_ok_def call_at_def split: if_splits)

lemma call_round_ok [inv_intros]:
  assumes s: "client_ok c s" and r: "call_round now i s = Some s'"
  shows "client_ok c s'"
proof -
  obtain a where at: "call_at i s = Some (Acquiring a)"
    using r by (auto simp: call_round_def split: option.splits call_pc.splits)
  note k = client_ok_at [OF s at]
  show ?thesis
    using r at k
    by (auto simp: call_round_def not_gave_up split: sum.splits prod.splits option.splits
        intro!: client_ok_update [OF s, where i = i])
qed

lemma call_return_ok [inv_intros]:
  assumes s: "client_ok c s" and r: "call_return now rnd i result s = Some s'"
  shows "client_ok c s'"
proof -
  obtain a where at: "call_at i s = Some (Calling a)"
    using r by (auto simp: call_return_def split: option.splits call_pc.splits)
  note k = client_ok_at [OF s at]
  have c: "rc_max_attempts (cl_retry s) = rc_max_attempts c" "0 < rc_max_attempts c"
    using s by (auto simp: client_ok_def)
  show ?thesis
    using r at k c
    by (auto simp: call_return_def Let_def dest: gave_up_transient split: sum.splits if_splits
        intro!: client_ok_update [OF s, where i = i])
qed

lemma call_wake_ok [inv_intros]:
  assumes s: "client_ok c s" and r: "call_wake i s = Some s'"
  shows "client_ok c s'"
proof -
  obtain pc where at: "call_at i s = Some pc" using r by (auto simp: call_wake_def split: option.splits)
  note k = client_ok_at [OF s at]
  show ?thesis
    using r at k
    by (auto simp: call_wake_def split: call_pc.splits
        intro!: client_ok_update [OF s, where i = i])
qed

lemma call_cancelled_ok [inv_intros]:
  assumes s: "client_ok c s" and r: "call_cancelled i s = Some s'"
  shows "client_ok c s'"
proof -
  obtain pc where at: "call_at i s = Some pc" using r by (auto simp: call_cancelled_def split: option.splits)
  note k = client_ok_at [OF s at]
  show ?thesis
    using r at k
    by (auto simp: call_cancelled_def split: call_pc.splits
        intro!: client_ok_update [OF s, where i = i])
qed

lemma client_ok_reachable: "cl_reachable c s \<Longrightarrow> client_ok c s"
proof (induction rule: cl_reachable.induct)
  case (cl_init l b s)
  then show ?case
    by (auto simp: client_new_def client_ok_def split: sum.splits dest: retry_validateD)
next
  case (cl_next s s')
  from cl_next.hyps(2) show ?case
  proof (cases rule: cl_step.cases)
    case begin_call
    then show ?thesis using cl_next.IH by (auto simp: call_begin_def client_ok_def)
  qed (use cl_next.IH in \<open>auto intro: inv_intros\<close>)
qed

end
