(* ===== verification/Client_Alone.thy ===== *)
theory Client_Alone
  imports Resilient_Client
begin

section \<open>A call of the client on its own\<close>

text \<open>
  The execution of one \<open>complete\<close> with nobody in between: a script says what the provider does in
  each attempt, what \<open>random\<close> returns and how late each sleep ends. \<open>alone\<close> executes a number of
  steps; \<open>5 * max_attempts\<close> of them are enough, because an attempt takes at most two rounds of the
  bucket with one sleep between them, one call and one back-off.
\<close>

record script =
  sc_answer :: "nat \<Rightarrow> exn + llm_response"
  sc_random :: "nat \<Rightarrow> pyfloat"
  sc_late :: "nat \<Rightarrow> pyfloat"

definition alone_step :: "script \<Rightarrow> nat \<Rightarrow> time \<times> client \<Rightarrow> time \<times> client" where
  "alone_step sc k st =
     (let (now, s) = st; next = (\<lambda>r. case r of Some s' \<Rightarrow> s' | None \<Rightarrow> s) in
      case call_at 0 s of
        Some (Acquiring a) \<Rightarrow> (now, next (call_round now 0 s))
      | Some (Sleeping a w) \<Rightarrow> (now + w + sc_late sc k, next (call_wake 0 s))
      | Some (Calling a) \<Rightarrow> (now, next (call_return now (sc_random sc a) 0 (sc_answer sc a) s))
      | Some (Backoff a d) \<Rightarrow> (now + d + sc_late sc k, next (call_wake 0 s))
      | _ \<Rightarrow> (now, s))"

fun alone :: "script \<Rightarrow> nat \<Rightarrow> nat \<Rightarrow> time \<times> client \<Rightarrow> time \<times> client" where
  "alone sc k 0 st = st"
| "alone sc k (Suc n) st = alone sc (Suc k) n (alone_step sc k st)"

text \<open>The reference: the first answer that is not a transient error, or the last attempt's.\<close>

fun first_decisive :: "(nat \<Rightarrow> exn + llm_response) \<Rightarrow> nat \<Rightarrow> nat \<Rightarrow> nat \<times> (exn + llm_response)" where
  "first_decisive answer a (Suc (Suc left)) =
     (case answer a of
        Inl e \<Rightarrow> if is_transient e then first_decisive answer (Suc a) (Suc left) else (a, Inl e)
      | Inr r \<Rightarrow> (a, Inr r))"
| "first_decisive answer a left = (a, answer a)"

lemma alone_add: "alone sc k (m + n) st = alone sc (k + m) n (alone sc k m st)"
  by (induction m arbitrary: k st) simp_all

lemma alone_done: "call_at 0 (snd st) = Some (Call_done n r) \<Longrightarrow> alone sc k m st = st"
proof (induction m arbitrary: k)
  case (Suc m)
  then have "alone_step sc k st = st" by (cases st) (simp add: alone_step_def)
  then show ?case using Suc by simp
qed simp

text \<open>A single call, with enough tokens in the bucket's capacity.\<close>

definition ready :: "retry_config \<Rightarrow> nat \<Rightarrow> client \<Rightarrow> bool" where
  "ready c a s \<longleftrightarrow> cl_retry s = c \<and> cl_calls s = [Acquiring a] \<and> wf_bucket (cl_limiter s)
     \<and> 1 \<le> tb_capacity (cl_limiter s)"

lemma round_granted:
  assumes s: "cl_calls s = [Acquiring a]" "1 \<le> tb_capacity (cl_limiter s)"
    and g: "acquire_round now 1 (cl_limiter s) = (None, l)"
  shows "call_round now 0 s =
    (case before_call now (cl_breaker s) of
       (Inl e, b) \<Rightarrow> Some (set_call 0 (Call_done (a - 1) (Inl e))
          (count ''circuit_open_rejections_total'' (s\<lparr>cl_limiter := l, cl_breaker := b\<rparr>)))
     | (Inr _, b) \<Rightarrow> Some (set_call 0 (Calling a)
          (count ''llm_attempts_total'' (s\<lparr>cl_limiter := l, cl_breaker := b\<rparr>))))"
  using s g by (auto simp: call_round_def call_at_def acquire_check_def split: prod.split sum.split)

text \<open>An attempt gets its token after at most three steps.\<close>

lemma alone_acquires:
  assumes s: "ready c a s" and late: "\<And>n. 0 \<le> sc_late sc n"
  shows "\<exists>n \<le> 3. \<exists>now' l. wf_bucket l \<and> 1 \<le> tb_capacity l
    \<and> call_round now' 0 (s\<lparr>cl_limiter := l\<rparr>) \<noteq> None
    \<and> acquire_round now' 1 l = (None, snd (acquire_round now' 1 l))
    \<and> alone sc k n (now, s) = (now', the (call_round now' 0 (s\<lparr>cl_limiter := l\<rparr>)))"
proof -
  have f: "cl_calls s = [Acquiring a]" "wf_bucket (cl_limiter s)" "1 \<le> tb_capacity (cl_limiter s)"
    using s by (simp_all add: ready_def)
  obtain r l where r: "acquire_round now 1 (cl_limiter s) = (r, l)" by fastforce
  have known: "call_round now' 0 (s\<lparr>cl_limiter := l'\<rparr>) \<noteq> None"
    if "1 \<le> tb_capacity l'" "acquire_round now' 1 l' = (None, l'')" for now' l' l''
    using round_granted [of "s\<lparr>cl_limiter := l'\<rparr>" a now' l''] that f(1) by (simp split: prod.split sum.split)
  show ?thesis
  proof (cases r)
    case None
    have "alone sc k 1 (now, s) = (now, the (call_round now 0 (s\<lparr>cl_limiter := cl_limiter s\<rparr>)))"
      using f r None known [of "cl_limiter s" now l] by (auto simp: alone_step_def call_at_def)
    then show ?thesis
      using f r None known [of "cl_limiter s" now l]
      by (intro exI [of _ "1::nat"] conjI exI [of _ now] exI [of _ "cl_limiter s"]) simp_all
  next
    case (Some w)
    let ?now = "now + w + sc_late sc (Suc k)"
    have w: "acquire_round now 1 (cl_limiter s) = (Some w, l)" using r Some by simp
    note lf = acquire_round_fields [OF w]
    have wl: "wf_bucket l" by (rule wf_acquire_round [OF w f(2)]) simp
    have cap: "1 \<le> tb_capacity l" using f(3) lf by simp
    obtain l2 where g: "acquire_round ?now 1 l = (None, l2)"
      using acquire_second [OF f(2) _ f(3) late w] by auto
    have s1: "alone_step sc k (now, s) = (now, set_call 0 (Sleeping a w) (s\<lparr>cl_limiter := l\<rparr>))"
      using f w by (simp add: alone_step_def call_at_def call_round_def acquire_check_def)
    have s2: "alone_step sc (Suc k) (now, set_call 0 (Sleeping a w) (s\<lparr>cl_limiter := l\<rparr>)) =
        (?now, s\<lparr>cl_limiter := l\<rparr>)"
      using f(1) by (simp add: alone_step_def call_at_def call_wake_def set_call_def)
    have s3: "alone_step sc (Suc (Suc k)) (?now, s\<lparr>cl_limiter := l\<rparr>) =
        (?now, the (call_round ?now 0 (s\<lparr>cl_limiter := l\<rparr>)))"
      using f(1) known [OF cap g] by (auto simp: alone_step_def call_at_def)
    have "alone sc k 3 (now, s) = (?now, the (call_round ?now 0 (s\<lparr>cl_limiter := l\<rparr>)))"
      using s1 s2 s3 by (simp add: numeral_3_eq_3)
    then show ?thesis
      using wl cap known [OF cap g] g
      by (intro exI [of _ "3::nat"] conjI exI [of _ ?now] exI [of _ l]) simp_all
  qed
qed

abbreviation transient_answer :: "exn + llm_response \<Rightarrow> bool" where
  "transient_answer r \<equiv> (case r of Inl e \<Rightarrow> is_transient e | Inr _ \<Rightarrow> False)"

text \<open>The breaker is closed and \<open>n\<close> more failures do not open it.\<close>

definition tolerates :: "nat \<Rightarrow> breaker \<Rightarrow> bool" where
  "tolerates n b \<longleftrightarrow> br_state b = CB_CLOSED \<and> br_failure_count b + int n < cb_failure_threshold (br_config b)"

lemma tolerates_failure: "tolerates (Suc n) b \<Longrightarrow> tolerates n (record_failure now b)"
  by (simp add: tolerates_def record_failure_def Let_def)

lemma tolerates_call: "tolerates n b \<Longrightarrow> before_call now b = (Inr (), b)"
  by (simp add: tolerates_def before_call_def take_probe_def)

text \<open>One attempt, from its first round to the next attempt's.\<close>

lemma alone_attempt:
  assumes s: "ready c a s" and late: "\<And>n. 0 \<le> sc_late sc n"
    and a: "1 \<le> a" "int a \<le> rc_max_attempts c"
  shows "\<exists>n \<le> 5. \<exists>now' s'. alone sc k n (now, s) = (now', s') \<and>
    ((\<exists>e. cl_calls s' = [Call_done (a - 1) (Inl e)] \<and> \<not> tolerates 0 (cl_breaker s))
     \<or> cl_calls s' = [Call_done a (sc_answer sc a)]
        \<and> (int a = rc_max_attempts c \<or> \<not> transient_answer (sc_answer sc a))
     \<or> int a < rc_max_attempts c \<and> transient_answer (sc_answer sc a) \<and> ready c (Suc a) s'
        \<and> (\<forall>m. tolerates (Suc m) (cl_breaker s) \<longrightarrow> tolerates m (cl_breaker s')))"
proof -
  obtain n now1 l where n: "n \<le> 3" "wf_bucket l" "1 \<le> tb_capacity l"
    and g: "acquire_round now1 1 l = (None, snd (acquire_round now1 1 l))"
    and al: "alone sc k n (now, s) = (now1, the (call_round now1 0 (s\<lparr>cl_limiter := l\<rparr>)))"
    using alone_acquires [OF s late] by metis
  let ?l = "snd (acquire_round now1 1 l)" and ?k = "k + n"
  have f: "cl_calls s = [Acquiring a]" "cl_retry s = c" using s by (simp_all add: ready_def)
  have wl: "wf_bucket ?l" by (rule wf_acquire_round [OF g n(2)]) simp
  have cap: "1 \<le> tb_capacity ?l" using acquire_round_fields(1) [OF g] n(3) by simp
  have rg: "call_round now1 0 (s\<lparr>cl_limiter := l\<rparr>) =
    (case before_call now1 (cl_breaker s) of
       (Inl e, b) \<Rightarrow> Some (set_call 0 (Call_done (a - 1) (Inl e))
          (count ''circuit_open_rejections_total'' (s\<lparr>cl_limiter := ?l, cl_breaker := b\<rparr>)))
     | (Inr _, b) \<Rightarrow> Some (set_call 0 (Calling a)
          (count ''llm_attempts_total'' (s\<lparr>cl_limiter := ?l, cl_breaker := b\<rparr>))))"
    using round_granted [of "s\<lparr>cl_limiter := l\<rparr>" a now1 ?l] g f(1) n(3)
    by (cases s) (simp split: prod.split sum.split)
  obtain res b where bc: "before_call now1 (cl_breaker s) = (res, b)" by fastforce
  show ?thesis
  proof (cases res)
    case (Inl e)
    then have "alone sc k n (now, s) = (now1, set_call 0 (Call_done (a - 1) (Inl e))
        (count ''circuit_open_rejections_total'' (s\<lparr>cl_limiter := ?l, cl_breaker := b\<rparr>)))"
      using al bc by (simp add: rg)
    moreover have "\<not> tolerates 0 (cl_breaker s)" using bc Inl tolerates_call by fastforce
    ultimately show ?thesis using n(1) f(1) by (intro exI [of _ n] conjI exI) auto
  next
    case (Inr u)
    define s1 where "s1 = set_call 0 (Calling a)
        (count ''llm_attempts_total'' (s\<lparr>cl_limiter := ?l, cl_breaker := b\<rparr>))"
    have s1: "alone sc k n (now, s) = (now1, s1)"
      using al bc Inr by (simp add: rg s1_def)
    have c1: "call_at 0 s1 = Some (Calling a)" "cl_retry s1 = c" "cl_limiter s1 = ?l" "cl_breaker s1 = b"
      "cl_calls s1 = [Calling a]"
      using f by (simp_all add: s1_def call_at_def)
    define s2 where "s2 = the (call_return now1 (sc_random sc a) 0 (sc_answer sc a) s1)"
    have known: "call_return now1 (sc_random sc a) 0 (sc_answer sc a) s1 \<noteq> None"
      using c1(1) by (simp add: call_return_def Let_def split: sum.split)
    have s2: "alone sc k (Suc n) (now, s) = (now1, s2)"
      using alone_add [of sc k n 1 "(now, s)"] s1 known c1(1) by (auto simp: alone_step_def s2_def)
    show ?thesis
    proof (cases "int a = rc_max_attempts c \<or> \<not> transient_answer (sc_answer sc a)")
      case True
      then have "cl_calls s2 = [Call_done a (sc_answer sc a)]"
        using c1 by (auto simp: s2_def call_return_def Let_def split: sum.splits)
      then show ?thesis using s2 n(1) True by (intro exI [of _ "Suc n"] conjI exI) auto
    next
      case False
      then obtain e where e: "sc_answer sc a = Inl e" "is_transient e" by (cases "sc_answer sc a") auto
      have ne: "e \<noteq> CancelledError" using e(2) by auto
      let ?d = "backoff_sleep c a (sc_random sc a)"
      have s2': "cl_calls s2 = [Backoff a ?d]" "cl_retry s2 = c" "cl_limiter s2 = ?l"
        "cl_breaker s2 = record_failure now1 b"
        using c1 e ne False a by (simp_all add: s2_def call_return_def Let_def)
      have s3: "alone sc k (Suc (Suc n)) (now, s) =
          (now1 + ?d + sc_late sc (k + Suc n), set_call 0 (Acquiring (Suc a)) s2)"
        using alone_add [of sc k "Suc n" 1 "(now, s)"] s2 s2'(1)
        by (simp add: alone_step_def call_at_def call_wake_def)
      have "tolerates m (cl_breaker s2)" if "tolerates (Suc m) (cl_breaker s)" for m
        using tolerates_failure [OF that] tolerates_call [OF that, of now1] bc s2'(4) by simp
      then show ?thesis
        using s3 s2' wl cap n(1) False a e
        by (intro exI [of _ "Suc (Suc n)"] conjI exI) (auto simp: ready_def)
    qed
  qed
qed

text \<open>The whole call.\<close>

lemma alone_ends:
  assumes "ready c a s" and late: "\<And>n. 0 \<le> sc_late sc n"
    and "1 \<le> a" "int a + int left = rc_max_attempts c"
  shows "\<exists>now' s' n r. alone sc k (5 * Suc left) (now, s) = (now', s') \<and> cl_calls s' = [Call_done n r]
    \<and> (tolerates left (cl_breaker s) \<longrightarrow> (n, r) = first_decisive (sc_answer sc) a (Suc left))"
  using assms(1,3,4)
proof (induction left arbitrary: a k now s)
  case 0
  from alone_attempt [OF 0(1) late, of k now] 0(2,3)
  obtain n now' s' n' r where n: "n \<le> 5" and s': "alone sc k n (now, s) = (now', s')"
    "cl_calls s' = [Call_done n' r]"
    "tolerates 0 (cl_breaker s) \<longrightarrow> (n', r) = first_decisive (sc_answer sc) a (Suc 0)"
    by fastforce
  have "alone sc k 5 (now, s) = (now', s')"
    using alone_add [of sc k n "5 - n" "(now, s)"] n s' alone_done [of "(now', s')" n' r]
    by (simp add: call_at_def)
  then show ?case using s' by auto
next
  case (Suc left)
  have a: "int a < rc_max_attempts c" using Suc.prems(3) by simp
  obtain n now1 s1 where n: "n \<le> 5" and s1: "alone sc k n (now, s) = (now1, s1)"
    and step: "(\<exists>e. cl_calls s1 = [Call_done (a - 1) (Inl e)] \<and> \<not> tolerates 0 (cl_breaker s))
     \<or> cl_calls s1 = [Call_done a (sc_answer sc a)] \<and> \<not> transient_answer (sc_answer sc a)
     \<or> transient_answer (sc_answer sc a) \<and> ready c (Suc a) s1
        \<and> (\<forall>m. tolerates (Suc m) (cl_breaker s) \<longrightarrow> tolerates m (cl_breaker s1))"
    using alone_attempt [OF Suc.prems(1) late Suc.prems(2), of k now] a by force
  have split: "alone sc k (5 * Suc (Suc left)) (now, s) =
      alone sc (k + n + 5 * Suc left) (5 - n) (alone sc (k + n) (5 * Suc left) (now1, s1))"
    using alone_add [of sc k n "5 * Suc left + (5 - n)" "(now, s)"] s1 n
      alone_add [of sc "k + n" "5 * Suc left" "5 - n" "(now1, s1)"] by simp
  have weaker: "tolerates (Suc left) b \<Longrightarrow> tolerates 0 b" for b by (simp add: tolerates_def)
  from step consider (ends) n' r where "cl_calls s1 = [Call_done n' r]"
      "tolerates (Suc left) (cl_breaker s) \<longrightarrow> (n', r) = first_decisive (sc_answer sc) a (Suc (Suc left))"
    | (more) "transient_answer (sc_answer sc a)" "ready c (Suc a) s1"
      "\<forall>m. tolerates (Suc m) (cl_breaker s) \<longrightarrow> tolerates m (cl_breaker s1)"
    using weaker [of "cl_breaker s"] by (cases "sc_answer sc a") auto
  then show ?case
  proof cases
    case ends
    have "alone sc j m (now1, s1) = (now1, s1)" for j m
      using ends(1) by (intro alone_done [where n = n' and r = r]) (simp add: call_at_def)
    then show ?thesis using split ends by auto
  next
    case more
    obtain now2 s2 n' r where s2: "alone sc (k + n) (5 * Suc left) (now1, s1) = (now2, s2)"
      "cl_calls s2 = [Call_done n' r]"
      "tolerates left (cl_breaker s1) \<longrightarrow> (n', r) = first_decisive (sc_answer sc) (Suc a) (Suc left)"
      using Suc.IH [OF more(2), of "k + n" now1] Suc.prems by auto
    have "alone sc j m (now2, s2) = (now2, s2)" for j m
      using s2(2) by (intro alone_done [where n = n' and r = r]) (simp add: call_at_def)
    then show ?thesis
      using split s2 more by (auto split: sum.splits)
  qed
qed

end
