(* ===== verification/Run_Repository.thy ===== *)
theory Run_Repository
  imports Models
begin

section \<open>The run repository port and its in-memory adapter\<close>

text \<open>
  \<open>IdempotencyRecord\<close> and the port \<open>RunRepository\<close> of \<open>ports.py\<close>, and \<open>InMemoryRunRepository\<close>. The
  repository keeps references: \<open>add\<close> stores the caller's object and \<open>get\<close> hands the same object
  out. So it maps run ids to addresses, and the operations that read a run are given the heap
  \<open>H\<close> of run objects. Every operation holds the lock for its whole body and does not suspend.
\<close>

record idempotency_record =
  ir_key :: string
  ir_run_id :: string
  ir_fingerprint :: string

type_synonym address = nat
type_synonym run_heap = "address \<Rightarrow> run_record"

record run_repository =
  rp_runs :: "(string, address) dict"
  rp_idempotency :: "(string, idempotency_record) dict"
  rp_by_run :: "(string, string) dict"

definition repo_new :: run_repository where
  "repo_new = \<lparr>rp_runs = [], rp_idempotency = [], rp_by_run = []\<rparr>"

definition repo_check ::
    "string \<Rightarrow> idempotency_record option \<Rightarrow> run_repository \<Rightarrow> exn + unit" where
  "repo_check rid idem s =
     (if dict_get (rp_runs s) rid \<noteq> None then Inl (ValueError (''duplicate run id: '' @ rid))
      else case idem of
        None \<Rightarrow> Inr ()
      | Some rec \<Rightarrow>
         if ir_run_id rec \<noteq> rid
         then Inl (ValueError ''idempotency record must reference the added run'')
         else if dict_get (rp_idempotency s) (ir_key rec) \<noteq> None
         then Inl (ValueError (''duplicate idempotency key: '' @ ir_key rec))
         else Inr ())"

definition repo_put ::
    "string \<Rightarrow> address \<Rightarrow> idempotency_record option \<Rightarrow> run_repository \<Rightarrow>
     (exn + unit) \<times> run_repository" where
  "repo_put rid run idem s =
     (case repo_check rid idem s of
        Inl e \<Rightarrow> (Inl e, s)
      | Inr _ \<Rightarrow>
         (let s1 = s\<lparr>rp_runs := dict_set rid run (rp_runs s)\<rparr>
          in (Inr (),
              case idem of
                None \<Rightarrow> s1
              | Some rec \<Rightarrow> s1\<lparr>rp_idempotency := dict_set (ir_key rec) rec (rp_idempotency s1),
                               rp_by_run := dict_set rid (ir_key rec) (rp_by_run s1)\<rparr>)))"

definition repo_add ::
    "run_heap \<Rightarrow> address \<Rightarrow> idempotency_record option \<Rightarrow> run_repository \<Rightarrow>
     (exn + unit) \<times> run_repository" where
  "repo_add H run idem s = repo_put (rr_id (H run)) run idem s"

definition repo_get :: "string \<Rightarrow> run_repository \<Rightarrow> address option" where
  "repo_get rid s = dict_get (rp_runs s) rid"

definition repo_list :: "run_heap \<Rightarrow> run_repository \<Rightarrow> address list" where
  "repo_list H s = sort_key (\<lambda>a. - rr_created_at (H a)) (map snd (rp_runs s))"

definition repo_find :: "string \<Rightarrow> run_repository \<Rightarrow> idempotency_record option" where
  "repo_find key s = dict_get (rp_idempotency s) key"

definition repo_delete :: "string \<Rightarrow> run_repository \<Rightarrow> run_repository" where
  "repo_delete rid s =
     (let s1 = s\<lparr>rp_runs := dict_pop rid (rp_runs s), rp_by_run := dict_pop rid (rp_by_run s)\<rparr>
      in case dict_get (rp_by_run s) rid of
           None \<Rightarrow> s1
         | Some key \<Rightarrow> s1\<lparr>rp_idempotency := dict_pop key (rp_idempotency s1)\<rparr>)"

subsection \<open>The port\<close>

text \<open>
  What a durable runtime needs of a repository, on the two maps it stands for: runs by id, and the
  record of each key. Deleting a run frees the keys that lead to it.
\<close>

locale run_repository_port =
  fixes add :: "string \<Rightarrow> 'a \<Rightarrow> idempotency_record option \<Rightarrow> 's \<Rightarrow> (exn + unit) \<times> 's"
    and get :: "string \<Rightarrow> 's \<Rightarrow> 'a option"
    and find :: "string \<Rightarrow> 's \<Rightarrow> idempotency_record option"
    and delete :: "string \<Rightarrow> 's \<Rightarrow> 's"
    and inv :: "'s \<Rightarrow> bool"
  assumes add_accepts: "inv s \<Longrightarrow> fst (add rid run idem s) = Inr () \<longleftrightarrow>
      get rid s = None \<and> (\<forall>rec. idem = Some rec \<longrightarrow> ir_run_id rec = rid \<and> find (ir_key rec) s = None)"
    and add_refused: "fst (add rid run idem s) = Inl e \<Longrightarrow> snd (add rid run idem s) = s"
    and add_get: "inv s \<Longrightarrow> fst (add rid run idem s) = Inr () \<Longrightarrow>
      get i (snd (add rid run idem s)) = (if i = rid then Some run else get i s)"
    and add_find: "inv s \<Longrightarrow> fst (add rid run idem s) = Inr () \<Longrightarrow>
      find k (snd (add rid run idem s)) =
        (case idem of Some rec \<Rightarrow> if k = ir_key rec then Some rec else find k s | None \<Rightarrow> find k s)"
    and delete_get: "inv s \<Longrightarrow> get i (delete rid s) = (if i = rid then None else get i s)"
    and delete_find: "inv s \<Longrightarrow> find k (delete rid s) =
      (case find k s of Some rec \<Rightarrow> if ir_run_id rec = rid then None else Some rec | None \<Rightarrow> None)"
    and inv_add: "inv s \<Longrightarrow> inv (snd (add rid run idem s))"
    and inv_delete: "inv s \<Longrightarrow> inv (delete rid s)"
    and inv_find: "inv s \<Longrightarrow> find k s = Some rec \<Longrightarrow> ir_key rec = k \<and> get (ir_run_id rec) s \<noteq> None"
begin

text \<open>A deleted run and its key can be added again.\<close>

lemma readd_after_delete:
  assumes "inv s" and "find k s = Some rec" and "ir_run_id rec = rid"
  shows "fst (add rid run (Some rec) (delete rid s)) = Inr ()"
proof -
  have "ir_key rec = k" using inv_find [OF assms(1,2)] by simp
  then show ?thesis
    using assms by (simp add: add_accepts inv_delete delete_get delete_find)
qed

text \<open>A key in use protects itself: no second run gets it.\<close>

lemma key_in_use:
  assumes "inv s" and "find (ir_key rec) s \<noteq> None"
  shows "\<exists>e. fst (add rid run (Some rec) s) = Inl e" and "snd (add rid run (Some rec) s) = s"
proof -
  have "fst (add rid run (Some rec) s) \<noteq> Inr ()" using assms by (auto simp: add_accepts)
  then show "\<exists>e. fst (add rid run (Some rec) s) = Inl e"
    by (cases "fst (add rid run (Some rec) s)") auto
  then show "snd (add rid run (Some rec) s) = s" using add_refused by blast
qed

end

subsection \<open>The adapter provides the port\<close>

definition repo_inv :: "run_repository \<Rightarrow> bool" where
  "repo_inv s \<longleftrightarrow>
     (\<forall>k rec. dict_get (rp_idempotency s) k = Some rec \<longrightarrow>
        ir_key rec = k \<and> dict_get (rp_by_run s) (ir_run_id rec) = Some k
        \<and> dict_get (rp_runs s) (ir_run_id rec) \<noteq> None)
     \<and> (\<forall>rid k. dict_get (rp_by_run s) rid = Some k \<longrightarrow>
        (\<exists>rec. dict_get (rp_idempotency s) k = Some rec \<and> ir_run_id rec = rid))"

lemma repo_inv_new: "repo_inv repo_new"
  by (simp add: repo_inv_def repo_new_def)

lemma repo_invD:
  assumes "repo_inv s"
  shows "dict_get (rp_idempotency s) k = Some rec \<Longrightarrow> ir_key rec = k"
    "dict_get (rp_idempotency s) k = Some rec \<Longrightarrow> dict_get (rp_by_run s) (ir_run_id rec) = Some k"
    "dict_get (rp_idempotency s) k = Some rec \<Longrightarrow> \<exists>a. dict_get (rp_runs s) (ir_run_id rec) = Some a"
    "dict_get (rp_by_run s) rid = Some k \<Longrightarrow>
       \<exists>rec. dict_get (rp_idempotency s) k = Some rec \<and> ir_run_id rec = rid"
  using assms unfolding repo_inv_def by blast+

lemma repo_check_Inr:
  "repo_check rid idem s = Inr () \<longleftrightarrow> dict_get (rp_runs s) rid = None
     \<and> (\<forall>rec. idem = Some rec \<longrightarrow> ir_run_id rec = rid \<and> dict_get (rp_idempotency s) (ir_key rec) = None)"
  by (auto simp: repo_check_def split: option.split)

lemma repo_put_accepted:
  assumes "fst (repo_put rid run idem s) = Inr ()"
  shows "dict_get (rp_runs s) rid = None"
    and "idem = Some rec \<Longrightarrow> ir_run_id rec = rid \<and> dict_get (rp_idempotency s) (ir_key rec) = None"
    and "snd (repo_put rid run idem s) =
      (case idem of
         None \<Rightarrow> s\<lparr>rp_runs := dict_set rid run (rp_runs s)\<rparr>
       | Some rec \<Rightarrow> s\<lparr>rp_runs := dict_set rid run (rp_runs s),
                      rp_idempotency := dict_set (ir_key rec) rec (rp_idempotency s),
                      rp_by_run := dict_set rid (ir_key rec) (rp_by_run s)\<rparr>)"
proof -
  have c: "repo_check rid idem s = Inr ()"
    using assms by (auto simp: repo_put_def Let_def split: sum.splits)
  then show "dict_get (rp_runs s) rid = None"
    "idem = Some rec \<Longrightarrow> ir_run_id rec = rid \<and> dict_get (rp_idempotency s) (ir_key rec) = None"
    by (auto simp: repo_check_Inr)
  show "snd (repo_put rid run idem s) =
      (case idem of
         None \<Rightarrow> s\<lparr>rp_runs := dict_set rid run (rp_runs s)\<rparr>
       | Some rec \<Rightarrow> s\<lparr>rp_runs := dict_set rid run (rp_runs s),
                      rp_idempotency := dict_set (ir_key rec) rec (rp_idempotency s),
                      rp_by_run := dict_set rid (ir_key rec) (rp_by_run s)\<rparr>)"
    using c by (cases idem) (simp_all add: repo_put_def Let_def)
qed

lemma repo_inv_add [inv_intros]:
  assumes s: "repo_inv s"
  shows "repo_inv (snd (repo_put rid run idem s))"
proof (cases "fst (repo_put rid run idem s)")
  case (Inl e)
  then have "snd (repo_put rid run idem s) = s"
    by (auto simp: repo_put_def Let_def split: sum.splits)
  then show ?thesis using s by simp
next
  case (Inr u)
  then have ok: "fst (repo_put rid run idem s) = Inr ()" by simp
  note a = repo_put_accepted [OF ok]
  have no_key: "dict_get (rp_by_run s) rid = None"
  proof (cases "dict_get (rp_by_run s) rid")
    case (Some k)
    then show ?thesis using repo_invD(3,4) [OF s] a(1) by fastforce
  qed simp
  show ?thesis
  proof (cases idem)
    case None
    then show ?thesis using a s by (fastforce simp: repo_inv_def)
  next
    case (Some rec)
    have eq: "snd (repo_put rid run (Some rec) s) = s\<lparr>rp_runs := dict_set rid run (rp_runs s),
        rp_idempotency := dict_set (ir_key rec) rec (rp_idempotency s),
        rp_by_run := dict_set rid (ir_key rec) (rp_by_run s)\<rparr>"
      using a(3) Some by simp
    have "ir_run_id rec' \<noteq> rid" if "dict_get (rp_idempotency s) k = Some rec'" for k rec'
      using repo_invD(2) [OF s that] no_key by auto
    moreover have "k \<noteq> ir_key rec" if "dict_get (rp_by_run s) i = Some k" for i k
      using repo_invD(4) [OF s that] a(2) [OF Some] by auto
    ultimately show ?thesis
      using a(1) a(2) [OF Some] repo_invD [OF s] unfolding Some eq repo_inv_def
      by (auto split: if_splits)
  qed
qed

lemma repo_delete_fields:
  "rp_runs (repo_delete rid s) = dict_pop rid (rp_runs s)"
  "rp_by_run (repo_delete rid s) = dict_pop rid (rp_by_run s)"
  "rp_idempotency (repo_delete rid s) =
     (case dict_get (rp_by_run s) rid of None \<Rightarrow> rp_idempotency s | Some k \<Rightarrow> dict_pop k (rp_idempotency s))"
  by (simp_all add: repo_delete_def Let_def split: option.split)

lemma repo_delete_find:
  assumes s: "repo_inv s"
  shows "repo_find k (repo_delete rid s) =
    (case repo_find k s of Some rec \<Rightarrow> if ir_run_id rec = rid then None else Some rec | None \<Rightarrow> None)"
proof (cases "dict_get (rp_by_run s) rid")
  case None
  then show ?thesis
    using repo_invD(2) [OF s] by (auto simp: repo_find_def repo_delete_fields split: option.split)
next
  case (Some key)
  obtain rec where rec: "dict_get (rp_idempotency s) key = Some rec" "ir_run_id rec = rid"
    using repo_invD(4) [OF s Some] by blast
  have "ir_run_id rec' \<noteq> rid" if "dict_get (rp_idempotency s) k = Some rec'" "k \<noteq> key" for rec'
    using repo_invD(2) [OF s that(1)] Some that(2) by auto
  then show ?thesis
    using Some rec by (auto simp: repo_find_def repo_delete_fields split: option.split)
qed

lemma repo_inv_delete [inv_intros]:
  assumes s: "repo_inv s" shows "repo_inv (repo_delete rid s)"
proof -
  have find: "dict_get (rp_idempotency (repo_delete rid s)) k = Some rec \<longleftrightarrow>
      dict_get (rp_idempotency s) k = Some rec \<and> ir_run_id rec \<noteq> rid" for k rec
    using repo_delete_find [OF s, of k rid] by (auto simp: repo_find_def split: option.splits if_splits)
  show ?thesis
    unfolding repo_inv_def find repo_delete_fields(1,2)
    using repo_invD [OF s] by (auto split: if_splits) blast
qed

interpretation memory_runs: run_repository_port repo_put repo_get repo_find repo_delete repo_inv
proof
  fix s rid run idem i k rec e
  show "repo_inv s \<Longrightarrow> fst (repo_put rid run idem s) = Inr () \<longleftrightarrow> repo_get rid s = None
      \<and> (\<forall>rec. idem = Some rec \<longrightarrow> ir_run_id rec = rid \<and> repo_find (ir_key rec) s = None)"
    using repo_check_Inr [of rid idem s]
    by (auto simp: repo_put_def Let_def repo_get_def repo_find_def split: sum.split)
  show "fst (repo_put rid run idem s) = Inl e \<Longrightarrow> snd (repo_put rid run idem s) = s"
    by (auto simp: repo_put_def Let_def split: sum.splits)
  show "fst (repo_put rid run idem s) = Inr () \<Longrightarrow>
      repo_get i (snd (repo_put rid run idem s)) = (if i = rid then Some run else repo_get i s)"
    using repo_put_accepted(3) [of rid run idem s] by (simp add: repo_get_def split: option.split)
  show "fst (repo_put rid run idem s) = Inr () \<Longrightarrow>
      repo_find k (snd (repo_put rid run idem s)) =
        (case idem of Some rec \<Rightarrow> if k = ir_key rec then Some rec else repo_find k s | None \<Rightarrow> repo_find k s)"
    using repo_put_accepted(3) [of rid run idem s] by (simp add: repo_find_def split: option.split)
  show "repo_inv s \<Longrightarrow> repo_get i (repo_delete rid s) = (if i = rid then None else repo_get i s)"
    by (simp add: repo_get_def repo_delete_fields)
  show "repo_inv s \<Longrightarrow> repo_find k s = Some rec \<Longrightarrow> ir_key rec = k \<and> repo_get (ir_run_id rec) s \<noteq> None"
    using repo_invD(1,3) [of s k rec] by (auto simp: repo_find_def repo_get_def)
qed (auto intro: inv_intros simp: repo_delete_find)

end
