(* ===== verification/Leases.thy ===== *)
theory Leases
  imports Models
begin

section \<open>Leases\<close>

text \<open>
  The port \<open>LeaseManager\<close> and \<open>InMemoryLeaseManager\<close>. Every operation reads the clock once, under
  the lock that it holds for its whole body, so an operation is a function of the reading and the
  table. A lease has expired when the clock has reached its expiry.
\<close>

record lease =
  ls_owner :: string
  ls_expires_at :: time

type_synonym leases = "(string, lease) dict"

definition lease_validate :: "string \<Rightarrow> string \<Rightarrow> pyfloat \<Rightarrow> exn + unit" where
  "lease_validate resource owner ttl =
     (if resource = [] \<or> owner = [] \<or> ttl \<le> 0
      then Inl (ValueError ''lease requires resource, owner, and a positive TTL'') else Inr ())"

definition lease_acquire ::
    "time \<Rightarrow> string \<Rightarrow> string \<Rightarrow> pyfloat \<Rightarrow> leases \<Rightarrow> (exn + bool) \<times> leases" where
  "lease_acquire now resource owner ttl d =
     (case lease_validate resource owner ttl of
        Inl e \<Rightarrow> (Inl e, d)
      | Inr _ \<Rightarrow>
         (let fresh = (Inr True, dict_set resource \<lparr>ls_owner = owner, ls_expires_at = now + ttl\<rparr> d) in
          case dict_get d resource of
            None \<Rightarrow> fresh
          | Some current \<Rightarrow>
             if now < ls_expires_at current then (Inr (ls_owner current = owner), d) else fresh))"

definition lease_renew ::
    "time \<Rightarrow> string \<Rightarrow> string \<Rightarrow> pyfloat \<Rightarrow> leases \<Rightarrow> (exn + bool) \<times> leases" where
  "lease_renew now resource owner ttl d =
     (case lease_validate resource owner ttl of
        Inl e \<Rightarrow> (Inl e, d)
      | Inr _ \<Rightarrow>
         (case dict_get d resource of
            None \<Rightarrow> (Inr False, d)
          | Some current \<Rightarrow>
             if ls_owner current \<noteq> owner \<or> ls_expires_at current \<le> now then (Inr False, d)
             else (Inr True, dict_set resource \<lparr>ls_owner = owner, ls_expires_at = now + ttl\<rparr> d)))"

definition lease_release :: "string \<Rightarrow> string \<Rightarrow> leases \<Rightarrow> bool \<times> leases" where
  "lease_release resource owner d =
     (case dict_get d resource of
        None \<Rightarrow> (False, d)
      | Some current \<Rightarrow>
         if ls_owner current \<noteq> owner then (False, d) else (True, dict_pop resource d))"

definition lease_owner :: "time \<Rightarrow> string \<Rightarrow> leases \<Rightarrow> string option \<times> leases" where
  "lease_owner now resource d =
     (case dict_get d resource of
        None \<Rightarrow> (None, d)
      | Some current \<Rightarrow>
         if ls_expires_at current \<le> now then (None, dict_pop resource d)
         else (Some (ls_owner current), d))"

subsection \<open>The port\<close>

text \<open>
  What a client relies on, with \<open>holder t r s\<close> the owner whose lease on \<open>r\<close> is good at time \<open>t\<close>.
\<close>

locale lease_port =
  fixes acquire :: "time \<Rightarrow> string \<Rightarrow> string \<Rightarrow> pyfloat \<Rightarrow> 's \<Rightarrow> (exn + bool) \<times> 's"
    and renew :: "time \<Rightarrow> string \<Rightarrow> string \<Rightarrow> pyfloat \<Rightarrow> 's \<Rightarrow> (exn + bool) \<times> 's"
    and release :: "string \<Rightarrow> string \<Rightarrow> 's \<Rightarrow> bool \<times> 's"
    and holder :: "time \<Rightarrow> string \<Rightarrow> 's \<Rightarrow> string option"
    and valid :: "string \<Rightarrow> string \<Rightarrow> pyfloat \<Rightarrow> bool"
  assumes free: "valid r w ttl \<Longrightarrow> holder now r s = None \<Longrightarrow> fst (acquire now r w ttl s) = Inr True"
    and held: "valid r w ttl \<Longrightarrow> holder now r s = Some v \<Longrightarrow> acquire now r w ttl s = (Inr (v = w), s)"
    and taken: "fst (acquire now r w ttl s) = Inr True \<Longrightarrow> holder now r (snd (acquire now r w ttl s)) = Some w"
    and renewed: "fst (renew now r w ttl s) = Inr True \<longleftrightarrow> valid r w ttl \<and> holder now r s = Some w"
    and extended: "fst (renew now r w ttl s) = Inr True \<Longrightarrow> t < now + ttl \<Longrightarrow>
      holder t r (snd (renew now r w ttl s)) = Some w"
    and released: "holder now r s = Some w \<Longrightarrow> fst (release r w s) \<and> holder now r (snd (release r w s)) = None"
    and not_owner: "holder now r s = Some v \<Longrightarrow> v \<noteq> w \<Longrightarrow> release r w s = (False, s)"
begin

text \<open>Of two clients that ask at the same time only one can get the lease.\<close>

lemma one_winner:
  assumes "fst (acquire now r w ttl s) = Inr True" and "valid r v ttl'" and "v \<noteq> w"
  shows "acquire now r v ttl' (snd (acquire now r w ttl s)) = (Inr False, snd (acquire now r w ttl s))"
  using held [OF assms(2) taken [OF assms(1)]] assms(3) by auto

text \<open>A renewed lease can be given back, and then be taken by another client.\<close>

lemma hand_over:
  assumes "fst (renew now r w ttl s) = Inr True" and "0 < ttl" and "valid r v ttl'"
  shows "fst (acquire now r v ttl' (snd (release r w (snd (renew now r w ttl s))))) = Inr True"
  using assms(3) released [OF extended [OF assms(1), of now]] assms(2) by (auto intro: free)

end

definition holder :: "time \<Rightarrow> string \<Rightarrow> leases \<Rightarrow> string option" where
  "holder t resource d = fst (lease_owner t resource d)"

lemma holder_eq:
  "holder t r d = (case dict_get d r of None \<Rightarrow> None
     | Some c \<Rightarrow> if t < ls_expires_at c then Some (ls_owner c) else None)"
  by (auto simp: holder_def lease_owner_def split: option.split)

lemma lease_validate_Inr: "lease_validate r w ttl = Inr () \<longleftrightarrow> r \<noteq> [] \<and> w \<noteq> [] \<and> 0 < ttl"
  by (auto simp: lease_validate_def)

lemma lease_validate_cases: "lease_validate r w ttl = Inr () \<or> (\<exists>e. lease_validate r w ttl = Inl e)"
  by (simp add: lease_validate_def)

interpretation memory_leases: lease_port lease_acquire lease_renew lease_release holder
  "\<lambda>r w ttl. lease_validate r w ttl = Inr ()"
proof
  fix now t :: time and r w v :: string and ttl :: pyfloat and s :: leases
  show "lease_validate r w ttl = Inr () \<Longrightarrow> holder now r s = None \<Longrightarrow>
      fst (lease_acquire now r w ttl s) = Inr True"
    by (auto simp: lease_acquire_def holder_eq Let_def split: option.splits if_splits)
  show "lease_validate r w ttl = Inr () \<Longrightarrow> holder now r s = Some v \<Longrightarrow>
      lease_acquire now r w ttl s = (Inr (v = w), s)"
    by (auto simp: lease_acquire_def holder_eq Let_def split: option.splits if_splits)
  show "fst (lease_acquire now r w ttl s) = Inr True \<Longrightarrow>
      holder now r (snd (lease_acquire now r w ttl s)) = Some w"
    using lease_validate_Inr [of r w ttl]
    by (auto simp: lease_acquire_def holder_eq Let_def split: sum.splits option.splits if_splits)
  show "fst (lease_renew now r w ttl s) = Inr True \<longleftrightarrow>
      lease_validate r w ttl = Inr () \<and> holder now r s = Some w"
    using lease_validate_cases [of r w ttl]
    by (auto simp: lease_renew_def holder_eq split: sum.splits option.splits if_splits)
  show "fst (lease_renew now r w ttl s) = Inr True \<Longrightarrow> t < now + ttl \<Longrightarrow>
      holder t r (snd (lease_renew now r w ttl s)) = Some w"
    by (auto simp: lease_renew_def holder_eq split: sum.splits option.splits if_splits)
  show "holder now r s = Some w \<Longrightarrow> fst (lease_release r w s) \<and> holder now r (snd (lease_release r w s)) = None"
    by (auto simp: lease_release_def holder_eq split: option.splits if_splits)
  show "holder now r s = Some v \<Longrightarrow> v \<noteq> w \<Longrightarrow> lease_release r w s = (False, s)"
    by (auto simp: lease_release_def holder_eq split: option.splits if_splits)
qed

subsection \<open>Any number of clients\<close>

datatype lease_op =
    L_acquire time string string pyfloat
  | L_renew time string string pyfloat
  | L_release string string
  | L_owner time string

fun lease_exec :: "lease_op \<Rightarrow> leases \<Rightarrow> leases" where
  "lease_exec (L_acquire now r w ttl) d = snd (lease_acquire now r w ttl d)"
| "lease_exec (L_renew now r w ttl) d = snd (lease_renew now r w ttl d)"
| "lease_exec (L_release r w) d = snd (lease_release r w d)"
| "lease_exec (L_owner now r) d = snd (lease_owner now r d)"

text \<open>An operation that the owner \<open>w\<close> of a lease on \<open>r\<close>, good until \<open>e\<close>, does not have to fear: it comes
  before \<open>e\<close>, and if it gives up or renews the lease on \<open>r\<close>, it is somebody else's.\<close>

fun harmless :: "string \<Rightarrow> string \<Rightarrow> time \<Rightarrow> lease_op \<Rightarrow> bool" where
  "harmless r w e (L_acquire now r' w' ttl) = (now < e)"
| "harmless r w e (L_renew now r' w' ttl) = (r' = r \<longrightarrow> w' \<noteq> w)"
| "harmless r w e (L_release r' w') = (r' = r \<longrightarrow> w' \<noteq> w)"
| "harmless r w e (L_owner now r') = (now < e)"

lemma lease_kept_step:
  assumes "dict_get d r = Some \<lparr>ls_owner = w, ls_expires_at = e\<rparr>" and "harmless r w e x"
  shows "dict_get (lease_exec x d) r = Some \<lparr>ls_owner = w, ls_expires_at = e\<rparr>"
  using assms
  by (cases x)
    (auto simp: lease_acquire_def lease_renew_def lease_release_def lease_owner_def Let_def
      split: sum.split option.splits)

lemma lease_kept:
  assumes "dict_get d r = Some \<lparr>ls_owner = w, ls_expires_at = e\<rparr>" and "\<forall>x \<in> set ops. harmless r w e x"
  shows "dict_get (fold lease_exec ops d) r = Some \<lparr>ls_owner = w, ls_expires_at = e\<rparr>"
  using assms by (induction ops arbitrary: d) (auto intro: lease_kept_step)

end
