(* ===== verification/Storage.thy ===== *)
theory Storage
  imports Models
begin

section \<open>Checkpoints and published events\<close>

text \<open>
  \<open>Checkpoint\<close>, \<open>PublishedEvent\<close> and the ports \<open>CheckpointStore\<close> and \<open>EventPublisher\<close> of \<open>ports.py\<close>, with
  their in-memory adapters. Both adapters copy what they store and what they hand out
  (\<open>copy.deepcopy\<close>), so the stored values are values here, not references.
\<close>

subsection \<open>Checkpoints\<close>

record checkpoint =
  cp_run_id :: string
  cp_step :: int
  cp_state :: "(string, pyval) dict"
  cp_updated_at :: time

definition mk_checkpoint :: "string \<Rightarrow> int \<Rightarrow> (string, pyval) dict \<Rightarrow> time \<Rightarrow> exn + checkpoint" where
  "mk_checkpoint rid step state now =
     (if rid = [] \<or> step < 0
      then Inl (ValueError ''checkpoint requires a run id and a non-negative step'')
      else Inr \<lparr>cp_run_id = rid, cp_step = step, cp_state = state, cp_updated_at = now\<rparr>)"

type_synonym checkpoints = "(string, checkpoint) dict"

definition checkpoint_save :: "checkpoint \<Rightarrow> checkpoints \<Rightarrow> (exn + unit) \<times> checkpoints" where
  "checkpoint_save c d =
     (case dict_get d (cp_run_id c) of
        Some previous \<Rightarrow>
          if cp_step c < cp_step previous
          then (Inl (ValueError ''checkpoint step cannot move backwards''), d)
          else (Inr (), dict_set (cp_run_id c) c d)
      | None \<Rightarrow> (Inr (), dict_set (cp_run_id c) c d))"

definition checkpoint_load :: "string \<Rightarrow> checkpoints \<Rightarrow> checkpoint option" where
  "checkpoint_load rid d = dict_get d rid"

definition checkpoint_delete :: "string \<Rightarrow> checkpoints \<Rightarrow> checkpoints" where
  "checkpoint_delete rid d = dict_pop rid d"

text \<open>The port: a store that never goes back for a run.\<close>

locale checkpoint_port =
  fixes save :: "checkpoint \<Rightarrow> 's \<Rightarrow> (exn + unit) \<times> 's"
    and load :: "string \<Rightarrow> 's \<Rightarrow> checkpoint option"
    and delete :: "string \<Rightarrow> 's \<Rightarrow> 's"
  assumes accepts: "fst (save c s) = Inr () \<longleftrightarrow>
      (\<forall>p. load (cp_run_id c) s = Some p \<longrightarrow> cp_step p \<le> cp_step c)"
    and stored: "fst (save c s) = Inr () \<Longrightarrow> load i (snd (save c s)) =
      (if i = cp_run_id c then Some c else load i s)"
    and refused: "fst (save c s) = Inl e \<Longrightarrow> snd (save c s) = s"
    and deleted: "load i (delete rid s) = (if i = rid then None else load i s)"
begin

text \<open>Any number of saves, with what is loaded at the end.\<close>

definition save_all :: "checkpoint list \<Rightarrow> 's \<Rightarrow> 's" where
  "save_all cs s = fold (\<lambda>c s. snd (save c s)) cs s"

lemma load_save: "load rid (snd (save c s)) =
    (if rid = cp_run_id c \<and> (\<forall>p. load rid s = Some p \<longrightarrow> cp_step p \<le> cp_step c) then Some c else load rid s)"
proof (cases "fst (save c s)")
  case (Inl e)
  then have "\<not> (\<forall>p. load (cp_run_id c) s = Some p \<longrightarrow> cp_step p \<le> cp_step c)"
    using accepts [of c s] by auto
  then show ?thesis using refused [OF Inl] by auto
next
  case (Inr u)
  then show ?thesis using accepts [of c s] stored [of c s rid] by auto
qed

lemma load_save_all:
  assumes "load rid (save_all cs s) = Some c"
  shows "(c \<in> set cs \<and> cp_run_id c = rid \<or> load rid s = Some c)
    \<and> (\<forall>x \<in> set cs. cp_run_id x = rid \<longrightarrow> cp_step x \<le> cp_step c)
    \<and> (\<forall>p. load rid s = Some p \<longrightarrow> cp_step p \<le> cp_step c)"
  using assms
proof (induction cs arbitrary: s)
  case (Cons x cs)
  have "load rid (save_all cs (snd (save x s))) = Some c" using Cons.prems by (simp add: save_all_def)
  note ih = Cons.IH [OF this]
  show ?case using ih unfolding load_save by (auto split: if_splits)
qed (simp add: save_all_def)

end

interpretation memory_checkpoints: checkpoint_port checkpoint_save checkpoint_load checkpoint_delete
  by unfold_locales
    (auto simp: checkpoint_save_def checkpoint_load_def checkpoint_delete_def split: option.splits if_splits)

subsection \<open>Published events\<close>

record published_event =
  pe_id :: string
  pe_topic :: string
  pe_trace_id :: string
  pe_agent_id :: string
  pe_payload :: "(string, pyval) dict"
  pe_timestamp :: time

type_synonym published = "published_event list"

definition publisher_publish :: "published_event \<Rightarrow> published \<Rightarrow> published" where
  "publisher_publish e s = s @ [e]"

definition publisher_list :: "published \<Rightarrow> published_event list" where
  "publisher_list s = s"

text \<open>The port: what is listed is what was published, in this order.\<close>

locale publisher_port =
  fixes publish :: "published_event \<Rightarrow> 's \<Rightarrow> 's" and listed :: "'s \<Rightarrow> published_event list"
  assumes published_last: "listed (publish e s) = listed s @ [e]"
begin

lemma listed_all: "listed (fold publish es s) = listed s @ es"
  by (induction es arbitrary: s) (simp_all add: published_last)

end

interpretation memory_events: publisher_port publisher_publish publisher_list
  by unfold_locales (simp add: publisher_publish_def publisher_list_def)

end
