(* ===== verification/Storage_Properties.thy ===== *)
theory Storage_Properties
  imports Run_Repository Leases Storage
begin

section \<open>What the storage adapters promise\<close>

text \<open>
  The run repository against the two maps it stands for, the exclusiveness of a lease, and the
  order of checkpoints, each for any sequence of operations.
\<close>

subsection \<open>Run repository\<close>

text \<open>The specification: two maps, and a deletion that frees every key of the run.\<close>

type_synonym runs_spec = "(string \<rightharpoonup> address) \<times> (string \<rightharpoonup> idempotency_record)"

datatype repo_op = R_add run_heap address "idempotency_record option" | R_delete string

fun spec_exec :: "repo_op \<Rightarrow> runs_spec \<Rightarrow> runs_spec" where
  "spec_exec (R_add H run idem) (runs, idems) =
     (let rid = rr_id (H run) in
      if runs rid = None \<and> (case idem of None \<Rightarrow> True | Some rec \<Rightarrow> ir_run_id rec = rid \<and> idems (ir_key rec) = None)
      then (runs(rid \<mapsto> run), case idem of None \<Rightarrow> idems | Some rec \<Rightarrow> idems(ir_key rec \<mapsto> rec))
      else (runs, idems))"
| "spec_exec (R_delete rid) (runs, idems) =
     (runs(rid := None),
      \<lambda>k. case idems k of Some rec \<Rightarrow> if ir_run_id rec = rid then None else Some rec | None \<Rightarrow> None)"

fun repo_exec :: "repo_op \<Rightarrow> run_repository \<Rightarrow> run_repository" where
  "repo_exec (R_add H run idem) s = snd (repo_add H run idem s)"
| "repo_exec (R_delete rid) s = repo_delete rid s"

definition repo_abs :: "run_repository \<Rightarrow> runs_spec" where
  "repo_abs s = (\<lambda>rid. repo_get rid s, \<lambda>k. repo_find k s)"

lemma repo_inv_exec: "repo_inv s \<Longrightarrow> repo_inv (repo_exec x s)"
  by (cases x) (auto simp: repo_add_def intro: inv_intros)

lemma repo_abs_add:
  assumes s: "repo_inv s"
  shows "repo_abs (snd (repo_add H run idem s)) = spec_exec (R_add H run idem) (repo_abs s)"
proof -
  let ?rid = "rr_id (H run)"
  let ?ok = "repo_get ?rid s = None
    \<and> (\<forall>rec. idem = Some rec \<longrightarrow> ir_run_id rec = ?rid \<and> repo_find (ir_key rec) s = None)"
  show ?thesis
  proof (cases "fst (repo_put ?rid run idem s)")
    case (Inl e)
    then have "\<not> ?ok" using memory_runs.add_accepts [OF s, of ?rid run idem] by auto
    moreover have "snd (repo_put ?rid run idem s) = s" using memory_runs.add_refused [OF Inl] .
    ultimately show ?thesis by (auto simp: repo_abs_def repo_add_def Let_def split: option.split)
  next
    case (Inr u)
    then have ok: "fst (repo_put ?rid run idem s) = Inr ()" by simp
    then have "?ok" using memory_runs.add_accepts [OF s, of ?rid run idem] by blast
    then show ?thesis
      using memory_runs.add_get [OF s ok] memory_runs.add_find [OF s ok]
      by (auto simp: repo_abs_def repo_add_def Let_def fun_eq_iff split: option.splits)
  qed
qed

lemma repo_abs_delete:
  "repo_inv s \<Longrightarrow> repo_abs (repo_delete rid s) = spec_exec (R_delete rid) (repo_abs s)"
  by (auto simp: repo_abs_def memory_runs.delete_get memory_runs.delete_find fun_eq_iff split: option.split)

lemma repo_abs_exec: "repo_inv s \<Longrightarrow> repo_abs (repo_exec x s) = spec_exec x (repo_abs s)"
  by (cases x) (simp_all only: repo_exec.simps repo_abs_add repo_abs_delete)

text \<open>C35: through any sequence of additions and deletions the repository is the pair of maps of its
  specification: its reverse index never leaves a key behind and never frees a key of another run.\<close>

theorem repository_refines_maps:
  "repo_abs (fold repo_exec ops repo_new) = fold spec_exec ops (Map.empty, Map.empty)"
proof -
  have "repo_abs (fold repo_exec ops s) = fold spec_exec ops (repo_abs s)" if "repo_inv s" for s
    using that
  proof (induction ops arbitrary: s)
    case (Cons x ops)
    then show ?case using repo_inv_exec [OF Cons.prems] repo_abs_exec [OF Cons.prems, of x] by simp
  qed simp
  from this [OF repo_inv_new] show ?thesis
    by (simp add: repo_abs_def repo_new_def repo_get_def repo_find_def fun_eq_iff)
qed

subsection \<open>Leases\<close>

text \<open>C34: a lease is exclusive: from the moment a client has taken a free one until it expires, and as
  long as the client does not itself release or renew it, every other client is refused, whatever
  all of them do, and the manager names the client as the owner.\<close>

theorem lease_is_exclusive:
  assumes "holder now r d = None" and "lease_acquire now r w ttl d = (Inr True, d1)"
    and "\<forall>x \<in> set ops. harmless r w (now + ttl) x" and "t < now + ttl"
    and "v \<noteq> w" and "lease_validate r v ttl' = Inr ()" and "d2 = fold lease_exec ops d1"
  shows "lease_acquire t r v ttl' d2 = (Inr False, d2) \<and> lease_renew t r v ttl' d2 = (Inr False, d2)
    \<and> lease_release r v d2 = (False, d2) \<and> holder t r d2 = Some w"
proof -
  have "dict_get d1 r = Some \<lparr>ls_owner = w, ls_expires_at = now + ttl\<rparr>"
    using assms(1,2)
    by (auto simp: lease_acquire_def holder_eq Let_def split: sum.splits option.splits if_splits)
  then have d2: "dict_get d2 r = Some \<lparr>ls_owner = w, ls_expires_at = now + ttl\<rparr>"
    using assms(3,7) lease_kept by blast
  then have h: "holder t r d2 = Some w" using assms(4) by (simp add: holder_eq)
  have "lease_renew t r v ttl' d2 = (Inr False, d2)"
    using d2 assms(5,6) by (simp add: lease_renew_def)
  then show ?thesis
    using memory_leases.held [OF assms(6) h] memory_leases.not_owner [OF h] assms(5) h by auto
qed

theorem lease_is_exclusive_witness:
  "\<exists>d1 d2. lease_acquire 0 ''run'' ''a'' 10 [] = (Inr True, d1)
     \<and> d2 = fold lease_exec [L_acquire 5 ''run'' ''b'' 60, L_renew 6 ''run'' ''b'' 60, L_release ''run'' ''b''] d1
     \<and> lease_acquire 9 ''run'' ''b'' 60 d2 = (Inr False, d2) \<and> holder 9 ''run'' d2 = Some ''a''"
proof -
  obtain d1 where d1: "lease_acquire 0 ''run'' ''a'' 10 [] = (Inr True, d1)"
    by (simp add: lease_acquire_def lease_validate_def Let_def)
  have "holder 0 ''run'' [] = None" by (simp add: holder_eq)
  from lease_is_exclusive [OF this d1, of "[L_acquire 5 ''run'' ''b'' 60, L_renew 6 ''run'' ''b'' 60, L_release ''run'' ''b'']"
      9 "''b''" 60, OF _ _ _ _ refl] d1
  show ?thesis by (simp add: lease_validate_def)
qed

subsection \<open>Checkpoints\<close>

text \<open>A checkpoint never goes back: whatever is saved and in whatever order, what is loaded for a
  run was saved for it, and no checkpoint that was ever offered for that run is further.\<close>

theorem checkpoint_never_goes_back:
  assumes "checkpoint_load rid (fold (\<lambda>c d. snd (checkpoint_save c d)) cs []) = Some c"
  shows "c \<in> set cs \<and> cp_run_id c = rid \<and> (\<forall>x \<in> set cs. cp_run_id x = rid \<longrightarrow> cp_step x \<le> cp_step c)"
proof -
  have "checkpoint_load rid (memory_checkpoints.save_all cs []) = Some c"
    using assms by (simp add: memory_checkpoints.save_all_def)
  from memory_checkpoints.load_save_all [OF this] show ?thesis
    by (simp add: checkpoint_load_def)
qed

theorem checkpoint_never_goes_back_witness:
  "list_all (\<lambda>x. cp_run_id x = ''r'' \<and> cp_step x \<le> 2)
     [\<lparr>cp_run_id = ''r'', cp_step = 2, cp_state = [], cp_updated_at = 1\<rparr>,
      \<lparr>cp_run_id = ''r'', cp_step = 1, cp_state = [], cp_updated_at = 2\<rparr>]"
proof -
  have "checkpoint_load ''r'' (fold (\<lambda>c d. snd (checkpoint_save c d))
      [\<lparr>cp_run_id = ''r'', cp_step = 2, cp_state = [], cp_updated_at = 1\<rparr>,
       \<lparr>cp_run_id = ''r'', cp_step = 1, cp_state = [], cp_updated_at = 2\<rparr>] []) =
      Some \<lparr>cp_run_id = ''r'', cp_step = 2, cp_state = [], cp_updated_at = 1\<rparr>"
    by (simp add: checkpoint_save_def checkpoint_load_def)
  from checkpoint_never_goes_back [OF this] show ?thesis by simp
qed

end
