(* ===== verification/Calculator.thy ===== *)
theory Calculator
  imports Models
begin

section \<open>The safe calculator\<close>

text \<open>
  \<open>safe_calculate\<close> and \<open>_evaluate_node\<close> of \<open>tools.py\<close>. The syntax tree is the part of Python's
  \<open>ast\<close> that the evaluator distinguishes; every other node is \<open>Other_node\<close>, every other operator
  \<open>Other_bin\<close> or \<open>Other_unary\<close>, every constant that is no number \<open>Const_other\<close>. Parsing, the float
  power with a fractional exponent and the text of Python's own arithmetic errors are not code of
  the repository: they are the parameters of \<open>platform\<close>. Floats are exact and finite here, so the
  overflow of a result is outside the model.
\<close>

datatype const_value = Const_int int | Const_float pyfloat | Const_bool bool | Const_other

datatype bin_op = Add | Sub | Mult | Div | FloorDiv | Mod | Pow | Other_bin

datatype unary_op = UAdd | USub | Other_unary

datatype node =
    Constant const_value
  | BinOp node bin_op node
  | UnaryOp unary_op node
  | Other_node

record platform =
  pf_parse :: "string \<Rightarrow> exn + node"
  pf_root :: "pyfloat \<Rightarrow> pyfloat \<Rightarrow> pyfloat"
  pf_zero_text :: "bin_op \<Rightarrow> string"
  pf_complex_text :: string

text \<open>\<open>float(value)\<close> for the constants that are instances of \<open>int\<close> or \<open>float\<close>; a \<open>bool\<close> is an \<open>int\<close>.\<close>

fun number_of :: "const_value \<Rightarrow> pyfloat option" where
  "number_of (Const_int i) = Some (of_int i)"
| "number_of (Const_float f) = Some f"
| "number_of (Const_bool b) = Some (if b then 1 else 0)"
| "number_of Const_other = None"

text \<open>
  \<open>left ** right\<close> on floats: an integral exponent multiplies or divides, a fractional one of a
  negative base gives a complex number, on which \<open>float\<close> raises \<open>TypeError\<close>.
\<close>

definition float_pow :: "platform \<Rightarrow> pyfloat \<Rightarrow> pyfloat \<Rightarrow> exn + pyfloat" where
  "float_pow P left right =
     (if left = 0 \<and> right < 0 then Inl (ZeroDivisionError (pf_zero_text P Pow))
      else if of_int \<lfloor>right\<rfloor> = right
      then Inr (if 0 \<le> right then left ^ nat \<lfloor>right\<rfloor> else inverse (left ^ nat (- \<lfloor>right\<rfloor>)))
      else if left < 0 then Inl (TypeError (pf_complex_text P))
      else Inr (if left = 0 then 0 else pf_root P left right))"

text \<open>The table \<open>_BINARY_OPERATORS\<close>; \<open>None\<close> is an operator that it does not have.\<close>

fun apply_binary :: "platform \<Rightarrow> bin_op \<Rightarrow> pyfloat \<Rightarrow> pyfloat \<Rightarrow> (exn + pyfloat) option" where
  "apply_binary P Add l r = Some (Inr (l + r))"
| "apply_binary P Sub l r = Some (Inr (l - r))"
| "apply_binary P Mult l r = Some (Inr (l * r))"
| "apply_binary P Div l r =
     Some (if r = 0 then Inl (ZeroDivisionError (pf_zero_text P Div)) else Inr (l / r))"
| "apply_binary P FloorDiv l r =
     Some (if r = 0 then Inl (ZeroDivisionError (pf_zero_text P FloorDiv)) else Inr (of_int \<lfloor>l / r\<rfloor>))"
| "apply_binary P Mod l r =
     Some (if r = 0 then Inl (ZeroDivisionError (pf_zero_text P Mod)) else Inr (l - r * of_int \<lfloor>l / r\<rfloor>))"
| "apply_binary P Pow l r = Some (float_pow P l r)"
| "apply_binary P Other_bin l r = None"

text \<open>The table \<open>_UNARY_OPERATORS\<close>.\<close>

fun apply_unary :: "unary_op \<Rightarrow> pyfloat \<Rightarrow> pyfloat option" where
  "apply_unary UAdd v = Some v"
| "apply_unary USub v = Some (- v)"
| "apply_unary Other_unary v = None"

abbreviation not_arithmetic :: exn where
  "not_arithmetic \<equiv> ValueError ''only numeric arithmetic is allowed''"

fun evaluate_node :: "platform \<Rightarrow> node \<Rightarrow> nat \<Rightarrow> exn + pyfloat" where
  "evaluate_node P (Constant c) depth =
     (if 20 < depth then Inl (ValueError ''expression is too deeply nested'')
      else case number_of c of Some v \<Rightarrow> Inr v | None \<Rightarrow> Inl not_arithmetic)"
| "evaluate_node P (BinOp l bop r) depth =
     (if 20 < depth then Inl (ValueError ''expression is too deeply nested'')
      else if bop = Other_bin then Inl not_arithmetic
      else case evaluate_node P l (depth + 1) of
        Inl e \<Rightarrow> Inl e
      | Inr left \<Rightarrow>
         (case evaluate_node P r (depth + 1) of
            Inl e \<Rightarrow> Inl e
          | Inr right \<Rightarrow>
             if bop = Pow \<and> 12 < \<bar>right\<bar> then Inl (ValueError ''exponent is too large'')
             else (case apply_binary P bop left right of
                     Some result \<Rightarrow> result | None \<Rightarrow> Inl not_arithmetic)))"
| "evaluate_node P (UnaryOp uop operand) depth =
     (if 20 < depth then Inl (ValueError ''expression is too deeply nested'')
      else if uop = Other_unary then Inl not_arithmetic
      else case evaluate_node P operand (depth + 1) of
        Inl e \<Rightarrow> Inl e
      | Inr v \<Rightarrow> (case apply_unary uop v of Some w \<Rightarrow> Inr w | None \<Rightarrow> Inl not_arithmetic))"
| "evaluate_node P Other_node depth =
     (if 20 < depth then Inl (ValueError ''expression is too deeply nested'') else Inl not_arithmetic)"

definition safe_calculate :: "platform \<Rightarrow> string \<Rightarrow> exn + pyfloat" where
  "safe_calculate P expression =
     (if 256 < length expression then Inl (ValueError ''expression is too long'')
      else case pf_parse P expression of
        Inl e \<Rightarrow> Inl e
      | Inr body \<Rightarrow> evaluate_node P body 0)"

subsection \<open>The reference: arithmetic without limits of depth\<close>

text \<open>The value of an arithmetic expression; \<open>None\<close> where it has none.\<close>

fun bin_value :: "platform \<Rightarrow> bin_op \<Rightarrow> pyfloat \<Rightarrow> pyfloat \<Rightarrow> pyfloat option" where
  "bin_value P Add l r = Some (l + r)"
| "bin_value P Sub l r = Some (l - r)"
| "bin_value P Mult l r = Some (l * r)"
| "bin_value P Div l r = (if r = 0 then None else Some (l / r))"
| "bin_value P FloorDiv l r = (if r = 0 then None else Some (of_int \<lfloor>l / r\<rfloor>))"
| "bin_value P Mod l r = (if r = 0 then None else Some (l - r * of_int \<lfloor>l / r\<rfloor>))"
| "bin_value P Pow l r =
     (if 12 < \<bar>r\<bar> \<or> l = 0 \<and> r < 0 then None
      else if of_int \<lfloor>r\<rfloor> = r then Some (power_int l \<lfloor>r\<rfloor>)
      else if l < 0 then None else Some (if l = 0 then 0 else pf_root P l r))"
| "bin_value P Other_bin l r = None"

fun value_of :: "platform \<Rightarrow> node \<Rightarrow> pyfloat option" where
  "value_of P (Constant c) = number_of c"
| "value_of P (BinOp l bop r) =
     Option.bind (value_of P l) (\<lambda>left. Option.bind (value_of P r) (bin_value P bop left))"
| "value_of P (UnaryOp uop operand) = Option.bind (value_of P operand) (apply_unary uop)"
| "value_of P Other_node = None"

fun height :: "node \<Rightarrow> nat" where
  "height (Constant c) = 0"
| "height (BinOp l bop r) = Suc (max (height l) (height r))"
| "height (UnaryOp uop operand) = Suc (height operand)"
| "height Other_node = 0"

lemma float_pow_Inr:
  assumes "\<bar>r\<bar> \<le> 12"
  shows "float_pow P l r = Inr v \<longleftrightarrow> bin_value P Pow l r = Some v"
proof -
  have "(if 0 \<le> r then l ^ nat \<lfloor>r\<rfloor> else inverse (l ^ nat (- \<lfloor>r\<rfloor>))) = power_int l \<lfloor>r\<rfloor>"
    if "of_int \<lfloor>r\<rfloor> = r"
    using that by (auto simp: power_int_def power_inverse)
  then show ?thesis using assms by (auto simp: float_pow_def)
qed

lemma apply_binary_Inr:
  "bop \<noteq> Other_bin \<Longrightarrow> \<not> (bop = Pow \<and> 12 < \<bar>r\<bar>) \<Longrightarrow>
     apply_binary P bop l r = Some (Inr v) \<longleftrightarrow> bin_value P bop l r = Some v"
  using float_pow_Inr [of r P l v] by (cases bop) auto

text \<open>A value is returned exactly for the expressions that have one and are not too deep.\<close>

lemma evaluate_node_Inr:
  "evaluate_node P e d = Inr v \<longleftrightarrow> d + height e \<le> 20 \<and> value_of P e = Some v"
proof (induction e arbitrary: d v)
  case (Constant c)
  then show ?case by (auto split: option.split)
next
  case (BinOp l bop r)
  have ops: "(if bop = Pow \<and> 12 < \<bar>y\<bar> then Inl (ValueError ''exponent is too large'')
      else case apply_binary P bop x y of Some res \<Rightarrow> res | None \<Rightarrow> Inl not_arithmetic) = Inr v
      \<longleftrightarrow> bin_value P bop x y = Some v" if "bop \<noteq> Other_bin" for x y
    using apply_binary_Inr [OF that, of y P x v] by (auto split: option.split)
  show ?case
  proof (cases "bop = Other_bin \<or> 20 < d")
    case True
    then show ?thesis by (auto simp: bind_eq_Some_conv)
  next
    case False
    then have "evaluate_node P (BinOp l bop r) d = Inr v \<longleftrightarrow>
        (\<exists>x y. evaluate_node P l (d + 1) = Inr x \<and> evaluate_node P r (d + 1) = Inr y \<and> bin_value P bop x y = Some v)"
      using ops by (auto split: sum.splits)
    then show ?thesis using False by (auto simp: BinOp.IH bind_eq_Some_conv)
  qed
next
  case (UnaryOp uop operand)
  have ops: "apply_unary uop x \<noteq> None" if "uop \<noteq> Other_unary" for x using that by (cases uop) auto
  show ?case
  proof (cases "uop = Other_unary \<or> 20 < d")
    case True
    then show ?thesis by (auto simp: bind_eq_Some_conv)
  next
    case False
    then have "evaluate_node P (UnaryOp uop operand) d = Inr v \<longleftrightarrow>
        (\<exists>x. evaluate_node P operand (d + 1) = Inr x \<and> apply_unary uop x = Some v)"
      by (auto split: sum.splits option.splits)
    then show ?thesis using False by (auto simp: UnaryOp.IH bind_eq_Some_conv)
  qed
next
  case Other_node
  then show ?case by simp
qed

end
