(* ===== verification/Tools.thy ===== *)
theory Tools
  imports Metrics Calculator
begin

section \<open>The tool registry\<close>

text \<open>
  \<open>ToolRegistry\<close> of \<open>tools.py\<close>. A tool's semaphore is its number of free permits. \<open>execute\<close> is cut
  where it suspends: waiting for a permit, and waiting for the tool under \<open>wait_for\<close>. What a tool
  function returns, raises or exceeds is the argument of \<open>exec_end\<close>, because tool functions are not
  code of the registry; \<open>json.dumps\<close> is the parameter \<open>dumps\<close>. A synchronous tool owns a thread pool,
  here the flag that tells whether it still accepts work; the threads are in \<open>Tool_Threads\<close>.
\<close>

record tool =
  tl_name :: string
  tl_description :: string
  tl_free :: nat
  tl_timeout :: pyfloat
  tl_executor :: "bool option"

datatype exec_state =
    Waiting_permit string
  | Invoking string
  | Finished string "exn + string"

record registry =
  rg_default_timeout :: pyfloat
  rg_tools :: "(string, tool) dict"
  rg_metrics :: metrics
  rg_calls :: "exec_state list"

definition registry_new :: "pyfloat \<Rightarrow> metrics \<Rightarrow> registry" where
  "registry_new timeout m =
     \<lparr>rg_default_timeout = timeout, rg_tools = [], rg_metrics = m, rg_calls = []\<rparr>"

text \<open>\<open>timeout_seconds or self.default_timeout_seconds\<close>\<close>

definition timeout_or :: "pyfloat option \<Rightarrow> pyfloat \<Rightarrow> pyfloat" where
  "timeout_or t d = (case t of Some s \<Rightarrow> if s = 0 then d else s | None \<Rightarrow> d)"

definition tool_register ::
    "string \<Rightarrow> string \<Rightarrow> bool \<Rightarrow> int \<Rightarrow> pyfloat option \<Rightarrow> registry \<Rightarrow> (exn + unit) \<times> registry" where
  "tool_register name description is_async max_concurrency timeout s =
     (if blank name \<or> name \<in> set (keys (rg_tools s))
      then (Inl (ValueError (''invalid or duplicate tool name: '' @ name)), s)
      else if max_concurrency \<le> 0
      then (Inl (ValueError ''tool max_concurrency must be positive''), s)
      else (Inr (), s\<lparr>rg_tools := dict_set name
              \<lparr>tl_name = name, tl_description = description, tl_free = nat max_concurrency,
               tl_timeout = timeout_or timeout (rg_default_timeout s),
               tl_executor = (if is_async then None else Some True)\<rparr> (rg_tools s)\<rparr>))"

definition tool_describe :: "registry \<Rightarrow> (string, pyval) dict list" where
  "tool_describe s =
     map (\<lambda>t. [(''name'', PStr (tl_name t)), (''description'', PStr (tl_description t))])
       (sort_key tl_name (map snd (rg_tools s)))"

definition set_exec_state :: "nat \<Rightarrow> exec_state \<Rightarrow> registry \<Rightarrow> registry" where
  "set_exec_state i x s = s\<lparr>rg_calls := (rg_calls s)[i := x]\<rparr>"

definition tool_count :: "string \<Rightarrow> registry \<Rightarrow> registry" where
  "tool_count k s = s\<lparr>rg_metrics := increment k 1 (rg_metrics s)\<rparr>"

definition set_free :: "string \<Rightarrow> nat \<Rightarrow> registry \<Rightarrow> registry" where
  "set_free name n s =
     (case dict_get (rg_tools s) name of
        None \<Rightarrow> s | Some t \<Rightarrow> s\<lparr>rg_tools := dict_set name (t\<lparr>tl_free := n\<rparr>) (rg_tools s)\<rparr>)"

definition free_of :: "registry \<Rightarrow> string \<Rightarrow> nat" where
  "free_of s name = (case dict_get (rg_tools s) name of None \<Rightarrow> 0 | Some t \<Rightarrow> tl_free t)"

text \<open>\<open>execute\<close> up to the semaphore: the look-up and the check of the arguments.\<close>

definition exec_begin :: "string \<Rightarrow> pyval \<Rightarrow> registry \<Rightarrow> registry" where
  "exec_begin name arguments s =
     s\<lparr>rg_calls := rg_calls s @
        [case dict_get (rg_tools s) name of
           None \<Rightarrow> Finished name (Inl (ToolNotFoundError (''unknown tool: '' @ name)))
         | Some t \<Rightarrow>
            (case arguments of
               PDict _ \<Rightarrow> Waiting_permit name
             | _ \<Rightarrow> Finished name (Inl (ToolError ''tool arguments must be an object'')))]\<rparr>"

text \<open>The semaphore lets a waiting call in.\<close>

definition exec_enter :: "nat \<Rightarrow> registry \<Rightarrow> registry option" where
  "exec_enter i s =
     (if i < length (rg_calls s)
      then (case rg_calls s ! i of
              Waiting_permit name \<Rightarrow>
                if 0 < free_of s name
                then Some (set_exec_state i (Invoking name)
                       (tool_count ''tool_calls_total'' (set_free name (free_of s name - 1) s)))
                else None
            | _ \<Rightarrow> None)
      else None)"

text \<open>The outcome of \<open>wait_for\<close>, and the text that \<open>execute\<close> returns or the error it raises.\<close>

definition tool_outcome :: "(pyval \<Rightarrow> exn + string) \<Rightarrow> string \<Rightarrow> exn + pyval \<Rightarrow> exn + string" where
  "tool_outcome dumps name result =
     (case result of
        Inr (PStr text) \<Rightarrow> Inr text
      | Inr v \<Rightarrow> dumps v
      | Inl e \<Rightarrow>
         if e = CancelledError then Inl e
         else if e = TimeoutError then Inl (ToolError (''tool timed out: '' @ name))
         else if is_tool_error e then Inl e
         else Inl (ToolError (''tool failed: '' @ name @ '': '' @ exn_str e)))"

definition exec_end ::
    "(pyval \<Rightarrow> exn + string) \<Rightarrow> nat \<Rightarrow> exn + pyval \<Rightarrow> registry \<Rightarrow> registry option" where
  "exec_end dumps i result s =
     (if i < length (rg_calls s)
      then (case rg_calls s ! i of
              Invoking name \<Rightarrow>
                Some (set_exec_state i (Finished name (tool_outcome dumps name result))
                  (set_free name (free_of s name + 1)
                    (case result of
                       Inl e \<Rightarrow> if is_exception e then tool_count ''tool_errors_total'' s else s
                     | Inr _ \<Rightarrow> s)))
            | _ \<Rightarrow> None)
      else None)"

text \<open>A call that is cancelled while it waits for a permit has taken none.\<close>

definition exec_abandon :: "nat \<Rightarrow> registry \<Rightarrow> registry option" where
  "exec_abandon i s =
     (if i < length (rg_calls s)
      then (case rg_calls s ! i of
              Waiting_permit name \<Rightarrow> Some (set_exec_state i (Finished name (Inl CancelledError)) s)
            | _ \<Rightarrow> None)
      else None)"

definition registry_close :: "registry \<Rightarrow> registry" where
  "registry_close s =
     s\<lparr>rg_tools := map (\<lambda>(k, t). (k, t\<lparr>tl_executor := map_option (\<lambda>_. False) (tl_executor t)\<rparr>))
        (rg_tools s)\<rparr>"

text \<open>\<open>register_builtin_tools\<close>; a refused registration raises.\<close>

definition register_builtin_tools :: "registry \<Rightarrow> (exn + unit) \<times> registry" where
  "register_builtin_tools s =
     (case tool_register ''calculator''
             ''Evaluate arithmetic. Arguments: {\"expression\": \"(2 + 3) * 4\"}.'' False 4 None s of
        (Inl e, s1) \<Rightarrow> (Inl e, s1)
      | (Inr _, s1) \<Rightarrow>
          tool_register ''echo''
            ''Return text unchanged. Arguments: {\"text\": \"value\"}.'' False 4 None s1)"

subsection \<open>Any number of calls\<close>

datatype tool_op =
    T_register string string bool int "pyfloat option"
  | T_begin string pyval
  | T_enter nat
  | T_end nat "exn + pyval"
  | T_abandon nat
  | T_close

fun tool_exec :: "(pyval \<Rightarrow> exn + string) \<Rightarrow> tool_op \<Rightarrow> registry \<Rightarrow> registry" where
  "tool_exec dumps (T_register n d a m t) s = snd (tool_register n d a m t s)"
| "tool_exec dumps (T_begin n args) s = exec_begin n args s"
| "tool_exec dumps (T_enter i) s = (case exec_enter i s of Some s' \<Rightarrow> s' | None \<Rightarrow> s)"
| "tool_exec dumps (T_end i r) s = (case exec_end dumps i r s of Some s' \<Rightarrow> s' | None \<Rightarrow> s)"
| "tool_exec dumps (T_abandon i) s = (case exec_abandon i s of Some s' \<Rightarrow> s' | None \<Rightarrow> s)"
| "tool_exec dumps T_close s = registry_close s"

text \<open>How many calls of a tool are inside its function.\<close>

definition invoking :: "registry \<Rightarrow> string \<Rightarrow> nat" where
  "invoking s name = length (filter (\<lambda>x. x = Invoking name) (rg_calls s))"

text \<open>A call that waits or runs is a call of a registered tool.\<close>

definition registry_ok :: "registry \<Rightarrow> bool" where
  "registry_ok s \<longleftrightarrow>
     (\<forall>x \<in> set (rg_calls s). case x of
        Waiting_permit name \<Rightarrow> dict_get (rg_tools s) name \<noteq> None
      | Invoking name \<Rightarrow> dict_get (rg_tools s) name \<noteq> None
      | Finished name r \<Rightarrow> True)"

lemma exec_state_fields [simp]:
  "rg_tools (set_exec_state i x s) = rg_tools s" "rg_metrics (set_exec_state i x s) = rg_metrics s"
  "rg_calls (set_exec_state i x s) = (rg_calls s)[i := x]"
  "rg_tools (tool_count k s) = rg_tools s" "rg_calls (tool_count k s) = rg_calls s"
  "rg_calls (set_free name n s) = rg_calls s"
  "free_of (set_exec_state i x s) = free_of s" "free_of (tool_count k s) = free_of s"
  by (simp_all add: set_exec_state_def tool_count_def set_free_def free_of_def fun_eq_iff split: option.split)

lemma known_set_free [simp]:
  "dict_get (rg_tools (set_free name n s)) k = None \<longleftrightarrow> dict_get (rg_tools s) k = None"
  by (auto simp: set_free_def split: option.split)

lemma free_of_set_free [simp]:
  "free_of (set_free name n s) k = (if k = name \<and> dict_get (rg_tools s) name \<noteq> None then n else free_of s k)"
  by (auto simp: set_free_def free_of_def split: option.split)

lemma invoking_update:
  "i < length xs \<Longrightarrow> length (filter P (xs[i := x])) + (if P (xs ! i) then 1 else 0) =
     length (filter P xs) + (if P x then 1 else 0)"
proof (induction xs arbitrary: i)
  case (Cons y xs)
  then show ?case using Cons.IH [of "i - 1"] by (cases i) auto
qed simp

lemma registry_ok_update:
  assumes "registry_ok s" and "rg_calls s' = (rg_calls s)[i := x]"
    and "\<And>k. dict_get (rg_tools s') k = None \<longleftrightarrow> dict_get (rg_tools s) k = None"
    and "case x of Waiting_permit name \<Rightarrow> dict_get (rg_tools s) name \<noteq> None
      | Invoking name \<Rightarrow> dict_get (rg_tools s) name \<noteq> None | Finished name r \<Rightarrow> True"
  shows "registry_ok s'"
  unfolding registry_ok_def
proof
  fix y assume "y \<in> set (rg_calls s')"
  then have "y = x \<or> y \<in> set (rg_calls s)" using assms(2) set_update_subset_insert by fastforce
  then show "case y of Waiting_permit name \<Rightarrow> dict_get (rg_tools s') name \<noteq> None
      | Invoking name \<Rightarrow> dict_get (rg_tools s') name \<noteq> None | Finished name r \<Rightarrow> True"
    using assms(1,4) by (auto simp: registry_ok_def assms(3) split: exec_state.split)
qed

lemma invoking_set:
  assumes "i < length (rg_calls s)" and "rg_calls s' = (rg_calls s)[i := x]"
  shows "invoking s' name + (if rg_calls s ! i = Invoking name then 1 else 0) =
    invoking s name + (if x = Invoking name then 1 else 0)"
  using invoking_update [OF assms(1), of "\<lambda>x. x = Invoking name" x] by (simp add: invoking_def assms(2))

lemma registry_ok_at:
  assumes "registry_ok s" and "i < length (rg_calls s)"
  shows "rg_calls s ! i = Waiting_permit name \<Longrightarrow> dict_get (rg_tools s) name \<noteq> None"
    "rg_calls s ! i = Invoking name \<Longrightarrow> dict_get (rg_tools s) name \<noteq> None"
  using assms nth_mem [OF assms(2)] unfolding registry_ok_def by fastforce+

text \<open>
  Every operation keeps the tools it finds, and the free permits and the running calls of a tool
  together.
\<close>

definition keeps :: "registry \<Rightarrow> registry \<Rightarrow> bool" where
  "keeps s s' \<longleftrightarrow> registry_ok s'
     \<and> (\<forall>n. dict_get (rg_tools s) n \<noteq> None \<longrightarrow>
          dict_get (rg_tools s') n \<noteq> None \<and> free_of s' n + invoking s' n = free_of s n + invoking s n)"

lemma keeps_refl: "registry_ok s \<Longrightarrow> keeps s s"
  by (simp add: keeps_def)

lemma register_keeps:
  assumes "registry_ok s" shows "keeps s (snd (tool_register n d a m t s))"
proof (cases "fst (tool_register n d a m t s) = Inr ()")
  case True
  then obtain tl where "snd (tool_register n d a m t s) = s\<lparr>rg_tools := dict_set n tl (rg_tools s)\<rparr>"
    and "n \<notin> set (keys (rg_tools s))"
    by (auto simp: tool_register_def split: if_splits)
  moreover from this(2) have "dict_get (rg_tools s) n = None" by (simp add: dict_get_eq_None)
  ultimately show ?thesis
    using assms by (auto simp: keeps_def registry_ok_def free_of_def invoking_def split: exec_state.splits)
next
  case False
  then have "snd (tool_register n d a m t s) = s" by (auto simp: tool_register_def split: if_splits)
  then show ?thesis using assms by (simp add: keeps_refl)
qed

lemma begin_keeps:
  assumes "registry_ok s" shows "keeps s (exec_begin name args s)"
proof -
  have "invoking (exec_begin name args s) n = invoking s n" for n
    by (auto simp: invoking_def exec_begin_def split: option.split pyval.split)
  then show ?thesis
    using assms by (auto simp: keeps_def registry_ok_def exec_begin_def free_of_def
        split: option.splits pyval.splits exec_state.splits)
qed

lemma enter_keeps:
  assumes s: "registry_ok s" and e: "exec_enter i s = Some s'"
  shows "keeps s s'"
proof -
  obtain name where i: "i < length (rg_calls s)" "rg_calls s ! i = Waiting_permit name" "0 < free_of s name"
    and s': "s' = set_exec_state i (Invoking name)
       (tool_count ''tool_calls_total'' (set_free name (free_of s name - 1) s))"
    using e by (auto simp: exec_enter_def split: if_splits exec_state.splits)
  have c: "rg_calls s' = (rg_calls s)[i := Invoking name]" by (simp add: s')
  have known: "dict_get (rg_tools s) name \<noteq> None" by (rule registry_ok_at(1) [OF s i(1,2)])
  have "registry_ok s'" by (rule registry_ok_update [OF s c]) (use known in \<open>simp_all add: s'\<close>)
  moreover have "free_of s' n + invoking s' n = free_of s n + invoking s n" for n
    using invoking_set [OF i(1) c, of n] i(2,3) known by (auto simp: s')
  moreover have "dict_get (rg_tools s') n \<noteq> None" if "dict_get (rg_tools s) n \<noteq> None" for n
    using that by (simp add: s')
  ultimately show ?thesis by (simp add: keeps_def)
qed

lemma end_keeps:
  assumes s: "registry_ok s" and e: "exec_end dumps i r s = Some s'"
  shows "keeps s s'"
proof -
  obtain name where i: "i < length (rg_calls s)" "rg_calls s ! i = Invoking name"
    and s': "s' = set_exec_state i (Finished name (tool_outcome dumps name r))
       (set_free name (free_of s name + 1)
         (case r of Inl e \<Rightarrow> if is_exception e then tool_count ''tool_errors_total'' s else s | Inr _ \<Rightarrow> s))"
    using e by (auto simp: exec_end_def split: if_splits exec_state.splits)
  let ?t = "case r of Inl e \<Rightarrow> if is_exception e then tool_count ''tool_errors_total'' s else s | Inr _ \<Rightarrow> s"
  have t: "rg_calls ?t = rg_calls s" "rg_tools ?t = rg_tools s" "free_of ?t = free_of s"
    by (simp_all split: sum.split)
  have c: "rg_calls s' = (rg_calls s)[i := Finished name (tool_outcome dumps name r)]" by (simp add: s' t)
  have known: "dict_get (rg_tools s) name \<noteq> None" by (rule registry_ok_at(2) [OF s i])
  have k: "dict_get (rg_tools s') n = None \<longleftrightarrow> dict_get (rg_tools s) n = None" for n by (simp add: s' t)
  have "registry_ok s'" by (rule registry_ok_update [OF s c k]) simp
  moreover have "free_of s' n + invoking s' n = free_of s n + invoking s n" for n
    using invoking_set [OF i(1) c, of n] i(2) known by (auto simp: s' t)
  ultimately show ?thesis using k by (simp add: keeps_def)
qed

lemma abandon_keeps:
  assumes s: "registry_ok s" and e: "exec_abandon i s = Some s'"
  shows "keeps s s'"
proof -
  obtain name where i: "i < length (rg_calls s)" "rg_calls s ! i = Waiting_permit name"
    and s': "s' = set_exec_state i (Finished name (Inl CancelledError)) s"
    using e by (auto simp: exec_abandon_def split: if_splits exec_state.splits)
  have c: "rg_calls s' = (rg_calls s)[i := Finished name (Inl CancelledError)]" by (simp add: s')
  have "registry_ok s'" by (rule registry_ok_update [OF s c]) (simp_all add: s')
  moreover have "free_of s' n + invoking s' n = free_of s n + invoking s n" for n
    using invoking_set [OF i(1) c, of n] i(2) by (simp add: s')
  ultimately show ?thesis by (simp add: keeps_def s')
qed

lemma close_keeps:
  assumes "registry_ok s" shows "keeps s (registry_close s)"
proof -
  have "dict_get (rg_tools (registry_close s)) n =
      map_option (\<lambda>t. t\<lparr>tl_executor := map_option (\<lambda>_. False) (tl_executor t)\<rparr>) (dict_get (rg_tools s) n)" for n
    by (simp add: registry_close_def map_of_map)
  then show ?thesis
    using assms
    by (auto simp: keeps_def registry_ok_def free_of_def invoking_def registry_close_def
        split: exec_state.splits option.splits)
qed

lemma tool_exec_keeps:
  assumes "registry_ok s" shows "keeps s (tool_exec dumps x s)"
  using assms
  by (cases x) (auto simp: keeps_refl register_keeps begin_keeps close_keeps split: option.split
      intro: enter_keeps end_keeps abandon_keeps)

lemma tool_exec_all_keeps:
  assumes "registry_ok s" shows "keeps s (fold (tool_exec dumps) ops s)"
  using assms
proof (induction ops arbitrary: s)
  case (Cons x ops)
  have k: "keeps s (tool_exec dumps x s)" using Cons.prems by (rule tool_exec_keeps)
  then have "keeps (tool_exec dumps x s) (fold (tool_exec dumps) ops (tool_exec dumps x s))"
    by (intro Cons.IH) (simp add: keeps_def)
  then show ?case using k by (simp add: keeps_def)
qed (simp add: keeps_refl)

lemma registry_ok_new: "registry_ok (registry_new timeout m)"
  by (simp add: registry_ok_def registry_new_def)

text \<open>An unknown tool has no running call.\<close>

lemma unknown_idle: "registry_ok s \<Longrightarrow> dict_get (rg_tools s) name = None \<Longrightarrow> invoking s name = 0"
  by (fastforce simp: registry_ok_def invoking_def filter_empty_conv)

lemma tool_outcome_error:
  assumes "tool_outcome dumps name r = Inl e" and "\<And>v. dumps v \<noteq> Inl e" and "e \<noteq> CancelledError"
  shows "is_tool_error e"
  using assms by (auto simp: tool_outcome_def split: sum.splits pyval.splits if_splits)

end
