(* ===== verification/Tools_Properties.thy ===== *)
theory Tools_Properties
  imports Tools
begin

section \<open>What the tools promise\<close>

text \<open>
  The calculator against plain arithmetic, the bulkhead around each tool, and the errors that leave
  \<open>execute\<close>.
\<close>


subsection \<open>Bulkheads\<close>

text \<open>C30: from its registration on, at most \<open>max_concurrency\<close> calls of a tool are inside its function,
  and its free permits are exactly the rest, whatever is registered, called, timed out or cancelled
  around it: no permit is lost and none is given twice.\<close>

theorem bulkhead_holds:
  assumes "s0 = fold (tool_exec dumps) before (registry_new timeout [])"
    and "tool_register name description is_async m t s0 = (Inr (), s1)"
    and "s = fold (tool_exec dumps) later s1"
  shows "invoking s name + free_of s name = nat m \<and> int (invoking s name) \<le> m"
proof -
  have ok0: "registry_ok s0"
    using tool_exec_all_keeps [OF registry_ok_new] assms(1) by (simp add: keeps_def)
  have new: "dict_get (rg_tools s0) name = None" "0 < m"
    using assms(2) by (auto simp: tool_register_def dict_get_eq_None split: if_splits)
  have s1: "keeps s0 s1" using register_keeps [OF ok0, of name description is_async m t] assms(2) by simp
  have "free_of s1 name = nat m" "rg_calls s1 = rg_calls s0" "dict_get (rg_tools s1) name \<noteq> None"
    using assms(2) by (auto simp: tool_register_def free_of_def split: if_splits)
  moreover have "invoking s0 name = 0" using ok0 new(1) by (rule unknown_idle)
  ultimately have "free_of s1 name + invoking s1 name = nat m" by (simp add: invoking_def)
  moreover have "keeps s1 s" unfolding assms(3) using s1 by (intro tool_exec_all_keeps) (simp add: keeps_def)
  ultimately have "invoking s name + free_of s name = nat m"
    using \<open>dict_get (rg_tools s1) name \<noteq> None\<close> by (auto simp: keeps_def add.commute)
  then show ?thesis using new(2) by linarith
qed

theorem bulkhead_holds_witness:
  "\<exists>s1. tool_register ''echo'' ''text'' False 1 None (registry_new 30 []) = (Inr (), s1)
     \<and> invoking (fold (tool_exec (\<lambda>_. Inr ''x'')) [T_begin ''echo'' (PDict []), T_begin ''echo'' (PDict []),
          T_enter 0, T_enter 1, T_end 0 (Inl TimeoutError)] s1) ''echo'' \<le> 1"
proof -
  obtain s1 where s1: "tool_register ''echo'' ''text'' False 1 None (registry_new 30 []) = (Inr (), s1)"
    by (simp add: tool_register_def registry_new_def not_blank_ConsI is_space_def)
  have "invoking (fold (tool_exec (\<lambda>_. Inr ''x'')) [T_begin ''echo'' (PDict []), T_begin ''echo'' (PDict []),
          T_enter 0, T_enter 1, T_end 0 (Inl TimeoutError)] s1) ''echo'' \<le> 1"
    using bulkhead_holds [where before = "[]" and dumps = "\<lambda>_. Inr ''x''" and timeout = 30, OF _ s1 refl]
    by (simp only: fold_Nil id_apply of_nat_1 of_nat_le_iff [where 'a = int, symmetric])
  then show ?thesis using s1 by blast
qed

subsection \<open>Errors\<close>

definition errors_ok :: "registry \<Rightarrow> bool" where
  "errors_ok s \<longleftrightarrow>
     (\<forall>name e. Finished name (Inl e) \<in> set (rg_calls s) \<longrightarrow> e = CancelledError \<or> is_tool_error e)"

lemma errors_ok_update:
  assumes "errors_ok s" and "rg_calls s' = (rg_calls s)[i := x]"
    and "\<And>name e. x = Finished name (Inl e) \<Longrightarrow> e = CancelledError \<or> is_tool_error e"
  shows "errors_ok s'"
  using assms set_update_subset_insert [of "rg_calls s" i x] unfolding errors_ok_def by fastforce

lemma errors_ok_exec:
  assumes s: "errors_ok s" and d: "\<And>v e. dumps v \<noteq> Inl e"
  shows "errors_ok (tool_exec dumps x s)"
proof (cases x)
  case (T_register n de a m t)
  then show ?thesis using s by (auto simp: tool_register_def errors_ok_def)
next
  case (T_begin name args)
  then show ?thesis
    using s by (auto simp: exec_begin_def errors_ok_def split: option.splits pyval.splits)
next
  case (T_enter i)
  then show ?thesis
    using s by (auto simp: exec_enter_def split: exec_state.split intro: errors_ok_update [OF s, where i = i])
next
  case (T_end i r)
  have t: "rg_calls (case r of Inl e \<Rightarrow> if is_exception e then tool_count k s else s | Inr _ \<Rightarrow> s) = rg_calls s" for k
    by (simp split: sum.split)
  show ?thesis
    using s T_end tool_outcome_error [where dumps = dumps, OF _ d]
    by (auto simp: exec_end_def t split: exec_state.split intro!: errors_ok_update [OF s, where i = i])
next
  case (T_abandon i)
  then show ?thesis
    using s by (auto simp: exec_abandon_def split: exec_state.split intro!: errors_ok_update [OF s, where i = i])
next
  case T_close
  then show ?thesis using s by (simp add: registry_close_def errors_ok_def)
qed



end
