(* ===== verification/Config_Load.thy ===== *)
theory Config_Load
  imports Config "HOL-Library.List_Lexorder" "HOL-Library.Char_ord"
begin

section \<open>Loading a configuration\<close>

text \<open>
  \<open>AppConfig.to_dict\<close>, \<open>from_dict\<close> and \<open>load\<close> with \<open>_from_mapping\<close> and \<open>_expand_env\<close>. The classes
  store what they are given without looking at its type. A value whose type is not the annotated one
  (an \<open>int\<close> or \<open>bool\<close> serves as a float, a \<open>bool\<close> as an int) has no place in the typed records, so
  the result is then \<open>Inr None\<close>: the model stops there, it does not guess. Reading and parsing the
  file, the environment and \<open>repr\<close> of a list are parameters.
\<close>

subsection \<open>Fields\<close>

fun as_int :: "pyval \<Rightarrow> int option" where
  "as_int (PInt i) = Some i"
| "as_int (PBool b) = Some (if b then 1 else 0)"
| "as_int _ = None"

fun as_float :: "pyval \<Rightarrow> pyfloat option" where
  "as_float (PFloat f) = Some f"
| "as_float v = map_option of_int (as_int v)"

fun as_str :: "pyval \<Rightarrow> string option" where
  "as_str (PStr s) = Some s"
| "as_str _ = None"

definition field :: "(pyval \<Rightarrow> 'a option) \<Rightarrow> 'a \<Rightarrow> string \<Rightarrow> (string, pyval) dict \<Rightarrow> 'a option" where
  "field dec x k d = (case dict_get d k of None \<Rightarrow> Some x | Some v \<Rightarrow> dec v)"

text \<open>\<open>_from_mapping(model, raw)\<close>, with the class's name, its fields and its constructor.\<close>

definition from_mapping ::
    "(pyval \<Rightarrow> string) \<Rightarrow> string \<Rightarrow> string list \<Rightarrow> ((string, pyval) dict \<Rightarrow> 'a option) \<Rightarrow> pyval \<Rightarrow>
     exn + 'a option" where
  "from_mapping repr name fs build raw =
     (case raw of
        PDict d \<Rightarrow>
          (let unknown = filter (\<lambda>k. k \<notin> set fs) (keys d) in
           if unknown \<noteq> []
           then Inl (ConfigurationError
                  (''unknown '' @ name @ '' keys: '' @ repr (PList (map PStr (sort unknown)))))
           else Inr (build d))
      | _ \<Rightarrow> Inl (ConfigurationError (name @ '' config must be an object'')))"

subsection \<open>The five sections\<close>

definition retry_build :: "(string, pyval) dict \<Rightarrow> retry_config option" where
  "retry_build d =
     Option.bind (field as_int (rc_max_attempts retry_defaults) ''max_attempts'' d) (\<lambda>a.
     Option.bind (field as_float (rc_base_delay_seconds retry_defaults) ''base_delay_seconds'' d) (\<lambda>b.
     Option.bind (field as_float (rc_max_delay_seconds retry_defaults) ''max_delay_seconds'' d) (\<lambda>m.
     Option.bind (field as_float (rc_jitter_ratio retry_defaults) ''jitter_ratio'' d) (\<lambda>j.
     Some \<lparr>rc_max_attempts = a, rc_base_delay_seconds = b, rc_max_delay_seconds = m,
           rc_jitter_ratio = j\<rparr>))))"

definition rate_limit_build :: "(string, pyval) dict \<Rightarrow> rate_limit_config option" where
  "rate_limit_build d =
     Option.bind (field as_float (rl_capacity rate_limit_defaults) ''capacity'' d) (\<lambda>c.
     Option.bind (field as_float (rl_refill_per_second rate_limit_defaults) ''refill_per_second'' d) (\<lambda>r.
     Some \<lparr>rl_capacity = c, rl_refill_per_second = r\<rparr>))"

definition breaker_build :: "(string, pyval) dict \<Rightarrow> breaker_config option" where
  "breaker_build d =
     Option.bind (field as_int (cb_failure_threshold breaker_defaults) ''failure_threshold'' d) (\<lambda>f.
     Option.bind (field as_float (cb_recovery_timeout_seconds breaker_defaults)
        ''recovery_timeout_seconds'' d) (\<lambda>r.
     Option.bind (field as_int (cb_half_open_max_calls breaker_defaults) ''half_open_max_calls'' d) (\<lambda>h.
     Some \<lparr>cb_failure_threshold = f, cb_recovery_timeout_seconds = r, cb_half_open_max_calls = h\<rparr>)))"

definition provider_build :: "(string, pyval) dict \<Rightarrow> provider_config option" where
  "provider_build d =
     Option.bind (field as_str (pc_backend provider_defaults) ''backend'' d) (\<lambda>b.
     Option.bind (field as_str (pc_base_url provider_defaults) ''base_url'' d) (\<lambda>u.
     Option.bind (field as_str (pc_model provider_defaults) ''model'' d) (\<lambda>m.
     Option.bind (field as_str (pc_api_key_env provider_defaults) ''api_key_env'' d) (\<lambda>k.
     Option.bind (field as_float (pc_timeout_seconds provider_defaults) ''timeout_seconds'' d) (\<lambda>t.
     Option.bind (field as_float (pc_temperature provider_defaults) ''temperature'' d) (\<lambda>p.
     Option.bind (field as_int (pc_max_tokens provider_defaults) ''max_tokens'' d) (\<lambda>x.
     Option.bind (field as_float (pc_mock_delay_seconds provider_defaults) ''mock_delay_seconds'' d) (\<lambda>y.
     Some \<lparr>pc_backend = b, pc_base_url = u, pc_model = m, pc_api_key_env = k,
           pc_timeout_seconds = t, pc_temperature = p, pc_max_tokens = x,
           pc_mock_delay_seconds = y\<rparr>))))))))"

definition runtime_build :: "(string, pyval) dict \<Rightarrow> runtime_config option" where
  "runtime_build d =
     Option.bind (field as_int (cf_max_concurrency runtime_defaults) ''max_concurrency'' d) (\<lambda>a.
     Option.bind (field as_int (cf_queue_capacity runtime_defaults) ''queue_capacity'' d) (\<lambda>b.
     Option.bind (field as_int (cf_queue_retry_after_seconds runtime_defaults)
        ''queue_retry_after_seconds'' d) (\<lambda>c.
     Option.bind (field as_int (cf_thread_workers runtime_defaults) ''thread_workers'' d) (\<lambda>e.
     Option.bind (field as_int (cf_max_agent_steps runtime_defaults) ''max_agent_steps'' d) (\<lambda>f.
     Option.bind (field as_float (cf_tool_timeout_seconds runtime_defaults)
        ''tool_timeout_seconds'' d) (\<lambda>g.
     Option.bind (field as_float (cf_run_timeout_seconds runtime_defaults) ''run_timeout_seconds'' d) (\<lambda>h.
     Option.bind (field as_float (cf_run_retention_seconds runtime_defaults)
        ''run_retention_seconds'' d) (\<lambda>i.
     Option.bind (field as_int (cf_max_run_records runtime_defaults) ''max_run_records'' d) (\<lambda>j.
     Option.bind (field as_int (cf_history_messages runtime_defaults) ''history_messages'' d) (\<lambda>k.
     Option.bind (field as_int (cf_audit_capacity runtime_defaults) ''audit_capacity'' d) (\<lambda>l.
     Some \<lparr>cf_max_concurrency = a, cf_queue_capacity = b, cf_queue_retry_after_seconds = c,
           cf_thread_workers = e, cf_max_agent_steps = f, cf_tool_timeout_seconds = g,
           cf_run_timeout_seconds = h, cf_run_retention_seconds = i, cf_max_run_records = j,
           cf_history_messages = k, cf_audit_capacity = l\<rparr>)))))))))))"

text \<open>\<open>asdict\<close> of the sections.\<close>

definition retry_to_dict :: "retry_config \<Rightarrow> (string, pyval) dict" where
  "retry_to_dict c =
     [(''max_attempts'', PInt (rc_max_attempts c)),
      (''base_delay_seconds'', PFloat (rc_base_delay_seconds c)),
      (''max_delay_seconds'', PFloat (rc_max_delay_seconds c)),
      (''jitter_ratio'', PFloat (rc_jitter_ratio c))]"

definition rate_limit_to_dict :: "rate_limit_config \<Rightarrow> (string, pyval) dict" where
  "rate_limit_to_dict c =
     [(''capacity'', PFloat (rl_capacity c)), (''refill_per_second'', PFloat (rl_refill_per_second c))]"

definition breaker_to_dict :: "breaker_config \<Rightarrow> (string, pyval) dict" where
  "breaker_to_dict c =
     [(''failure_threshold'', PInt (cb_failure_threshold c)),
      (''recovery_timeout_seconds'', PFloat (cb_recovery_timeout_seconds c)),
      (''half_open_max_calls'', PInt (cb_half_open_max_calls c))]"

definition provider_to_dict :: "provider_config \<Rightarrow> (string, pyval) dict" where
  "provider_to_dict c =
     [(''backend'', PStr (pc_backend c)), (''base_url'', PStr (pc_base_url c)),
      (''model'', PStr (pc_model c)), (''api_key_env'', PStr (pc_api_key_env c)),
      (''timeout_seconds'', PFloat (pc_timeout_seconds c)), (''temperature'', PFloat (pc_temperature c)),
      (''max_tokens'', PInt (pc_max_tokens c)), (''mock_delay_seconds'', PFloat (pc_mock_delay_seconds c))]"

definition runtime_to_dict :: "runtime_config \<Rightarrow> (string, pyval) dict" where
  "runtime_to_dict c =
     [(''max_concurrency'', PInt (cf_max_concurrency c)), (''queue_capacity'', PInt (cf_queue_capacity c)),
      (''queue_retry_after_seconds'', PInt (cf_queue_retry_after_seconds c)),
      (''thread_workers'', PInt (cf_thread_workers c)), (''max_agent_steps'', PInt (cf_max_agent_steps c)),
      (''tool_timeout_seconds'', PFloat (cf_tool_timeout_seconds c)),
      (''run_timeout_seconds'', PFloat (cf_run_timeout_seconds c)),
      (''run_retention_seconds'', PFloat (cf_run_retention_seconds c)),
      (''max_run_records'', PInt (cf_max_run_records c)), (''history_messages'', PInt (cf_history_messages c)),
      (''audit_capacity'', PInt (cf_audit_capacity c))]"

definition app_to_dict :: "app_config \<Rightarrow> (string, pyval) dict" where
  "app_to_dict c =
     [(''provider'', PDict (provider_to_dict (ac_provider c))), (''retry'', PDict (retry_to_dict (ac_retry c))),
      (''rate_limit'', PDict (rate_limit_to_dict (ac_rate_limit c))),
      (''circuit_breaker'', PDict (breaker_to_dict (ac_circuit_breaker c))),
      (''runtime'', PDict (runtime_to_dict (ac_runtime c)))]"

subsection \<open>The whole configuration\<close>

text \<open>The fields of a class are the keys of its dictionary form.\<close>

definition raw_section :: "string \<Rightarrow> (string, pyval) dict \<Rightarrow> pyval" where
  "raw_section k raw = (case dict_get raw k of None \<Rightarrow> PDict [] | Some v \<Rightarrow> v)"

definition app_of ::
    "provider_config option \<Rightarrow> retry_config option \<Rightarrow> rate_limit_config option \<Rightarrow>
     breaker_config option \<Rightarrow> runtime_config option \<Rightarrow> app_config option" where
  "app_of p r l b t =
     (case (p, r, l, b, t) of
        (Some p, Some r, Some l, Some b, Some t) \<Rightarrow>
          Some \<lparr>ac_provider = p, ac_retry = r, ac_rate_limit = l, ac_circuit_breaker = b, ac_runtime = t\<rparr>
      | _ \<Rightarrow> None)"

definition app_from_dict :: "(pyval \<Rightarrow> string) \<Rightarrow> (string, pyval) dict \<Rightarrow> exn + app_config option" where
  "app_from_dict repr raw =
     (let unknown = filter (\<lambda>k. k \<notin> set (keys (app_to_dict app_defaults))) (keys raw) in
      if unknown \<noteq> []
      then Inl (ConfigurationError (''unknown top-level keys: '' @ repr (PList (map PStr (sort unknown)))))
      else
       (case from_mapping repr ''ProviderConfig'' (keys (provider_to_dict provider_defaults))
               provider_build (raw_section ''provider'' raw) of Inl e \<Rightarrow> Inl e | Inr p \<Rightarrow>
       (case from_mapping repr ''RetryConfig'' (keys (retry_to_dict retry_defaults))
               retry_build (raw_section ''retry'' raw) of Inl e \<Rightarrow> Inl e | Inr r \<Rightarrow>
       (case from_mapping repr ''RateLimitConfig'' (keys (rate_limit_to_dict rate_limit_defaults))
               rate_limit_build (raw_section ''rate_limit'' raw) of Inl e \<Rightarrow> Inl e | Inr l \<Rightarrow>
       (case from_mapping repr ''CircuitBreakerConfig'' (keys (breaker_to_dict breaker_defaults))
               breaker_build (raw_section ''circuit_breaker'' raw) of Inl e \<Rightarrow> Inl e | Inr b \<Rightarrow>
       (case from_mapping repr ''RuntimeConfig'' (keys (runtime_to_dict runtime_defaults))
               runtime_build (raw_section ''runtime'' raw) of Inl e \<Rightarrow> Inl e | Inr t \<Rightarrow>
         (case app_of p r l b t of
            None \<Rightarrow> Inr None
          | Some c \<Rightarrow> (case app_validate c of Inl e \<Rightarrow> Inl e | Inr _ \<Rightarrow> Inr (Some c)))))))))"

subsection \<open>The environment\<close>

definition is_upper :: "char \<Rightarrow> bool" where
  "is_upper c \<longleftrightarrow> (let n = of_char c :: nat in 65 \<le> n \<and> n \<le> 90)"

definition is_env_char :: "char \<Rightarrow> bool" where
  "is_env_char c \<longleftrightarrow> is_upper c \<or> c = CHR ''_'' \<or> (let n = of_char c :: nat in 48 \<le> n \<and> n \<le> 57)"

text \<open>
  The pattern \<open>^\$\{([A-Z][A-Z0-9_]*)\}$\<close>. Its last anchor also matches before a line feed at the
  end of the text.
\<close>

fun env_rest :: "string \<Rightarrow> string option" where
  "env_rest [] = None"
| "env_rest (c # cs) =
     (if is_env_char c then map_option ((#) c) (env_rest cs)
      else if c = CHR ''}'' \<and> (cs = [] \<or> cs = [CHR 0x0A]) then Some []
      else None)"

definition env_reference :: "string \<Rightarrow> string option" where
  "env_reference s =
     (case s of
        c1 # c2 # c3 # cs \<Rightarrow>
          if c1 = CHR ''$'' \<and> c2 = CHR ''{'' \<and> is_upper c3 then map_option ((#) c3) (env_rest cs) else None
      | _ \<Rightarrow> None)"

type_synonym environ = "(string, string) dict"

definition expand_str :: "environ \<Rightarrow> string \<Rightarrow> exn + string" where
  "expand_str env s =
     (case env_reference s of
        None \<Rightarrow> Inr s
      | Some name \<Rightarrow>
         (case dict_get env name of
            None \<Rightarrow> Inl (ConfigurationError (''required environment variable is missing: '' @ name))
          | Some v \<Rightarrow> Inr v))"

fun expand_env :: "environ \<Rightarrow> pyval \<Rightarrow> exn + pyval"
  and expand_list :: "environ \<Rightarrow> pyval list \<Rightarrow> exn + pyval list"
  and expand_items :: "environ \<Rightarrow> (string \<times> pyval) list \<Rightarrow> exn + (string \<times> pyval) list" where
  "expand_env env (PDict d) = (case expand_items env d of Inl e \<Rightarrow> Inl e | Inr d' \<Rightarrow> Inr (PDict d'))"
| "expand_env env (PList xs) = (case expand_list env xs of Inl e \<Rightarrow> Inl e | Inr xs' \<Rightarrow> Inr (PList xs'))"
| "expand_env env (PStr s) = (case expand_str env s of Inl e \<Rightarrow> Inl e | Inr s' \<Rightarrow> Inr (PStr s'))"
| "expand_env env v = Inr v"
| "expand_list env [] = Inr []"
| "expand_list env (x # xs) =
     (case expand_env env x of Inl e \<Rightarrow> Inl e | Inr y \<Rightarrow>
     (case expand_list env xs of Inl e \<Rightarrow> Inl e | Inr ys \<Rightarrow> Inr (y # ys)))"
| "expand_items env [] = Inr []"
| "expand_items env ((k, x) # d) =
     (case expand_env env x of Inl e \<Rightarrow> Inl e | Inr y \<Rightarrow>
     (case expand_items env d of Inl e \<Rightarrow> Inl e | Inr d' \<Rightarrow> Inr ((k, y) # d')))"

text \<open>Reading the file and parsing it: an \<open>OSError\<close> or \<open>JSONDecodeError\<close> with its text, or a value.\<close>

definition app_load ::
    "(pyval \<Rightarrow> string) \<Rightarrow> (string \<Rightarrow> string + pyval) \<Rightarrow> environ \<Rightarrow> string \<Rightarrow> exn + app_config option" where
  "app_load repr read env path =
     (case read path of
        Inl text \<Rightarrow> Inl (ConfigurationError (''failed to load config '' @ path @ '': '' @ text))
      | Inr raw \<Rightarrow>
         (case raw of
            PDict d \<Rightarrow>
              (case expand_items env d of
                 Inl e \<Rightarrow> Inl e
               | Inr d' \<Rightarrow> app_from_dict repr d')
          | _ \<Rightarrow> Inl (ConfigurationError ''config root must be an object'')))"

subsection \<open>Lemmas\<close>

lemma field_simps [simp]:
  "field dec x k [] = Some x"
  "field dec x k ((k', v) # d) = (if k = k' then dec v else field dec x k d)"
  by (simp_all add: field_def)

lemma retry_roundtrip: "retry_build (retry_to_dict c) = Some c"
  by (simp add: retry_build_def retry_to_dict_def)

lemma rate_limit_roundtrip: "rate_limit_build (rate_limit_to_dict c) = Some c"
  by (simp add: rate_limit_build_def rate_limit_to_dict_def)

lemma breaker_roundtrip: "breaker_build (breaker_to_dict c) = Some c"
  by (simp add: breaker_build_def breaker_to_dict_def)

lemma provider_roundtrip: "provider_build (provider_to_dict c) = Some c"
  by (simp add: provider_build_def provider_to_dict_def)

lemma runtime_roundtrip: "runtime_build (runtime_to_dict c) = Some c"
  by (simp add: runtime_build_def runtime_to_dict_def)

lemmas config_roundtrips = retry_roundtrip rate_limit_roundtrip breaker_roundtrip provider_roundtrip
  runtime_roundtrip

lemma from_mapping_known:
  "set (keys d) \<subseteq> set fs \<Longrightarrow> from_mapping repr name fs build (PDict d) = Inr (build d)"
  by (auto simp: from_mapping_def Let_def filter_empty_conv)

lemma same_keys:
  "keys (retry_to_dict c) = keys (retry_to_dict retry_defaults)"
  "keys (rate_limit_to_dict l) = keys (rate_limit_to_dict rate_limit_defaults)"
  "keys (breaker_to_dict b) = keys (breaker_to_dict breaker_defaults)"
  "keys (provider_to_dict p) = keys (provider_to_dict provider_defaults)"
  "keys (runtime_to_dict t) = keys (runtime_to_dict runtime_defaults)"
  "keys (app_to_dict a) = keys (app_to_dict app_defaults)"
  by (simp_all add: retry_to_dict_def rate_limit_to_dict_def breaker_to_dict_def provider_to_dict_def
      runtime_to_dict_def app_to_dict_def)

lemma mapping_roundtrips:
  "from_mapping repr n (keys (retry_to_dict retry_defaults)) retry_build (PDict (retry_to_dict c)) = Inr (Some c)"
  "from_mapping repr n (keys (rate_limit_to_dict rate_limit_defaults)) rate_limit_build
     (PDict (rate_limit_to_dict l)) = Inr (Some l)"
  "from_mapping repr n (keys (breaker_to_dict breaker_defaults)) breaker_build
     (PDict (breaker_to_dict b)) = Inr (Some b)"
  "from_mapping repr n (keys (provider_to_dict provider_defaults)) provider_build
     (PDict (provider_to_dict p)) = Inr (Some p)"
  "from_mapping repr n (keys (runtime_to_dict runtime_defaults)) runtime_build
     (PDict (runtime_to_dict t)) = Inr (Some t)"
  using same_keys(1) [of c] same_keys(2) [of l] same_keys(3) [of b] same_keys(4) [of p] same_keys(5) [of t]
  by (simp_all only: from_mapping_known config_roundtrips order_refl)

text \<open>A value without references is its own expansion.\<close>

fun no_reference :: "pyval \<Rightarrow> bool" where
  "no_reference (PStr s) = (env_reference s = None)"
| "no_reference (PList xs) = (\<forall>x \<in> set xs. no_reference x)"
| "no_reference (PDict d) = (\<forall>p \<in> set d. no_reference (snd p))"
| "no_reference v = True"

lemma app_of_parts:
  "app_of (Some (ac_provider c)) (Some (ac_retry c)) (Some (ac_rate_limit c))
     (Some (ac_circuit_breaker c)) (Some (ac_runtime c)) = Some c"
  by (cases c) (simp add: app_of_def)

lemma app_defaults_valid: "app_validate app_defaults = Inr ()"
proof -
  have "\<not> blank ''mock-agent-model''" by (simp add: not_blank_ConsI is_space_def)
  then show ?thesis
    by (simp add: app_validate_def app_defaults_def provider_validate_def provider_defaults_def
        retry_validate_def retry_defaults_def rate_limit_validate_def rate_limit_defaults_def
        breaker_validate_def breaker_defaults_def)
qed

lemma app_defaults_plain: "no_reference (PDict (app_to_dict app_defaults))"
  by code_simp

lemma expand_plain:
  "no_reference v \<Longrightarrow> expand_env env v = Inr v"
  "(\<forall>x \<in> set xs. no_reference x) \<Longrightarrow> expand_list env xs = Inr xs"
  "(\<forall>p \<in> set d. no_reference (snd p)) \<Longrightarrow> expand_items env d = Inr d"
  by (induction env v and env xs and env d rule: expand_env_expand_list_expand_items.induct)
    (auto simp: expand_str_def)

fun is_config_error :: "exn \<Rightarrow> bool" where
  "is_config_error (ConfigurationError _) = True"
| "is_config_error _ = False"

lemma expand_errors:
  "expand_env env v = Inl e \<Longrightarrow> is_config_error e"
  "expand_list env xs = Inl e \<Longrightarrow> is_config_error e"
  "expand_items env d = Inl e \<Longrightarrow> is_config_error e"
  by (induction env v and env xs and env d rule: expand_env_expand_list_expand_items.induct)
    (auto simp: expand_str_def split: sum.splits option.splits)

lemma from_mapping_error: "from_mapping repr name fs build raw = Inl e \<Longrightarrow> is_config_error e"
  by (auto simp: from_mapping_def Let_def split: pyval.splits if_splits)

lemma validate_errors:
  "retry_validate r = Inl e \<Longrightarrow> is_config_error e" "rate_limit_validate l = Inl e \<Longrightarrow> is_config_error e"
  "breaker_validate b = Inl e \<Longrightarrow> is_config_error e" "provider_validate p = Inl e \<Longrightarrow> is_config_error e"
  "runtime_validate t = Inl e \<Longrightarrow> is_config_error e"
  by (auto simp: retry_validate_def rate_limit_validate_def breaker_validate_def provider_validate_def
      runtime_validate_def Let_def split: if_splits)

lemma app_validate_error: "app_validate c = Inl e \<Longrightarrow> is_config_error e"
  by (auto simp: app_validate_def dest: validate_errors split: sum.splits)

lemma app_from_dict_error: "app_from_dict repr raw = Inl e \<Longrightarrow> is_config_error e"
  by (auto simp: app_from_dict_def Let_def dest: from_mapping_error app_validate_error
      split: if_splits sum.splits option.splits)

lemma app_from_dict_valid: "app_from_dict repr raw = Inr (Some c) \<Longrightarrow> app_validate c = Inr ()"
  by (auto simp: app_from_dict_def Let_def split: if_splits sum.splits option.splits)




end
