(* ===== verification/Providers.thy ===== *)
theory Providers
  imports Config
begin

section \<open>LLM providers\<close>

text \<open>
  The provider interface \<open>LLMClient\<close> and its implementations. \<open>llm/openai_compatible.py\<close>: the request
  that is sent and the reading of what comes back; the HTTP exchange, the JSON parser, \<open>repr\<close> and
  \<open>int\<close> on texts are parameters. \<open>llm/mock.py\<close>: the scripted client and the mock, whose Chinese
  texts lie outside the characters of this model and are parameters too.
\<close>

subsection \<open>The request of the OpenAI-compatible client\<close>

text \<open>\<open>a or b\<close> on optional texts.\<close>

definition or_str :: "string option \<Rightarrow> string \<Rightarrow> string" where
  "or_str a b = (case a of Some s \<Rightarrow> if s \<noteq> [] then s else b | None \<Rightarrow> b)"

definition request_payload :: "provider_config \<Rightarrow> llm_request \<Rightarrow> (string, pyval) dict" where
  "request_payload c request =
     [(''model'', PStr (or_str (req_model request) (pc_model c))),
      (''messages'', PList (map (\<lambda>m. PDict (map (\<lambda>(k, v). (k, PStr v)) (message_to_dict m)))
         (req_messages request))),
      (''temperature'', PFloat (req_temperature request)),
      (''max_tokens'', PInt (req_max_tokens request)),
      (''stream'', PBool False)]"

definition request_headers :: "provider_config \<Rightarrow> (string, string) dict \<Rightarrow> (string, string) dict" where
  "request_headers c env =
     (let headers = [(''Content-Type'', ''application/json'')];
          api_key = (case dict_get env (pc_api_key_env c) of Some k \<Rightarrow> k | None \<Rightarrow> [])
      in if api_key \<noteq> [] then dict_set ''Authorization'' (''Bearer '' @ api_key) headers else headers)"

definition rstrip_slash :: "string \<Rightarrow> string" where
  "rstrip_slash s = rev (dropWhile (\<lambda>c. c = CHR ''/'') (rev s))"

definition request_url :: "provider_config \<Rightarrow> string" where
  "request_url c = rstrip_slash (pc_base_url c) @ ''/chat/completions''"

text \<open>The whole request; \<open>dumps\<close> is \<open>json.dumps\<close> followed by the encoding as UTF-8.\<close>

record http_request =
  hr_url :: string
  hr_data :: string
  hr_headers :: "(string, string) dict"
  hr_method :: string
  hr_timeout :: pyfloat

definition build_request ::
    "((string, pyval) dict \<Rightarrow> string) \<Rightarrow> provider_config \<Rightarrow> (string, string) dict \<Rightarrow> llm_request \<Rightarrow> http_request" where
  "build_request dumps c env request =
     \<lparr>hr_url = request_url c, hr_data = dumps (request_payload c request), hr_headers = request_headers c env,
      hr_method = ''POST'', hr_timeout = pc_timeout_seconds c\<rparr>"

subsection \<open>Its response\<close>

text \<open>What \<open>urlopen\<close> and \<open>read\<close> come to: a body, an HTTP error with its code and decoded detail, a
  \<open>URLError\<close>, \<open>TimeoutError\<close> or \<open>ConnectionError\<close> with its text, or any other exception, which nothing
  catches: those of \<open>http.client\<close>, and in Python 3.9 the \<open>socket.timeout\<close> of a \<open>read\<close>.\<close>

datatype exchange = Http_body string | Http_error int string | Unreachable string | Broken exn

definition transient_status :: "int list" where
  "transient_status = [408, 409, 425, 429, 500, 502, 503, 504]"

definition exchange_error :: "(int \<Rightarrow> string) \<Rightarrow> exchange \<Rightarrow> exn + string" where
  "exchange_error num x =
     (case x of
        Http_body raw \<Rightarrow> Inr raw
      | Http_error code detail \<Rightarrow>
         (let text = ''provider HTTP '' @ num code @ '': '' @ detail
          in Inl (if code \<in> set transient_status then TransientLLMError text else PermanentLLMError text))
      | Unreachable text \<Rightarrow> Inl (TransientLLMError (''provider unavailable: '' @ text))
      | Broken e \<Rightarrow> Inl e)"

text \<open>\<open>value[key]\<close> on a parsed value, with a text or an index as the key.\<close>

definition index_key :: "string \<Rightarrow> pyval \<Rightarrow> pyval option" where
  "index_key k v = (case v of PDict d \<Rightarrow> dict_get d k | _ \<Rightarrow> None)"

definition index_zero :: "pyval \<Rightarrow> pyval option" where
  "index_zero v =
     (case v of PList (x # xs) \<Rightarrow> Some x | PStr (c # cs) \<Rightarrow> Some (PStr [c]) | _ \<Rightarrow> None)"

text \<open>
  The \<open>try\<close> block: any \<open>KeyError\<close>, \<open>IndexError\<close> or \<open>TypeError\<close> (\<open>None\<close> here) means a malformed
  response. Its results are the body, the choice, the content and the usage.
\<close>

definition read_choice ::
    "pyval \<Rightarrow> ((string, pyval) dict \<times> (string, pyval) dict \<times> pyval \<times> pyval) option" where
  "read_choice v =
     (case v of
        PDict body \<Rightarrow>
          Option.bind (dict_get body ''choices'') (\<lambda>choices.
          Option.bind (index_zero choices) (\<lambda>choice.
          Option.bind (index_key ''message'' choice) (\<lambda>message.
          Option.bind (index_key ''content'' message) (\<lambda>content.
          case choice of
            PDict ch \<Rightarrow>
              (let usage = (case dict_get body ''usage'' of
                              Some u \<Rightarrow> if truthy u then u else PDict [] | None \<Rightarrow> PDict [])
               in Some (body, ch, content, usage))
          | _ \<Rightarrow> None))))
      | _ \<Rightarrow> None)"

text \<open>\<open>type(value).__name__\<close>, in quotes.\<close>

definition quoted_type :: "pyval \<Rightarrow> string" where
  "quoted_type v =
     [CHR 0x27] @ (case v of PNone \<Rightarrow> ''NoneType'' | PBool _ \<Rightarrow> ''bool'' | PInt _ \<Rightarrow> ''int''
       | PFloat _ \<Rightarrow> ''float'' | PStr _ \<Rightarrow> ''str'' | PList _ \<Rightarrow> ''list'' | PDict _ \<Rightarrow> ''dict'') @ [CHR 0x27]"

text \<open>\<open>_optional_int\<close>: \<open>int(value)\<close> of what is not \<open>None\<close>.\<close>

definition optional_int :: "(pyval \<Rightarrow> string) \<Rightarrow> (string \<Rightarrow> int option) \<Rightarrow> pyval \<Rightarrow> exn + int option" where
  "optional_int repr int_of v =
     (case v of
        PNone \<Rightarrow> Inr None
      | PBool b \<Rightarrow> Inr (Some (if b then 1 else 0))
      | PInt i \<Rightarrow> Inr (Some i)
      | PFloat f \<Rightarrow> Inr (Some (if 0 \<le> f then \<lfloor>f\<rfloor> else \<lceil>f\<rceil>))
      | PStr s \<Rightarrow> (case int_of s of Some i \<Rightarrow> Inr (Some i)
                   | None \<Rightarrow> Inl (ValueError (''invalid literal for int() with base 10: '' @ repr v)))
      | _ \<Rightarrow> Inl (TypeError (''int() argument must be a string, a bytes-like object or a real number, not ''
               @ quoted_type v)))"

text \<open>What \<open>json.loads\<close> makes of the bytes of a body: a value, a \<open>JSONDecodeError\<close>, or another exception,
  such as the \<open>UnicodeDecodeError\<close> of bytes that are no text.\<close>

datatype parsed = Json pyval | Json_error | Not_text exn

text \<open>The answer, with the finish reason as the provider gave it.\<close>

record decoded =
  dc_content :: string
  dc_model :: string
  dc_prompt_tokens :: "int option"
  dc_completion_tokens :: "int option"
  dc_finish_reason :: pyval

definition usage_get :: "string \<Rightarrow> pyval \<Rightarrow> exn + pyval" where
  "usage_get k usage =
     (case usage of
        PDict u \<Rightarrow> Inr (case dict_get u k of Some v \<Rightarrow> v | None \<Rightarrow> PNone)
      | _ \<Rightarrow> Inl (OtherError ''AttributeError''
               (quoted_type usage @ '' object has no attribute '' @ [CHR 0x27] @ ''get'' @ [CHR 0x27])))"

definition decode_response ::
    "(pyval \<Rightarrow> string) \<Rightarrow> (string \<Rightarrow> int option) \<Rightarrow> (string \<Rightarrow> parsed) \<Rightarrow> provider_config \<Rightarrow>
     llm_request \<Rightarrow> string \<Rightarrow> exn + decoded" where
  "decode_response repr int_of loads c request raw =
     (case (case loads raw of Json v \<Rightarrow> Inr (read_choice v) | Json_error \<Rightarrow> Inr None | Not_text e \<Rightarrow> Inl e) of
        Inl e \<Rightarrow> Inl e
      | Inr None \<Rightarrow> Inl (PermanentLLMError ''provider returned an invalid response'')
      | Inr (Some (body, choice, content, usage)) \<Rightarrow>
         (let model = (case dict_get body ''model'' of
                         Some m \<Rightarrow> if truthy m then py_str repr m else or_str (req_model request) (pc_model c)
                       | None \<Rightarrow> or_str (req_model request) (pc_model c)) in
          case usage_get ''prompt_tokens'' usage of Inl e \<Rightarrow> Inl e | Inr p \<Rightarrow>
         (case optional_int repr int_of p of Inl e \<Rightarrow> Inl e | Inr prompt \<Rightarrow>
         (case usage_get ''completion_tokens'' usage of Inl e \<Rightarrow> Inl e | Inr q \<Rightarrow>
         (case optional_int repr int_of q of Inl e \<Rightarrow> Inl e | Inr completion \<Rightarrow>
            Inr \<lparr>dc_content = py_str repr content, dc_model = model, dc_prompt_tokens = prompt,
                 dc_completion_tokens = completion,
                 dc_finish_reason = (case dict_get choice ''finish_reason'' of
                                       Some v \<Rightarrow> v | None \<Rightarrow> PNone)\<rparr>)))))"

definition openai_request ::
    "(int \<Rightarrow> string) \<Rightarrow> (pyval \<Rightarrow> string) \<Rightarrow> (string \<Rightarrow> int option) \<Rightarrow> (string \<Rightarrow> parsed) \<Rightarrow>
     provider_config \<Rightarrow> llm_request \<Rightarrow> exchange \<Rightarrow> exn + decoded" where
  "openai_request num repr int_of loads c request x =
     (case exchange_error num x of
        Inl e \<Rightarrow> Inl e
      | Inr raw \<Rightarrow> decode_response repr int_of loads c request raw)"

subsection \<open>The scripted client and the mock\<close>

record scripted =
  sl_responses :: "string list"
  sl_model :: string
  sl_calls :: int

definition scripted_new :: "string list \<Rightarrow> string \<Rightarrow> scripted" where
  "scripted_new responses model = \<lparr>sl_responses = responses, sl_model = model, sl_calls = 0\<rparr>"

definition plain_answer :: "string \<Rightarrow> string \<Rightarrow> string option \<Rightarrow> llm_response" where
  "plain_answer content model finish =
     \<lparr>resp_content = content, resp_model = model, resp_prompt_tokens = None,
      resp_completion_tokens = None, resp_finish_reason = finish, resp_metadata = []\<rparr>"

definition scripted_complete :: "scripted \<Rightarrow> (exn + llm_response) \<times> scripted" where
  "scripted_complete s =
     (let s1 = s\<lparr>sl_calls := sl_calls s + 1\<rparr> in
      case sl_responses s1 of
        [] \<Rightarrow> (Inl (BuiltinRuntimeError ''scripted LLM responses exhausted''), s1)
      | r # rs \<Rightarrow> (Inr (plain_answer r (sl_model s1) None), s1\<lparr>sl_responses := rs\<rparr>))"

text \<open>\<open>str.lower\<close> on code points below 256.\<close>

definition lower_char :: "char \<Rightarrow> char" where
  "lower_char c =
     (let n = of_char c :: nat in
      if 65 \<le> n \<and> n \<le> 90 \<or> 192 \<le> n \<and> n \<le> 222 \<and> n \<noteq> 215 then char_of (n + 32) else c)"

definition lower :: "string \<Rightarrow> string" where
  "lower s = map lower_char s"

fun contains :: "string \<Rightarrow> string \<Rightarrow> bool" where
  "contains p [] = (p = [])"
| "contains p (c # cs) = (startswith p (c # cs) \<or> contains p cs)"

record mock_texts =
  mt_plan :: string
  mt_critique :: string
  mt_react :: "string \<Rightarrow> string"

definition mock_content :: "mock_texts \<Rightarrow> llm_request \<Rightarrow> string" where
  "mock_content T request =
     (let combined = join [CHR 0x0A] (map msg_content (req_messages request));
          latest = msg_content (last (req_messages request));
          lowered = lower combined
      in if contains ''json array'' lowered then mt_plan T
         else if contains ''react controller'' lowered
         then mt_react T (''[mock] '' @ take 160 latest)
         else if contains ''critique'' lowered then mt_critique T
         else if contains ''revise'' lowered then ''[mock revised] '' @ take 220 latest
         else if contains ''synthesize'' lowered then ''[mock synthesis] '' @ take 220 latest
         else ''[mock] '' @ take 220 latest)"

record mock =
  mk_model :: string
  mk_delay_seconds :: pyfloat
  mk_calls :: int

text \<open>The mock answers after its delay, which is returned beside the answer.\<close>

definition mock_complete :: "mock_texts \<Rightarrow> llm_request \<Rightarrow> mock \<Rightarrow> pyfloat option \<times> llm_response \<times> mock" where
  "mock_complete T request s =
     (if mk_delay_seconds s \<noteq> 0 then Some (mk_delay_seconds s) else None,
      plain_answer (mock_content T request) (mk_model s) (Some ''stop''),
      s\<lparr>mk_calls := mk_calls s + 1\<rparr>)"

subsection \<open>Lemmas\<close>

lemma exchange_error_cases:
  "exchange_error num x = Inl e \<Longrightarrow> (\<exists>f. x = Broken f \<and> e = f) \<or> is_llm_error e
     \<and> (is_transient e \<longleftrightarrow> (case x of Http_error code d \<Rightarrow> code \<in> set transient_status | _ \<Rightarrow> True))"
  by (cases x) (auto simp: exchange_error_def Let_def split: if_splits)

lemma decode_malformed:
  assumes "loads raw = Json_error \<or> (\<exists>v. loads raw = Json v \<and> read_choice v = None)"
  shows "decode_response repr int_of loads c request raw =
       Inl (PermanentLLMError ''provider returned an invalid response'')"
  using assms by (auto simp: decode_response_def)

lemma decode_without_usage:
  assumes "loads raw = Json v" and "read_choice v = Some (body, ch, content, PDict [])"
  shows "\<exists>d. decode_response repr int_of loads c request raw = Inr d \<and> dc_content d = py_str repr content"
  using assms by (simp add: decode_response_def usage_get_def optional_int_def Let_def)

text \<open>The scripted client hands out its responses in order, and then raises.\<close>

fun scripted_all :: "nat \<Rightarrow> scripted \<Rightarrow> (exn + llm_response) list" where
  "scripted_all 0 s = []"
| "scripted_all (Suc n) s = (let (r, s') = scripted_complete s in r # scripted_all n s')"

lemma scripted_all_in_order:
  "n \<le> length (sl_responses s) \<Longrightarrow>
     scripted_all n s = map (\<lambda>r. Inr (plain_answer r (sl_model s) None)) (take n (sl_responses s))"
proof (induction n arbitrary: s)
  case (Suc n)
  then obtain r rs where "sl_responses s = r # rs" by (cases "sl_responses s") auto
  then show ?case using Suc by (simp add: scripted_complete_def Let_def)
qed simp

lemma mock_content_nonblank:
  assumes "\<not> blank (mt_plan T)" "\<not> blank (mt_critique T)" "\<And>x. \<not> blank (mt_react T x)"
  shows "\<not> blank (mock_content T request)"
proof -
  have "\<not> blank (CHR ''['' # s)" for s by (rule not_blank_ConsI) (simp add: is_space_def)
  then show ?thesis using assms by (simp add: mock_content_def Let_def)
qed

end
