(* ===== verification/Factory.thy ===== *)
theory Factory
  imports Runtime Resilient_Client Tools Providers
begin

section \<open>Wiring\<close>

text \<open>
  \<open>create_runtime\<close> of \<open>factory.py\<close>: which provider a configuration selects, the objects it builds and how they are connected. In the program all of
  them share one \<open>MetricsRegistry\<close>; the models of the components each carry their own part of it,
  which is sound because no component reads a metric of another. The thread pool
  of the registry is in \<open>Tool_Threads\<close>.
\<close>

datatype provider_choice = Use_mock string pyfloat | Use_openai provider_config

definition choose_provider :: "provider_config \<Rightarrow> provider_choice" where
  "choose_provider c =
     (if pc_backend c = ''mock'' then Use_mock (pc_model c) (pc_mock_delay_seconds c) else Use_openai c)"

record system =
  sy_provider :: provider_choice
  sy_client :: client
  sy_tools :: registry
  sy_env :: env
  sy_runtime :: runtime

definition create_runtime ::
    "app_config \<Rightarrow> time \<Rightarrow> (nat \<Rightarrow> string) \<Rightarrow> codec \<Rightarrow> exn + system" where
  "create_runtime c now uuids codec =
     (case bucket_new (ac_rate_limit c) now of Inl e \<Rightarrow> Inl e | Inr limiter \<Rightarrow>
     (case breaker_new (ac_circuit_breaker c) of Inl e \<Rightarrow> Inl e | Inr breaker \<Rightarrow>
     (case client_new (ac_retry c) limiter breaker [] of Inl e \<Rightarrow> Inl e | Inr client \<Rightarrow>
     (case bus_new (cf_audit_capacity (ac_runtime c)) of Inl e \<Rightarrow> Inl e | Inr bus \<Rightarrow>
     (case register_builtin_tools (registry_new (cf_tool_timeout_seconds (ac_runtime c)) []) of
        (Inl e, _) \<Rightarrow> Inl e
      | (Inr _, tools) \<Rightarrow>
         (let E = \<lparr>env_config = ac_runtime c, env_uuids = uuids, env_codec = codec,
                   env_tools = tool_describe tools\<rparr> in
          case runtime_new E bus of
            Inl e \<Rightarrow> Inl e
          | Inr rt \<Rightarrow> Inr \<lparr>sy_provider = choose_provider (ac_provider c), sy_client = client,
                           sy_tools = tools, sy_env = E, sy_runtime = rt\<rparr>))))))"

lemma builtin_tools:
  "\<exists>s. register_builtin_tools (registry_new t m) = (Inr (), s) \<and> registry_ok s
     \<and> keys (rg_tools s) = [''calculator'', ''echo''] \<and> rg_calls s = []
     \<and> tool_describe s \<noteq> []"
  by (simp add: register_builtin_tools_def tool_register_def registry_new_def not_blank_ConsI is_space_def
      registry_ok_def tool_describe_def timeout_or_def)

lemma app_validateD:
  assumes "app_validate c = Inr ()"
  shows "retry_validate (ac_retry c) = Inr ()" "rate_limit_validate (ac_rate_limit c) = Inr ()"
    "breaker_validate (ac_circuit_breaker c) = Inr ()" "runtime_validate (ac_runtime c) = Inr ()"
    "provider_validate (ac_provider c) = Inr ()"
  using assms by (auto simp: app_validate_def split: sum.splits)

text \<open>A configuration that passes its checks gives a system.\<close>

lemma create_runtime_valid:
  assumes c: "app_validate c = Inr ()"
  shows "\<exists>S. create_runtime c now uuids codec = Inr S \<and> cl_retry (sy_client S) = ac_retry c
    \<and> wf_bucket (cl_limiter (sy_client S)) \<and> breaker_agrees 0 None (cl_breaker (sy_client S))
    \<and> cl_reachable (ac_retry c) (sy_client S) \<and> registry_ok (sy_tools S)
    \<and> env_config (sy_env S) = ac_runtime c \<and> env_uuids (sy_env S) = uuids
    \<and> (\<exists>b. wf_bus b \<and> runtime_new (sy_env S) b = Inr (sy_runtime S))
    \<and> rt_runs (sy_runtime S) = []"
proof -
  note v = app_validateD [OF c]
  note rv = runtime_validateD [OF v(4)]
  obtain l where l: "bucket_new (ac_rate_limit c) now = Inr l" using v(2) by (simp add: bucket_new_def)
  obtain b where b: "breaker_new (ac_circuit_breaker c) = Inr b" using v(3) by (simp add: breaker_new_def)
  obtain cl where cl: "client_new (ac_retry c) l b [] = Inr cl" "cl_retry cl = ac_retry c"
    "cl_limiter cl = l" "cl_breaker cl = b"
    using v(1) by (simp add: client_new_def)
  obtain bus where bus: "bus_new (cf_audit_capacity (ac_runtime c)) = Inr bus"
    using rv(6) by (simp add: bus_new_def audit_new_def)
  obtain tools where t: "register_builtin_tools (registry_new (cf_tool_timeout_seconds (ac_runtime c)) []) = (Inr (), tools)"
    "registry_ok tools" using builtin_tools by blast
  let ?E = "\<lparr>env_config = ac_runtime c, env_uuids = uuids, env_codec = codec, env_tools = tool_describe tools\<rparr>"
  obtain rt where rt: "runtime_new ?E bus = Inr rt" "rt_runs rt = []"
    using v(4) rv(2,5) by (simp add: runtime_new_def session_store_new_def queue_new_def)
  show ?thesis
    using l b cl bus t rt wf_bucket_new [OF l] agrees_new [OF b] wf_bus_new [OF bus] cl_init [OF cl(1)]
    by (auto simp: create_runtime_def Let_def)
qed

end
