(* ===== verification/Api.thy ===== *)
theory Api
  imports Factory Config_Load
begin

section \<open>The HTTP interface\<close>

text \<open>
  \<open>api.py\<close>. The application's state is the runtime, once the lifespan has started it. A request
  that FastAPI has parsed is checked against the constraints that the models and the header declare;
  a violation is answered by the validation handler, with pydantic's list of errors as a parameter.
  An exception of a route goes to the handler registered for its class or its nearest base class,
  and to the server's 500 page when there is none: this is how Starlette dispatches exceptions.
\<close>

record response =
  rs_status :: int
  rs_body :: pyval
  rs_headers :: "(string, string) dict"

text \<open>\<open>ErrorDetail\<close>, and \<open>ErrorResponse\<close> as \<open>model_dump(exclude_none=True)\<close> writes it.\<close>

record error_detail =
  ed_code :: string
  ed_message :: string
  ed_retryable :: bool
  ed_details :: "pyval list option"

definition dump_error :: "error_detail \<Rightarrow> pyval" where
  "dump_error d =
     PDict [(''error'', PDict ([(''code'', PStr (ed_code d)), (''message'', PStr (ed_message d)),
        (''retryable'', PBool (ed_retryable d))]
        @ (case ed_details d of None \<Rightarrow> [] | Some ds \<Rightarrow> [(''details'', PList ds)])))]"

definition error_response ::
    "int \<Rightarrow> string \<Rightarrow> string \<Rightarrow> bool \<Rightarrow> pyval list option \<Rightarrow> (string, string) dict \<Rightarrow> response" where
  "error_response status code message retryable details headers =
     \<lparr>rs_status = status,
      rs_body = dump_error \<lparr>ed_code = code, ed_message = message, ed_retryable = retryable, ed_details = details\<rparr>,
      rs_headers = headers\<rparr>"

subsection \<open>Exception handlers\<close>

record violation =
  vi_location :: "pyval list"
  vi_message :: string
  vi_type :: string

definition validation_handler :: "violation list \<Rightarrow> response" where
  "validation_handler errors =
     error_response 422 ''validation_error'' ''request validation failed'' False
       (Some (map (\<lambda>v. PDict [(''location'', PList (vi_location v)), (''message'', PStr (vi_message v)),
          (''type'', PStr (vi_type v))]) errors)) []"

definition server_error :: response where
  "server_error = \<lparr>rs_status = 500, rs_body = PStr ''Internal Server Error'', rs_headers = []\<rparr>"

definition handle_exception :: "exn \<Rightarrow> response" where
  "handle_exception e =
     (case e of
        RunNotFoundError m \<Rightarrow> error_response 404 ''run_not_found'' (exn_str e) False None []
      | IdempotencyConflictError m \<Rightarrow> error_response 409 ''idempotency_conflict'' (exn_str e) False None []
      | RunQueueFullError d \<Rightarrow>
          error_response 429 ''run_queue_full'' (exn_str e) True None [(''Retry-After'', str_int d)]
      | _ \<Rightarrow>
          if is_agent_runtime_error e
          then error_response 503 ''runtime_error'' (exn_str e) True None []
          else server_error)"

subsection \<open>Requests\<close>

record run_request =
  rq_input :: string
  rq_pattern :: agent_kind
  rq_session_id :: "string option"
  rq_key :: "string option"

definition length_in :: "nat \<Rightarrow> string \<Rightarrow> bool" where
  "length_in m s \<longleftrightarrow> 1 \<le> length s \<and> length s \<le> m"

definition request_valid :: "run_request \<Rightarrow> bool" where
  "request_valid q \<longleftrightarrow>
     length_in 32768 (rq_input q)
     \<and> (case rq_session_id q of None \<Rightarrow> True | Some s \<Rightarrow> length_in 128 s)
     \<and> (case rq_key q of None \<Rightarrow> True | Some k \<Rightarrow> length_in 128 k)"

text \<open>A run as the response model writes it, with the audit trail when it was asked for.\<close>

definition run_payload :: "run_record \<Rightarrow> pyval \<Rightarrow> pyval" where
  "run_payload run audit = PDict (run_to_dict run @ [(''audit'', audit)])"

definition ok_response :: "int \<Rightarrow> pyval \<Rightarrow> (string, string) dict \<Rightarrow> response" where
  "ok_response status body headers = \<lparr>rs_status = status, rs_body = body, rs_headers = headers\<rparr>"

subsection \<open>Routes\<close>

text \<open>A route is entered with the runtime, or before the lifespan has stored one.\<close>

abbreviation no_runtime :: response where
  "no_runtime \<equiv> handle_exception (KeyError ''runtime'')"

definition api_submit ::
    "(run_request \<Rightarrow> violation list) \<Rightarrow> env \<Rightarrow> time \<Rightarrow> run_request \<Rightarrow> runtime option \<Rightarrow>
     response \<times> runtime option" where
  "api_submit errors E now q s =
     (if \<not> request_valid q then (validation_handler (errors q), s)
      else case s of
        None \<Rightarrow> (no_runtime, None)
      | Some rt \<Rightarrow>
         (case submit E now (rq_input q) (Inr (rq_pattern q)) (rq_session_id q) (rq_key q) rt of
            (Inl e, rt1) \<Rightarrow> (handle_exception e, Some rt1)
          | (Inr rid, rt1) \<Rightarrow>
             (case rt_heap rt1 rid of
                None \<Rightarrow> (server_error, Some rt1)
              | Some run \<Rightarrow>
                  (ok_response 202 (run_payload run PNone)
                     (case rq_key q of None \<Rightarrow> [] | Some k \<Rightarrow> [(''Idempotency-Key'', k)]), Some rt1))))"

definition api_get_run :: "string \<Rightarrow> bool \<Rightarrow> runtime option \<Rightarrow> response" where
  "api_get_run rid include_audit s =
     (case s of
        None \<Rightarrow> no_runtime
      | Some rt \<Rightarrow>
         (case runtime_get rt rid of
            Inl e \<Rightarrow> handle_exception e
          | Inr run \<Rightarrow>
              ok_response 200 (run_payload run
                (if include_audit then PList (map PDict (audit_events (Some (rr_trace_id run)) rt)) else PNone)) []))"

definition api_cancel_run :: "env \<Rightarrow> time \<Rightarrow> string \<Rightarrow> runtime option \<Rightarrow> response \<times> runtime option" where
  "api_cancel_run E now rid s =
     (case s of
        None \<Rightarrow> (no_runtime, None)
      | Some rt \<Rightarrow>
         (case cancel E now rid rt of
            (Inl e, rt1) \<Rightarrow> (handle_exception e, Some rt1)
          | (Inr cancelled, rt1) \<Rightarrow>
             (case runtime_get rt1 rid of
                Inl e \<Rightarrow> (handle_exception e, Some rt1)
              | Inr run \<Rightarrow>
                  (ok_response 200 (PDict [(''cancelled'', PBool cancelled), (''run'', run_payload run PNone)]) [],
                   Some rt1))))"

record health_response =
  he_status :: string
  he_ready :: bool
  he_queue_depth :: int
  he_queue_capacity :: int
  he_retained_runs :: int

definition dump_health :: "health_response \<Rightarrow> pyval" where
  "dump_health h = PDict [(''status'', PStr (he_status h)), (''ready'', PBool (he_ready h)),
     (''queue_depth'', PInt (he_queue_depth h)), (''queue_capacity'', PInt (he_queue_capacity h)),
     (''retained_runs'', PInt (he_retained_runs h))]"

definition api_healthz :: "runtime option \<Rightarrow> response" where
  "api_healthz s =
     (case s of
        None \<Rightarrow>
          ok_response 200 (dump_health \<lparr>he_status = ''starting'', he_ready = False, he_queue_depth = 0,
            he_queue_capacity = 0, he_retained_runs = 0\<rparr>) []
      | Some rt \<Rightarrow>
          ok_response 200 (dump_health \<lparr>he_status = ''ok'', he_ready = True,
            he_queue_depth = \<lfloor>metric (snapshot (w_metrics (rt_world rt))) ''run_queue_depth''\<rfloor>,
            he_queue_capacity = int (tq_capacity (rt_queue rt)),
            he_retained_runs = int (length (list_runs rt))\<rparr>) [])"

definition api_metrics :: "(pyfloat \<Rightarrow> string) \<Rightarrow> runtime option \<Rightarrow> string" where
  "api_metrics fmt s =
     (case s of
        None \<Rightarrow> ''agent_runtime_ready 0'' @ [CHR 0x0A]
      | Some rt \<Rightarrow> render_prometheus fmt (w_metrics (rt_world rt)))"

text \<open>The lifespan: the configuration is loaded, the system built and its runtime started.\<close>

definition lifespan_start ::
    "exn + app_config option \<Rightarrow> time \<Rightarrow> (nat \<Rightarrow> string) \<Rightarrow> codec \<Rightarrow> exn + (env \<times> runtime) option" where
  "lifespan_start config now uuids codec =
     (case config of
        Inl e \<Rightarrow> Inl e
      | Inr None \<Rightarrow> Inr None
      | Inr (Some c) \<Rightarrow>
         (case create_runtime c now uuids codec of
            Inl e \<Rightarrow> Inl e
          | Inr S \<Rightarrow>
             (case runtime_start (sy_env S) (sy_runtime S) of
                (Inl e, rt) \<Rightarrow> Inl e
              | (Inr _, rt) \<Rightarrow> Inr (Some (sy_env S, rt)))))"

text \<open>
  The end of the lifespan: \<open>close\<close> up to its suspension, and the rest once the tasks it gathers are
  done, after which the application has no runtime.
\<close>

definition lifespan_stop :: "env \<Rightarrow> time \<Rightarrow> runtime \<Rightarrow> (exn + unit) \<times> runtime option" where
  "lifespan_stop E now rt =
     (case close_begin E now rt of (result, rt1) \<Rightarrow> (result, Some rt1))"

definition lifespan_end :: "runtime option \<Rightarrow> runtime option option" where
  "lifespan_end s =
     (case s of
        None \<Rightarrow> None
      | Some rt \<Rightarrow> (case close_end rt of None \<Rightarrow> None | Some _ \<Rightarrow> Some None))"

subsection \<open>Lemmas\<close>

text \<open>After the lifespan a request finds no runtime.\<close>

lemma lifespan_over:
  assumes "lifespan_end s = Some s'"
  shows "s' = None" and "api_submit errors E now q s' = (if request_valid q then (no_runtime, None)
      else (validation_handler (errors q), None))"
  using assms by (auto simp: lifespan_end_def api_submit_def split: option.splits)

text \<open>The status of an error depends on its class.\<close>

lemma handle_exception_status:
  "rs_status (handle_exception e) =
     (case e of
        RunNotFoundError _ \<Rightarrow> 404
      | IdempotencyConflictError _ \<Rightarrow> 409
      | RunQueueFullError _ \<Rightarrow> 429
      | _ \<Rightarrow> if is_agent_runtime_error e then 503 else 500)"
  by (simp add: handle_exception_def error_response_def server_error_def split: exn.split)

lemma queue_full_response:
  "handle_exception (RunQueueFullError d) = error_response 429 ''run_queue_full''
     ''run queue is at capacity'' True None [(''Retry-After'', str_int d)]"
  by (simp add: handle_exception_def)

lemma rs_status_error [simp]: "rs_status (error_response a b c d e f) = a"
  "rs_headers (error_response a b c d e f) = f"
  by (simp_all add: error_response_def)

end
