(* ===== verification/Api_Properties.thy ===== *)
theory Api_Properties
  imports Api Runtime_Cases
begin

section \<open>What a client of the HTTP interface sees\<close>

text \<open>
  The composition of the routes with the runtime: a started application serves a reachable runtime,
  and the answer to a submission.
\<close>

lemma runtime_new_open: "runtime_new E b = Inr s \<Longrightarrow> \<not> rt_closed s \<and> \<not> rt_started s"
  by (auto simp: runtime_new_def split: sum.splits)



text \<open>A valid submission without a key to an open runtime is answered by the state of the queue
  alone: 202 with the new READY run while there is room, and otherwise 429 with \<open>Retry-After\<close>, with
  the queue and every run as they were.\<close>

theorem submission_over_http:
  assumes "reachable E rt" and "uuids_ok E" and "\<not> rt_closed rt"
    and "request_valid q" and "rq_key q = None" and "\<not> blank (rq_input q)"
  shows "if queue_full (rt_queue rt)
    then \<exists>rt'. api_submit errors E now q (Some rt) = (error_response 429 ''run_queue_full''
        ''run queue is at capacity'' True None
        [(''Retry-After'', str_int (cf_queue_retry_after_seconds (env_config E)))], Some rt')
      \<and> rt_heap rt' = rt_heap rt \<and> rt_queue rt' = rt_queue rt
    else \<exists>rt' run. api_submit errors E now q (Some rt) =
        (ok_response 202 (run_payload run PNone) [], Some rt')
      \<and> rr_state run = READY \<and> rr_input run = strip (rq_input q) \<and> rr_kind run = rq_pattern q
      \<and> rt_heap rt' (rr_id run) = Some run \<and> qids rt' = qids rt @ [rr_id run]"
proof -
  have i: "rt_inv E rt" using assms(1,2) by (rule reachable_inv)
  show ?thesis
  proof (cases "queue_full (rt_queue rt)")
    case True
    note cl = cleanup_runs_inv [OF runtime_start_inv [OF i], where now = now and reserve = 1]
    have same: "rt_heap (snd (runtime_start E rt)) = rt_heap rt" "rt_queue (snd (runtime_start E rt)) = rt_queue rt"
      by (simp_all add: runtime_start_def Let_def set_gauge_def)
    have "\<exists>rt'. submit E now (rq_input q) (Inr (rq_pattern q)) (rq_session_id q) None rt =
        (Inl (RunQueueFullError (cf_queue_retry_after_seconds (env_config E))), rt')
        \<and> rt_heap rt' = rt_heap rt \<and> rt_queue rt' = rt_queue rt"
      using assms(6) True cl(4,5) same
      by (simp add: submit_eq [OF i assms(3)] Let_def submit_kind_def admit_def rejected_def)
    then show ?thesis
      using True assms(4,5) by (auto simp: api_submit_def queue_full_response)
  next
    case False
    obtain rid rt' run where r: "submit E now (rq_input q) (Inr (rq_pattern q)) (rq_session_id q) None rt = (Inr rid, rt')"
      "rt_heap rt' rid = Some run" "run_state_of rt' = (run_state_of rt)(rid \<mapsto> READY)"
      "rr_input run = strip (rq_input q)" "rr_kind run = rq_pattern q" "qids rt' = qids rt @ [rid]"
      using submit_accepts [OF i assms(2,3,6) False] by blast
    have "reachable E rt'"
      using reachable.step [OF assms(1) rt_step.submit, of now "rq_input q" "Inr (rq_pattern q)" "rq_session_id q" None]
        r(1) by simp
    then have "rr_id run = rid"
      using inv_objects_run_id [OF rt_inv0D(1) [OF rt_invD(1) [OF reachable_inv]] r(2)] assms(2) by blast
    moreover have "rr_state run = READY" using r(2) fun_cong [OF r(3), of rid] by (simp add: run_state_of_def)
    moreover have "api_submit errors E now q (Some rt) = (ok_response 202 (run_payload run PNone) [], Some rt')"
      using assms(4,5) r(1,2) by (simp add: api_submit_def)
    ultimately show ?thesis using False r by auto
  qed
qed

theorem submission_over_http_witness:
  "\<exists>rt' run. api_submit (\<lambda>_. []) small_env 1 \<lparr>rq_input = '' hello '', rq_pattern = REACT, rq_session_id = None,
      rq_key = None\<rparr> (Some small_start) = (ok_response 202 (run_payload run PNone) [], Some rt')
    \<and> rr_input run = ''hello'' \<and> rr_state run = READY"
proof -
  have "\<not> blank '' hello ''" and h: "strip '' hello '' = ''hello''" by code_simp+
  from submission_over_http [OF reachable.init [OF wf_small_bus small_new] small_uuids_ok, of
      "\<lparr>rq_input = '' hello '', rq_pattern = REACT, rq_session_id = None, rq_key = None\<rparr>" "\<lambda>_. []" 1] this(1)
  show ?thesis
    by (fastforce simp: request_valid_def length_in_def small_start_fields queue_full_def h)
qed

end
