(* ===== verification/Runtime_Work.thy ===== *)
theory Runtime_Work
  imports Runtime_Example
begin

section \<open>The work of an execution task\<close>

text \<open>
  How many steps an execution task can still take: a rank on its program point, from the calls that
  its pattern may still make. Every step of the task lowers the rank; no other step of the runtime
  touches the point where the task is.
\<close>

subsection \<open>The steps of one task\<close>

inductive task_step :: "env \<Rightarrow> nat \<Rightarrow> runtime \<Rightarrow> runtime \<Rightarrow> bool" for E tid where
  start: "exec_start E now tid s = Some s' \<Longrightarrow> task_step E tid s s'"
| drive: "exec_drive E now tid s = Some s' \<Longrightarrow> task_step E tid s s'"
| llm: "llm_return E now tid result s = Some s' \<Longrightarrow> task_step E tid s s'"
| tool: "tool_return E now tid answer s = Some s' \<Longrightarrow> task_step E tid s s'"
| finish: "exec_finish E now tid s = Some s' \<Longrightarrow> task_step E tid s s'"
| timeout: "exec_timeout E now tid s = Some s' \<Longrightarrow> task_step E tid s s'"
| cancelled: "exec_cancelled E now tid s = Some s' \<Longrightarrow> task_step E tid s s'"

lemma task_step_rt: "task_step E tid s s' \<Longrightarrow> rt_step E s s'"
  by (cases rule: task_step.cases) (auto intro: rt_step.intros)

text \<open>What a step leaves alone: the tasks keep their runs and their program points.\<close>

definition tasks_kept :: "runtime \<Rightarrow> runtime \<Rightarrow> bool" where
  "tasks_kept s s' \<longleftrightarrow> length (rt_execs s') = length (rt_execs s)
     \<and> (\<forall>j < length (rt_execs s). exec_run s' j = exec_run s j
          \<and> et_pc (rt_execs s' ! j) = et_pc (rt_execs s ! j))"

lemma tasks_kept_same: "rt_execs s' = rt_execs s \<Longrightarrow> tasks_kept s s'"
  by (simp add: tasks_kept_def)

lemma tasks_kept_trans: "tasks_kept s t \<Longrightarrow> tasks_kept t u \<Longrightarrow> tasks_kept s u"
  by (auto simp: tasks_kept_def)

lemma task_cancel_pc [simp]: "et_pc (rt_execs (task_cancel tid s) ! j) = et_pc (rt_execs s ! j)"
  by (cases "j = tid") (simp_all add: task_cancel_execs nth_list_update)

lemma tasks_kept_cancel: "tasks_kept s (task_cancel tid s)"
  by (simp add: tasks_kept_def)

lemma tasks_kept_cancels: "tasks_kept s (fold task_cancel tids s)"
  by (induction tids arbitrary: s)
    (auto intro: tasks_kept_same tasks_kept_trans tasks_kept_cancel)

subsection \<open>Steps of others\<close>

lemma item_done_execs [simp]: "rt_execs (item_done i pc s) = rt_execs s"
  by (simp add: item_done_def split: sum.split)

lemma kept_worker:
  "worker_resume i s = Some s' \<Longrightarrow> tasks_kept s s'"
  "worker_cancelled i s = Some s' \<Longrightarrow> tasks_kept s s'"
  by (auto simp: worker_resume_def worker_cancelled_def tasks_kept_def
      split: if_splits worker_pc.splits exec_pc.splits)

text \<open>A worker that takes an item may create a task, not started, for a run that exists.\<close>

definition new_task :: "runtime \<Rightarrow> runtime \<Rightarrow> bool" where
  "new_task s s' \<longleftrightarrow> (\<exists>x. rt_execs s' = rt_execs s @ [x] \<and> et_pc x = Not_started
     \<and> rt_heap s' (et_run x) \<noteq> None)"

lemma worker_pick_tasks:
  assumes "worker_pick i s = Some s'" and "rt_inv E s"
  shows "tasks_kept s s' \<or> new_task s s'"
proof -
  have heap: "rt_heap (item_done i pc t) = rt_heap t" "rt_heap (set_worker i pc t) = rt_heap t" for pc t
    by (simp_all add: item_done_def set_worker_def split: sum.split)
  have id: "rt_heap s rid = Some r \<Longrightarrow> rt_heap s (rr_id r) = Some r" for rid r
    using inv_objects_run_id [OF rt_inv0D(1) [OF rt_invD(1) [OF assms(2)]]] by blast
  show ?thesis
    using assms(1)
    by (auto simp: worker_pick_def Let_def new_task_def heap runs_get_def
        intro!: tasks_kept_same split: if_splits option.splits prod.splits dest: id)
qed

lemma execs_completion: "completion_put rid b s = Inr s' \<Longrightarrow> rt_execs s' = rt_execs s"
  by (auto simp: completion_put_def split: option.splits)

lemma execs_enqueue: "enqueue now rid s = (r, s') \<Longrightarrow> rt_execs s' = rt_execs s"
  by (auto simp: enqueue_def split: sum.splits)

lemma kept_retry: "tasks_kept s (snd (retry E now rid s))"
  by (rule tasks_kept_same)
    (auto simp: retry_def rejected_def Let_def fsm_transition_eq
      split: sum.split prod.split dest!: execs_completion execs_enqueue)

lemma kept_cancel: "tasks_kept s (snd (cancel E now rid s))"
  by (auto simp: cancel_def Let_def fsm_if_allowed_eq tasks_kept_def
      split: sum.split option.split dest!: execs_completion)

lemma kept_close: "tasks_kept s (snd (close_begin E now s))"
proof -
  have r: "rt_execs (snd (close_runs E now rids t)) = rt_execs t" for rids t
    by (induction rids arbitrary: t)
      (auto simp: fsm_if_allowed_eq dest!: execs_completion split: option.split sum.split)
  obtain res t where t: "close_runs E now (rt_runs s) (s\<lparr>rt_closed := True\<rparr>) = (res, t)" by fastforce
  have "tasks_kept s t" using r [of "rt_runs s" "s\<lparr>rt_closed := True\<rparr>"] t by (simp add: tasks_kept_same)
  moreover have "tasks_kept u (v\<lparr>rt_workers := ws, rt_gathered := g\<rparr>)" if "tasks_kept u v" for u v ws g
    using that by (simp add: tasks_kept_def)
  moreover have "tasks_kept s (fold task_cancel tids t)" for tids
    using calculation(1) tasks_kept_cancels by (rule tasks_kept_trans)
  ultimately show ?thesis
    using t by (simp add: close_begin_def Let_def tasks_kept_same split: sum.split)
qed

lemma execs_evicts: "rt_execs (fold evict rids s) = rt_execs s"
  by (induction rids arbitrary: s) simp_all

lemma kept_submit: "tasks_kept s (snd (submit E now text kd ss key s))"
proof (rule tasks_kept_same)
  have a: "admit E now i k ss ky t = (x, u) \<Longrightarrow> rt_execs u = rt_execs t" for i k ky t x u
    by (auto simp: admit_def rejected_def Let_def fsm_transition_eq
        split: sum.splits prod.splits option.splits if_splits dest!: execs_enqueue)
  have r: "idem_replay i k ss ky t = (x, u) \<Longrightarrow> rt_execs u = rt_execs t" for i k ky t x u
    by (auto simp: idem_replay_def split: option.splits if_splits)
  have st: "runtime_start E s = (x, u) \<Longrightarrow> rt_execs u = rt_execs s" for x u
    by (auto simp: runtime_start_def Let_def split: if_splits)
  obtain x u where u: "submit E now text kd ss key s = (x, u)" by fastforce
  then have "rt_execs u = rt_execs s"
    by (simp add: submit_def Let_def cleanup_runs_def split: sum.splits prod.splits option.splits if_splits)
      (auto simp: execs_evicts dest!: st r a)
  then show "rt_execs (snd (submit E now text kd ss key s)) = rt_execs s" using u by simp
qed

subsection \<open>Its own steps\<close>

text \<open>The task \<open>tid\<close> is at a new point, and nothing else about the tasks has changed.\<close>

definition task_at :: "nat \<Rightarrow> exec_pc \<Rightarrow> runtime \<Rightarrow> runtime \<Rightarrow> bool" where
  "task_at tid pc s s' \<longleftrightarrow> (\<exists>b. rt_execs s' =
     (rt_execs s)[tid := (rt_execs s ! tid)\<lparr>et_pc := pc, et_began := b\<rparr>])"

lemma task_at_execs: "task_at tid pc t u \<Longrightarrow> rt_execs t = rt_execs s \<Longrightarrow> task_at tid pc s u"
  by (simp add: task_at_def)

lemma task_at_set: "rt_execs t = rt_execs s \<Longrightarrow> task_at tid pc s (set_exec tid pc t)"
  by (auto simp: task_at_def intro: exI [of _ "et_began (rt_execs s ! tid)"])

lemma task_at_finally:
  "rt_execs t = rt_execs s \<Longrightarrow> \<exists>r. task_at tid (Exec_done r) s (exec_finally tid t)"
  by (auto simp: exec_finally_def Let_def split: sum.split dest!: execs_completion
      intro!: exI task_at_set)

lemma task_at_fail:
  assumes "rt_execs t = rt_execs s"
  shows "\<exists>r. task_at tid (Exec_done r) s (exec_fail E now tid e t)"
  using assms by (auto simp: exec_fail_def Let_def fsm_if_allowed_eq intro!: task_at_finally)

lemma task_at_success:
  assumes "rt_heap s (exec_run s tid) \<noteq> None"
  shows "\<exists>r. task_at tid (Exec_done r) s (exec_success E now tid output s)"
proof -
  have c: "can_transition RUNNING SUCCEEDED" by (simp add: legal_simps)
  show ?thesis
    using assms unfolding exec_success_def Let_def fsm_if_current_eq [OF c]
    by (auto intro!: task_at_finally task_at_fail split: option.split prod.split sum.split)
qed

lemma task_at_resume:
  "\<exists>pc. task_at tid pc s (exec_resume E now tid next s)
     \<and> ((\<exists>r. pc = Pattern_done r) \<or> (\<exists>c. pc = Driving c \<and> next = Inr c))"
  by (cases "next")
    (force simp: exec_resume_def Let_def back_to_running_def fsm_if_current_eq legal_simps
      intro!: exI task_at_set)+

lemma task_at_interrupt:
  assumes "interrupt E now tid e s = Some s'"
  shows "\<exists>r. task_at tid (Exec_done r) s s'"
  using assms
  by (auto simp: interrupt_def back_to_running_def fsm_if_current_eq legal_simps
      intro!: task_at_fail split: option.splits exec_pc.splits)

subsection \<open>The rank\<close>

text \<open>The calls a run of a kind may make, and how many steps a task may take from a point.\<close>

definition call_budget :: "env \<Rightarrow> agent_kind \<Rightarrow> nat" where
  "call_budget E kind =
     (let m = nat (cf_max_agent_steps (env_config E)) in llm_budget kind m + tool_budget kind m)"

fun ends_within :: "nat \<Rightarrow> nat \<Rightarrow> exec_pc \<Rightarrow> bool" where
  "ends_within B n Not_started = (2 * B + 2 < n)"
| "ends_within B n (Driving c) = (\<exists>L T. within_calls L T c \<and> 2 * (L + T) + 2 \<le> n)"
| "ends_within B n (At_llm st k began) =
     (\<exists>L T. (\<forall>r. within_calls L T (k r)) \<and> 2 * (L + T) + 3 \<le> n)"
| "ends_within B n (At_tool name k began) =
     (\<exists>L T. (\<forall>r. within_calls L T (k r)) \<and> 2 * (L + T) + 3 \<le> n)"
| "ends_within B n (Pattern_done r) = (0 < n)"
| "ends_within B n (Exec_done r) = True"

lemma task_step_start:
  assumes "exec_start E now tid s = Some s'" and "rt_heap s (exec_run s tid) = Some r"
  shows "et_pc (rt_execs s ! tid) = Not_started \<and> ((\<exists>res. task_at tid (Exec_done res) s s')
    \<or> (\<exists>ctx c. task_at tid (Driving c) s s' \<and> c = pattern_run (env_codec E) (rr_kind r) ctx
         \<and> ctx_max_steps ctx = nat (cf_max_agent_steps (env_config E))))"
proof -
  have tid: "tid < length (rt_execs s)" "et_pc (rt_execs s ! tid) = Not_started"
    using assms(1) by (auto simp: exec_start_def exec_at_def split: if_splits)
  let ?rid = "exec_run s tid" and ?t = "set_gauge ''runtime_concurrency_limit''
    (of_int (cf_max_concurrency (env_config E))) (incr ''runs_active'' 1 s)"
  let ?u = "fsm_effect E now ?rid RUNNING ''worker acquired'' True ?t"
  obtain r' where r': "rt_heap ?u ?rid = Some r'" "rr_kind r' = rr_kind r"
    using assms(2) by (auto simp: fsm_effect_heap)
  show ?thesis
  proof (cases "run_state_of s ?rid \<noteq> Some CANCELLED \<and> may_move s ?rid RUNNING")
    case True
    then have "rt_execs s' = (rt_execs s)[tid := (rt_execs s ! tid)\<lparr>et_pc :=
        Driving (pattern_run (env_codec E) (rr_kind r') (exec_context E r' ?u)), et_began := now\<rparr>]"
      using assms r'(1) tid
      by (simp add: exec_start_def Let_def fsm_transition_eq may_move_def run_state_of_def split: if_splits) auto
    then have "task_at tid (Driving (pattern_run (env_codec E) (rr_kind r) (exec_context E r' ?u))) s s'"
      using r'(2) by (auto simp: task_at_def)
    then show ?thesis using tid by (auto simp: exec_context_def)
  next
    case False
    then have "\<exists>res. task_at tid (Exec_done res) s s'"
      using assms
      by (cases "rr_state r = CANCELLED")
        (auto simp: exec_start_def Let_def fsm_transition_eq may_move_def run_state_of_def split: if_splits
          intro!: task_at_finally task_at_fail)
    then show ?thesis using tid by blast
  qed
qed

text \<open>The control flow of a task, with the coroutines it may start with.\<close>

inductive pc_step :: "(string coro \<Rightarrow> bool) \<Rightarrow> exec_pc \<Rightarrow> exec_pc \<Rightarrow> bool" for P where
  start: "P c \<Longrightarrow> pc_step P Not_started (Driving c)"
| ask_llm: "pc_step P (Driving (Complete req st k)) (At_llm st k began)"
| ask_tool: "pc_step P (Driving (Execute_tool name args st k)) (At_tool name k began)"
| leave: "pc_step P (Driving c) (Pattern_done res)"
| llm_answer: "pc_step P (At_llm st k began) (Driving (k response))"
| llm_error: "pc_step P (At_llm st k began) (Pattern_done res)"
| tool_answer: "pc_step P (At_tool name k began) (Driving (k observation))"
| tool_error: "pc_step P (At_tool name k began) (Pattern_done res)"
| ending: "\<forall>r. pc \<noteq> Exec_done r \<Longrightarrow> pc_step P pc (Exec_done result)"

definition moves :: "(string coro \<Rightarrow> bool) \<Rightarrow> nat \<Rightarrow> runtime \<Rightarrow> runtime \<Rightarrow> bool" where
  "moves P tid s s' \<longleftrightarrow> tid < length (rt_execs s)
     \<and> (\<exists>pc. task_at tid pc s s' \<and> pc_step P (et_pc (rt_execs s ! tid)) pc)"

lemma moves_set:
  "exec_at s tid = Some pc \<Longrightarrow> rt_execs t = rt_execs s \<Longrightarrow> pc_step P pc pc' \<Longrightarrow> moves P tid s (set_exec tid pc' t)"
  by (auto simp: moves_def exec_at_def split: if_splits intro: task_at_set)

lemma moves_end:
  "exec_at s tid = Some pc \<Longrightarrow> \<forall>r. pc \<noteq> Exec_done r \<Longrightarrow> \<exists>r. task_at tid (Exec_done r) s s' \<Longrightarrow> moves P tid s s'"
  by (auto simp: moves_def exec_at_def split: if_splits intro: pc_step.ending)

lemma moves_drive: "exec_drive E now tid s = Some s' \<Longrightarrow> moves P tid s s'"
  by (auto simp: exec_drive_defs Let_def fsm_transition_eq
      split: option.splits exec_pc.splits coro.splits sum.splits
      intro!: moves_set intro: pc_step.intros)

lemma moves_resume:
  assumes "exec_at s tid = Some pc" and "rt_execs t = rt_execs s"
    and "\<And>r. pc_step P pc (Pattern_done r)" and "\<And>c. next = Inr c \<Longrightarrow> pc_step P pc (Driving c)"
  shows "moves P tid s (exec_resume E now tid next t)"
  using assms
  by (cases "next")
    (auto simp: exec_resume_def Let_def back_to_running_def fsm_if_current_eq legal_simps
      intro!: moves_set [OF assms(1)])

lemma moves_return:
  "llm_return E now tid result s = Some s' \<Longrightarrow> moves P tid s s'"
  "tool_return E now tid answer s = Some s' \<Longrightarrow> moves P tid s s'"
  by (auto simp: llm_return_def tool_return_def split: option.splits exec_pc.splits sum.splits
      elim!: moves_resume intro: pc_step.intros)

lemma moves_finish:
  assumes "exec_finish E now tid s = Some s'" and "rt_heap s (exec_run s tid) \<noteq> None"
  shows "moves P tid s s'"
  using assms
  by (auto simp: exec_finish_def split: option.splits exec_pc.splits sum.splits
      intro!: moves_end task_at_fail task_at_success)

lemma moves_interrupt: "interrupt E now tid e s = Some s' \<Longrightarrow> moves P tid s s'"
  using task_at_interrupt [of E now tid e s s']
  by (auto simp: interrupt_def split: option.splits exec_pc.splits intro!: moves_end)

lemma moves_cancelled: "exec_cancelled E now tid s = Some s' \<Longrightarrow> moves P tid s s'"
  by (auto simp: exec_cancelled_def exec_at_def split: if_splits
      intro!: moves_set pc_step.ending dest: moves_interrupt)

text \<open>The patterns a task of a run of this kind can start with.\<close>

definition starts_as :: "env \<Rightarrow> agent_kind \<Rightarrow> string coro \<Rightarrow> bool" where
  "starts_as E kind c \<longleftrightarrow> (\<exists>ctx. c = pattern_run (env_codec E) kind ctx
     \<and> ctx_max_steps ctx = nat (cf_max_agent_steps (env_config E)))"

lemma moves_start:
  assumes "exec_start E now tid s = Some s'" and "rt_heap s (exec_run s tid) = Some r"
  shows "moves (starts_as E (rr_kind r)) tid s s'"
proof -
  have l: "tid < length (rt_execs s)" using assms(1) by (auto simp: exec_start_def exec_at_def split: if_splits)
  have "pc_step (starts_as E (rr_kind r)) Not_started (Driving c)"
    if "c = pattern_run (env_codec E) (rr_kind r) ctx" "ctx_max_steps ctx = nat (cf_max_agent_steps (env_config E))" for c ctx
    using that by (intro pc_step.start) (auto simp: starts_as_def)
  moreover have "pc_step P Not_started (Exec_done res)" for P res by (rule pc_step.ending) simp
  ultimately show ?thesis
    using task_step_start [OF assms] l unfolding moves_def by metis
qed

lemma task_step_moves:
  assumes "task_step E tid s s'" and r: "rt_heap s (exec_run s tid) = Some r"
  shows "moves (starts_as E (rr_kind r)) tid s s'"
  using assms(1)
proof cases
  case (start now)
  then show ?thesis using r by (rule moves_start)
next
  case (finish now)
  then show ?thesis using r by (simp add: moves_finish)
next
  case (timeout now)
  then show ?thesis by (simp add: exec_timeout_def moves_interrupt)
qed (auto dest: moves_drive moves_return moves_cancelled)

subsection \<open>Every step of a task lowers its rank\<close>

lemma pc_step_rank:
  assumes "pc_step P pc pc'" and "ends_within B n pc"
    and "\<And>c. P c \<Longrightarrow> \<exists>L T. within_calls L T c \<and> L + T \<le> B"
  shows "\<exists>m < n. ends_within B m pc'"
  using assms(1)
proof cases
  case (start c)
  then obtain L T where "within_calls L T c" "L + T \<le> B" using assms(3) by blast
  then have "ends_within B (2 * B + 2) pc'" using start by fastforce
  then show ?thesis using start assms(2) by (intro exI [of _ "2 * B + 2"]) simp
next
  case (ask_llm req st k began)
  then obtain L T where "0 < L" "\<forall>r. within_calls (L - 1) T (k r)" "2 * (L + T) + 2 \<le> n"
    using assms(2) by auto
  then have "(\<forall>r. within_calls (L - 1) T (k r)) \<and> 2 * (L - 1 + T) + 3 \<le> n - 1 \<and> n - 1 < n" by auto
  then show ?thesis unfolding ask_llm ends_within.simps by blast
next
  case (ask_tool name args st k began)
  then obtain L T where "0 < T" "\<forall>r. within_calls L (T - 1) (k r)" "2 * (L + T) + 2 \<le> n"
    using assms(2) by auto
  then have "(\<forall>r. within_calls L (T - 1) (k r)) \<and> 2 * (L + (T - 1)) + 3 \<le> n - 1 \<and> n - 1 < n" by auto
  then show ?thesis unfolding ask_tool ends_within.simps by blast
next
  case (leave c res)
  then show ?thesis using assms(2) by (intro exI [of _ 1]) auto
next
  case (llm_answer st k began response)
  then show ?thesis using assms(2) by (intro exI [of _ "n - 1"]) fastforce
next
  case (llm_error st k began res)
  then show ?thesis using assms(2) by (intro exI [of _ 1]) auto
next
  case (tool_answer name k began observation)
  then show ?thesis using assms(2) by (intro exI [of _ "n - 1"]) fastforce
next
  case (tool_error name k began res)
  then show ?thesis using assms(2) by (intro exI [of _ 1]) auto
next
  case (ending result)
  then have "0 < n" using assms(2) by (cases pc) auto
  then show ?thesis using ending by auto
qed

text \<open>A sequence of steps of the runtime, with the number of steps of task \<open>tid\<close> in it.\<close>

inductive run_steps :: "env \<Rightarrow> nat \<Rightarrow> runtime \<Rightarrow> nat \<Rightarrow> runtime \<Rightarrow> bool" for E tid s where
  none: "run_steps E tid s 0 s"
| own: "run_steps E tid s n t \<Longrightarrow> task_step E tid t u \<Longrightarrow> run_steps E tid s (Suc n) u"
| other: "run_steps E tid s n t \<Longrightarrow> rt_step E t u \<Longrightarrow> run_steps E tid s n u"

lemma run_steps_reachable: "run_steps E tid s n t \<Longrightarrow> reachable E s \<Longrightarrow> reachable E t"
  by (induction rule: run_steps.induct) (auto intro: reachable.step task_step_rt)

text \<open>Every task of a reachable state is within the budget of its run's kind.\<close>

definition within_budget :: "env \<Rightarrow> nat \<Rightarrow> nat \<Rightarrow> runtime \<Rightarrow> bool" where
  "within_budget E tid n s \<longleftrightarrow> (\<exists>r. rt_heap s (exec_run s tid) = Some r
     \<and> ends_within (call_budget E (rr_kind r)) n (et_pc (rt_execs s ! tid)))"

lemma starts_as_within:
  "starts_as E kind c \<Longrightarrow> \<exists>L T. within_calls L T c \<and> L + T \<le> call_budget E kind"
  using within_pattern [of kind _ "env_codec E"] by (fastforce simp: starts_as_def call_budget_def Let_def)

lemma kind_kept:
  assumes "rt_step E s s'" and "rt_inv E s" and "uuids_ok E" and "rt_heap s rid = Some r"
  shows "\<exists>r'. rt_heap s' rid = Some r' \<and> rr_kind r' = rr_kind r"
  using step_extends [OF assms(1-3)] assms(4) by (auto simp: extends_def grows_def)

lemma own_step_budget:
  assumes "task_step E tid s s'" and "rt_inv E s" and "uuids_ok E" and "within_budget E tid n s"
  shows "\<exists>m < n. within_budget E tid m s'"
proof -
  obtain r where r: "rt_heap s (exec_run s tid) = Some r"
    "ends_within (call_budget E (rr_kind r)) n (et_pc (rt_execs s ! tid))"
    using assms(4) by (auto simp: within_budget_def)
  obtain pc where pc: "tid < length (rt_execs s)" "task_at tid pc s s'"
    "pc_step (starts_as E (rr_kind r)) (et_pc (rt_execs s ! tid)) pc"
    using task_step_moves [OF assms(1) r(1)] by (auto simp: moves_def)
  obtain m where m: "m < n" "ends_within (call_budget E (rr_kind r)) m pc"
    using pc_step_rank [OF pc(3) r(2) starts_as_within] by blast
  have "et_pc (rt_execs s' ! tid) = pc" "exec_run s' tid = exec_run s tid"
    using pc(1,2) by (auto simp: task_at_def)
  then show ?thesis
    using m kind_kept [OF task_step_rt [OF assms(1)] assms(2,3) r(1)] by (auto simp: within_budget_def)
qed

text \<open>A step of the runtime is one of a task, or it leaves every task where it is.\<close>

lemma rt_step_tasks:
  assumes "rt_step E s s'" and "rt_inv E s"
  shows "tasks_kept s s' \<or> new_task s s' \<or> (\<exists>tid. task_step E tid s s')"
  using assms(1)
proof cases
  case start
  then show ?thesis by (auto simp: runtime_start_def Let_def intro!: tasks_kept_same)
next
  case (close_end)
  then show ?thesis by (auto simp: close_end_def intro!: tasks_kept_same split: if_splits)
next
  case (worker_pick i)
  then show ?thesis using worker_pick_tasks [OF _ assms(2)] by blast
qed (auto intro: task_step.intros kept_submit kept_cancel kept_retry kept_close kept_worker tasks_kept_same)

lemma task_step_length: "task_step E tid s s' \<Longrightarrow> tid < length (rt_execs s)"
  by (cases rule: task_step.cases)
    (auto simp: exec_start_def exec_drive_defs llm_return_def tool_return_def exec_finish_def exec_timeout_def
      interrupt_def exec_cancelled_def exec_at_def split: if_splits)

lemma task_step_others:
  assumes "task_step E j s s'" and "rt_heap s (exec_run s j) \<noteq> None" and "j \<noteq> tid"
  shows "rt_execs s' ! tid = rt_execs s ! tid"
proof -
  obtain r where "rt_heap s (exec_run s j) = Some r" using assms(2) by blast
  from task_step_moves [OF assms(1) this] show ?thesis using assms(3) by (auto simp: moves_def task_at_def)
qed

lemma step_budget:
  assumes "rt_step E s s'" and "rt_inv E s" and "uuids_ok E" and "within_budget E tid n s"
    and "tid < length (rt_execs s)" and runs: "\<forall>j < length (rt_execs s). rt_heap s (exec_run s j) \<noteq> None"
  shows "\<exists>m \<le> n. within_budget E tid m s'"
proof -
  obtain r where r: "rt_heap s (exec_run s tid) = Some r"
    "ends_within (call_budget E (rr_kind r)) n (et_pc (rt_execs s ! tid))"
    using assms(4) by (auto simp: within_budget_def)
  have kept: "\<exists>m \<le> n. within_budget E tid m s'"
    if "et_pc (rt_execs s' ! tid) = et_pc (rt_execs s ! tid)" "exec_run s' tid = exec_run s tid"
    using kind_kept [OF assms(1-3) r(1)] r(2) that by (auto simp: within_budget_def)
  from rt_step_tasks [OF assms(1,2)] consider
    "tasks_kept s s'" | "new_task s s'" | "task_step E tid s s'" | j where "task_step E j s s'" "j \<noteq> tid" by blast
  then show ?thesis
  proof cases
    case 1
    then show ?thesis using assms(5) by (intro kept) (auto simp: tasks_kept_def)
  next
    case 2
    then show ?thesis using assms(5) by (intro kept) (auto simp: new_task_def nth_append)
  next
    case 3
    then show ?thesis using own_step_budget [OF _ assms(2-4)] by (auto intro: less_imp_le)
  next
    case 4
    then have "rt_execs s' ! tid = rt_execs s ! tid"
      using runs task_step_length [OF 4(1)] by (intro task_step_others) auto
    then show ?thesis by (intro kept) simp_all
  qed
qed

lemma step_shape:
  assumes "rt_step E s s'" and "rt_inv E s" and runs: "\<forall>j < length (rt_execs s). rt_heap s (exec_run s j) \<noteq> None"
  shows "new_task s s' \<or> length (rt_execs s') = length (rt_execs s)"
    and "j < length (rt_execs s) \<Longrightarrow> exec_run s' j = exec_run s j"
proof -
  have own: "length (rt_execs s') = length (rt_execs s) \<and> (j < length (rt_execs s) \<longrightarrow> exec_run s' j = exec_run s j)"
    if t: "task_step E tid s s'" for tid
  proof -
    obtain r where r: "rt_heap s (exec_run s tid) = Some r" using runs task_step_length [OF t] by blast
    from task_step_moves [OF t r] show ?thesis
      by (cases "j = tid") (auto simp: moves_def task_at_def)
  qed
  show "new_task s s' \<or> length (rt_execs s') = length (rt_execs s)"
    using rt_step_tasks [OF assms(1,2)] own by (auto simp: tasks_kept_def)
  show "j < length (rt_execs s) \<Longrightarrow> exec_run s' j = exec_run s j"
    using rt_step_tasks [OF assms(1,2)] own by (auto simp: tasks_kept_def new_task_def nth_append)
qed

lemma ends_within_mono: "ends_within B m pc \<Longrightarrow> m \<le> n \<Longrightarrow> ends_within B n pc"
  by (cases pc) force+

lemma within_budget_mono: "within_budget E tid m s \<Longrightarrow> m \<le> n \<Longrightarrow> within_budget E tid n s"
  by (auto simp: within_budget_def intro: ends_within_mono)

text \<open>All the steps a task of a kind can take.\<close>

definition task_bound :: "env \<Rightarrow> runtime \<Rightarrow> nat \<Rightarrow> nat" where
  "task_bound E s tid = 2 * call_budget E (rr_kind (the (rt_heap s (exec_run s tid)))) + 3"

lemma reachable_budget:
  assumes "reachable E s" and "uuids_ok E" and "tid < length (rt_execs s)"
  shows "within_budget E tid (task_bound E s tid) s"
  using assms(1,3)
proof (induction arbitrary: tid rule: reachable.induct)
  case (init b s)
  then show ?case by (auto simp: runtime_new_def split: sum.splits)
next
  case (step s s')
  have inv: "rt_inv E s" using step.hyps(1) assms(2) by (rule reachable_inv)
  have old: "within_budget E j (task_bound E s j) s" if "j < length (rt_execs s)" for j
    using step.IH that .
  then have runs: "\<forall>j < length (rt_execs s). rt_heap s (exec_run s j) \<noteq> None"
    by (fastforce simp: within_budget_def)
  show ?case
  proof (cases "tid < length (rt_execs s)")
    case True
    have run: "exec_run s' tid = exec_run s tid" using step_shape(2) [OF step.hyps(2) inv runs True] .
    obtain r r' where r: "rt_heap s (exec_run s tid) = Some r" "rt_heap s' (exec_run s tid) = Some r'"
      "rr_kind r' = rr_kind r"
      using runs True kind_kept [OF step.hyps(2) inv assms(2)] by blast
    then have "task_bound E s' tid = task_bound E s tid" by (simp add: task_bound_def run)
    then show ?thesis
      using step_budget [OF step.hyps(2) inv assms(2) old [OF True] True runs] by (auto intro: within_budget_mono)
  next
    case False
    then have "new_task s s'" using step_shape(1) [OF step.hyps(2) inv runs] step.prems by auto
    then show ?thesis
      using False step.prems
      by (auto simp: new_task_def within_budget_def task_bound_def nth_append)
  qed
qed

end
