(* ===== verification/Runtime_Progress.thy ===== *)
theory Runtime_Progress
  imports Runtime_Work Runtime_Properties
begin

section \<open>Progress of the runtime\<close>

text \<open>
  No execution task runs for ever and none gets stuck; and once the clients stop calling, the
  runtime itself comes to rest after a bounded number of steps, with every run finished unless all
  of its workers have been lost.
\<close>

subsection \<open>A task ends\<close>

lemma run_steps_budget:
  assumes "run_steps E tid s n t" and "reachable E s" and "uuids_ok E"
    and "tid < length (rt_execs s)" and "within_budget E tid N s"
  shows "tid < length (rt_execs t) \<and> (\<exists>m. m + n \<le> N \<and> within_budget E tid m t)"
  using assms(1)
proof induction
  case none
  then show ?case using assms(4,5) by auto
next
  case (own n t u)
  obtain m where m: "m + n \<le> N" "within_budget E tid m t" "tid < length (rt_execs t)" using own.IH by blast
  have inv: "rt_inv E t" using run_steps_reachable [OF own.hyps(1) assms(2)] assms(3) by (rule reachable_inv)
  obtain k where k: "k < m" "within_budget E tid k u"
    using own_step_budget [OF own.hyps(2) inv assms(3) m(2)] by blast
  obtain r where "rt_heap t (exec_run t tid) = Some r" using m(2) by (auto simp: within_budget_def)
  from task_step_moves [OF own.hyps(2) this] have "tid < length (rt_execs u)"
    by (auto simp: moves_def task_at_def)
  then show ?case using m(1) k by (intro conjI exI [of _ k]) auto
next
  case (other n t u)
  obtain m where m: "m + n \<le> N" "within_budget E tid m t" "tid < length (rt_execs t)" using other.IH by blast
  have r: "reachable E t" using other.hyps(1) assms(2) by (rule run_steps_reachable)
  have inv: "rt_inv E t" using r assms(3) by (rule reachable_inv)
  have runs: "\<forall>j < length (rt_execs t). rt_heap t (exec_run t j) \<noteq> None"
    using reachable_budget [OF r assms(3)] by (fastforce simp: within_budget_def)
  obtain k where k: "k \<le> m" "within_budget E tid k u"
    using step_budget [OF other.hyps(2) inv assms(3) m(2,3) runs] by blast
  have "length (rt_execs t) \<le> length (rt_execs u)"
    using step_shape(1) [OF other.hyps(2) inv runs] by (auto simp: new_task_def)
  then show ?case using m(1,3) k by (intro conjI exI [of _ k]) auto
qed

lemma task_enabled:
  assumes "live (rt_execs s) tid" and "rt_heap s (exec_run s tid) \<noteq> None"
  shows "\<exists>s'. task_step E tid s s'"
proof -
  have tid: "tid < length (rt_execs s)" "\<forall>r. et_pc (rt_execs s ! tid) \<noteq> Exec_done r"
    using assms(1) by (auto simp: live_def exec_live_def)
  obtain r where r: "rt_heap s (exec_run s tid) = Some r" using assms(2) by blast
  show ?thesis
  proof (cases "et_pc (rt_execs s ! tid)")
    case Not_started
    show ?thesis
    proof (cases "et_cancel (rt_execs s ! tid)")
      case True
      then have "exec_cancelled E 0 tid s = Some (set_exec tid (Exec_done Cancelled_task) s)"
        using tid Not_started by (simp add: exec_cancelled_def)
      then show ?thesis by (blast intro: task_step.cancelled)
    next
      case False
      then have "exec_start E 0 tid s \<noteq> None"
        using tid Not_started r
        by (auto simp: exec_start_def exec_at_def Let_def fsm_transition_eq fsm_effect_heap split: sum.split)
      then show ?thesis by (blast intro: task_step.start)
    qed
  next
    case (Driving c)
    then have "exec_drive E 0 tid s \<noteq> None"
      using tid by (auto simp: exec_drive_defs exec_at_def Let_def split: coro.split prod.split sum.split)
    then show ?thesis by (blast intro: task_step.drive)
  next
    case (At_llm st k began)
    then have "llm_return E 0 tid (Inl CancelledError) s \<noteq> None" using tid by (simp add: llm_return_def exec_at_def)
    then show ?thesis by (blast intro: task_step.llm)
  next
    case (At_tool name k began)
    then have "tool_return E 0 tid (Inl CancelledError) s \<noteq> None" using tid by (simp add: tool_return_def exec_at_def)
    then show ?thesis by (blast intro: task_step.tool)
  next
    case (Pattern_done res)
    then have "exec_finish E 0 tid s \<noteq> None" using tid by (auto simp: exec_finish_def exec_at_def split: sum.split)
    then show ?thesis by (blast intro: task_step.finish)
  qed (use tid in blast)
qed

text \<open>C11: whatever the model and the tools answer and whatever else happens in between, a task takes at
  most two steps for each call that its pattern may make and three more; and as long as it is not
  done it can take one. So every execution that is scheduled ends.\<close>

theorem execution_terminates:
  assumes "reachable E s" and "uuids_ok E" and "tid < length (rt_execs s)"
    and "rt_heap s (exec_run s tid) = Some r" and "run_steps E tid s n t"
  shows "n \<le> 2 * call_budget E (rr_kind r) + 3
    \<and> (live (rt_execs t) tid \<longrightarrow> (\<exists>u. task_step E tid t u))
    \<and> (n = 2 * call_budget E (rr_kind r) + 3 \<longrightarrow> \<not> live (rt_execs t) tid)"
proof -
  let ?N = "2 * call_budget E (rr_kind r) + 3"
  have N: "task_bound E s tid = ?N" by (simp add: task_bound_def assms(4))
  obtain m where m: "m + n \<le> ?N" "within_budget E tid m t"
    using run_steps_budget [OF assms(5,1,2,3) reachable_budget [OF assms(1,2,3)]] unfolding N by blast
  obtain q where q: "rt_heap t (exec_run t tid) = Some q" "ends_within (call_budget E (rr_kind q)) m (et_pc (rt_execs t ! tid))"
    using m(2) by (auto simp: within_budget_def)
  have "\<not> live (rt_execs t) tid" if "n = ?N"
  proof -
    have "ends_within (call_budget E (rr_kind q)) 0 (et_pc (rt_execs t ! tid))" using q(2) m(1) that by simp
    then show ?thesis by (cases "et_pc (rt_execs t ! tid)") (auto simp: live_def exec_live_def)
  qed
  then show ?thesis using m(1) q(1) task_enabled [of t tid E] by auto
qed

theorem execution_terminates_witness:
  "\<exists>s u. reachable small_env s \<and> live (rt_execs s) 0 \<and> 0 < 2 * call_budget small_env SIMPLE + 3
     \<and> task_step small_env 0 s u"
proof -
  obtain s where s: "demo_at Not_started READY s" using ex_demo_picked by blast
  then obtain r where r: "reachable small_env s" "rt_heap s demo_run = Some r" "rr_kind r = SIMPLE"
    by (auto simp: demo_at_def)
  have l: "0 < length (rt_execs s)" "exec_run s 0 = demo_run" "live (rt_execs s) 0"
    using s by (auto simp: demo_at_def live_def exec_live_def)
  show ?thesis
    using execution_terminates [OF r(1) small_uuids_ok l(1) _ run_steps.none] r l by auto
qed

subsection \<open>The runtime comes to rest\<close>

text \<open>A step that nobody outside asks for: of a task (with whatever answer, time-out or cancellation it
  meets) or of a worker.\<close>

inductive internal_step :: "env \<Rightarrow> runtime \<Rightarrow> runtime \<Rightarrow> bool" for E where
  task: "task_step E tid s s' \<Longrightarrow> internal_step E s s'"
| pick: "worker_pick i s = Some s' \<Longrightarrow> internal_step E s s'"
| resume: "worker_resume i s = Some s' \<Longrightarrow> internal_step E s s'"
| stop: "worker_cancelled i s = Some s' \<Longrightarrow> internal_step E s s'"

inductive internal_steps :: "env \<Rightarrow> runtime \<Rightarrow> nat \<Rightarrow> runtime \<Rightarrow> bool" for E s where
  zero: "internal_steps E s 0 s"
| more: "internal_steps E s n t \<Longrightarrow> internal_step E t u \<Longrightarrow> internal_steps E s (Suc n) u"

lemma internal_step_rt: "internal_step E s s' \<Longrightarrow> rt_step E s s'"
  by (cases rule: internal_step.cases) (auto intro: task_step_rt rt_step.intros)

lemma internal_steps_reachable: "internal_steps E s n t \<Longrightarrow> reachable E s \<Longrightarrow> reachable E t"
  by (induction rule: internal_steps.induct) (auto intro: reachable.step internal_step_rt)

text \<open>A bound on the calls of every kind of run, and the steps left in a state: of its tasks, of the
  items in the queue and of the workers.\<close>

definition top_budget :: "env \<Rightarrow> nat" where
  "top_budget E = 2 * nat (cf_max_agent_steps (env_config E)) + 3"

definition rank :: "env \<Rightarrow> exec_pc \<Rightarrow> nat" where
  "rank E pc = (LEAST n. ends_within (top_budget E) n pc)"

fun weight :: "worker_pc \<Rightarrow> nat" where
  "weight W_idle = 1"
| "weight (W_busy rid tid) = 2"
| "weight W_dead = 0"

definition potential :: "env \<Rightarrow> runtime \<Rightarrow> nat" where
  "potential E s = sum_list (map (\<lambda>x. rank E (et_pc x)) (rt_execs s))
     + (2 * top_budget E + 5) * length (tq_items (rt_queue s))
     + sum_list (map (\<lambda>w. weight (wk_pc w)) (rt_workers s))"

lemma call_budget_top: "call_budget E kind \<le> top_budget E"
  by (cases kind) (simp_all add: call_budget_def top_budget_def Let_def)

lemma ends_within_top: "ends_within B n pc \<Longrightarrow> B \<le> C \<Longrightarrow> ends_within C (n + 2 * (C - B)) pc"
  by (cases pc) force+

lemma rank_le: "ends_within (top_budget E) n pc \<Longrightarrow> rank E pc \<le> n"
  unfolding rank_def by (rule Least_le)

lemma rank_ends: "ends_within (top_budget E) n pc \<Longrightarrow> ends_within (top_budget E) (rank E pc) pc"
  unfolding rank_def by (rule LeastI)

lemma task_rank:
  assumes "reachable E s" and "uuids_ok E" and "tid < length (rt_execs s)"
  shows "ends_within (top_budget E) (2 * top_budget E + 3) (et_pc (rt_execs s ! tid))"
proof -
  obtain r where r: "rt_heap s (exec_run s tid) = Some r"
    "ends_within (call_budget E (rr_kind r)) (2 * call_budget E (rr_kind r) + 3) (et_pc (rt_execs s ! tid))"
    using reachable_budget [OF assms] by (auto simp: within_budget_def task_bound_def)
  have "2 * call_budget E (rr_kind r) + 3 + 2 * (top_budget E - call_budget E (rr_kind r)) = 2 * top_budget E + 3"
    using call_budget_top [of E "rr_kind r"] by simp
  then show ?thesis using ends_within_top [OF r(2) call_budget_top] by (simp only:)
qed

lemma pc_step_lowers:
  assumes "pc_step (starts_as E kind) pc pc'" and "ends_within (top_budget E) n pc"
  shows "rank E pc' < rank E pc"
proof -
  have "\<exists>L T. within_calls L T c \<and> L + T \<le> top_budget E" if "starts_as E kind c" for c
    using starts_as_within [OF that] call_budget_top [of E kind] by (meson order_trans)
  then obtain m where "m < rank E pc" "ends_within (top_budget E) m pc'"
    using pc_step_rank [OF assms(1) rank_ends [OF assms(2)]] by blast
  then show ?thesis using rank_le by fastforce
qed

lemma sum_list_replace:
  "i < length xs \<Longrightarrow> sum_list (map f (xs[i := x])) + f (xs ! i) = sum_list (map f xs) + (f x :: nat)"
  by (induction xs arbitrary: i) (auto split: nat.splits)

text \<open>What a step of a task leaves alone.\<close>

lemma frame_finally:
  "rt_queue (exec_finally tid s) = rt_queue s \<and> rt_workers (exec_finally tid s) = rt_workers s"
  by (auto simp: exec_finally_def Let_def completion_put_def split: sum.split option.split)

lemma frame_fail:
  "rt_queue (exec_fail E now tid e s) = rt_queue s \<and> rt_workers (exec_fail E now tid e s) = rt_workers s"
  by (simp add: exec_fail_def Let_def fsm_if_allowed_eq frame_finally)

lemma frame_success:
  "rt_queue (exec_success E now tid output s) = rt_queue s \<and> rt_workers (exec_success E now tid output s) = rt_workers s"
  by (auto simp: exec_success_def Let_def fsm_if_current_eq legal_simps frame_finally frame_fail
      split: option.split prod.split sum.split)

lemma frame_resume:
  "rt_queue (exec_resume E now tid next s) = rt_queue s \<and> rt_workers (exec_resume E now tid next s) = rt_workers s"
  by (auto simp: exec_resume_def Let_def back_to_running_def fsm_if_current_eq legal_simps split: sum.split)

lemma frame_interrupt:
  "interrupt E now tid e s = Some s' \<Longrightarrow> rt_queue s' = rt_queue s \<and> rt_workers s' = rt_workers s"
  by (auto simp: interrupt_def back_to_running_def fsm_if_current_eq legal_simps frame_fail
      split: option.splits exec_pc.splits)

lemma frame_task_step:
  assumes "task_step E tid s s'"
  shows "rt_queue s' = rt_queue s \<and> rt_workers s' = rt_workers s"
  using assms
proof cases
  case (start now)
  then show ?thesis
    by (auto simp: exec_start_def Let_def fsm_transition_eq frame_finally frame_fail
        split: if_splits option.splits sum.splits)
next
  case (drive now)
  then show ?thesis
    by (auto simp: exec_drive_defs Let_def fsm_transition_eq
        split: option.splits exec_pc.splits coro.splits sum.splits)
next
  case (llm now result)
  then show ?thesis
    by (auto simp: llm_return_def frame_resume add_step_def split: option.splits exec_pc.splits sum.splits)
next
  case (tool now answer)
  then show ?thesis
    by (auto simp: tool_return_def frame_resume add_step_def split: option.splits exec_pc.splits sum.splits)
next
  case (finish now)
  then show ?thesis
    by (auto simp: exec_finish_def frame_fail frame_success split: option.splits exec_pc.splits sum.splits)
next
  case (timeout now)
  then show ?thesis by (simp add: exec_timeout_def frame_interrupt)
next
  case (cancelled now)
  then show ?thesis by (auto simp: exec_cancelled_def dest: frame_interrupt split: if_splits)
qed

lemma item_done_frame:
  assumes "i < length (rt_workers s)"
  shows "tq_items (rt_queue (item_done i pc s)) = tq_items (rt_queue s)
    \<and> (\<exists>q. rt_workers (item_done i pc s) = (rt_workers s)[i := (rt_workers s ! i)\<lparr>wk_pc := q\<rparr>]
         \<and> (q = pc \<or> q = W_dead))"
  by (auto simp: item_done_def queue_task_done_def split: sum.split)

lemma worker_weight:
  assumes "i < length ws" and "ws' = ws[i := (ws ! i)\<lparr>wk_pc := q\<rparr>]"
  shows "sum_list (map (\<lambda>w. weight (wk_pc w)) ws') + weight (wk_pc (ws ! i)) =
    sum_list (map (\<lambda>w. weight (wk_pc w)) ws) + weight q"
  using sum_list_replace [OF assms(1), of "\<lambda>w. weight (wk_pc w)" "(ws ! i)\<lparr>wk_pc := q\<rparr>"] assms(2) by simp

lemma pick_lowers:
  assumes "worker_pick i s = Some s'"
  shows "potential E s' < potential E s"
proof -
  have i: "i < length (rt_workers s)" "wk_pc (rt_workers s ! i) = W_idle"
    using assms by (auto simp: worker_pick_def split: if_splits)
  obtain task q where q: "queue_get (rt_queue s) = Some (task, q)" "length (tq_items (rt_queue s)) = Suc (length (tq_items q))"
    using assms by (auto simp: worker_pick_def queue_get_def split: if_splits list.splits)
  note rep = worker_weight [OF i(1)]
  consider "s' = item_done i W_idle (s\<lparr>rt_queue := q\<rparr>)"
    | rid x where "rt_execs s' = rt_execs s @ [x]" "et_pc x = Not_started" "rt_queue s' = q"
      "rt_workers s' = (rt_workers s)[i := (rt_workers s ! i)\<lparr>wk_pc := W_busy rid (length (rt_execs s))\<rparr>]"
    using assms q(1) by (auto simp: worker_pick_def Let_def split: if_splits option.splits)
  then show ?thesis
  proof cases
    case 1
    obtain p where p: "rt_workers s' = (rt_workers s)[i := (rt_workers s ! i)\<lparr>wk_pc := p\<rparr>]" "p = W_idle \<or> p = W_dead"
      "tq_items (rt_queue s') = tq_items q"
      using item_done_frame [of i "s\<lparr>rt_queue := q\<rparr>" W_idle] i(1) 1 by auto
    have "sum_list (map (\<lambda>w. weight (wk_pc w)) (rt_workers s')) \<le> sum_list (map (\<lambda>w. weight (wk_pc w)) (rt_workers s))"
      using rep [OF p(1)] i(2) p(2) by auto
    then show ?thesis using q(2) p(3) 1 by (simp add: potential_def)
  next
    case 2
    have "rank E Not_started \<le> 2 * top_budget E + 3" by (rule rank_le) simp
    then show ?thesis using q(2) 2(1-3) rep [OF 2(4)] i(2) by (simp add: potential_def)
  qed
qed

lemma resume_lowers:
  assumes "worker_resume i s = Some s'"
  shows "potential E s' < potential E s"
proof -
  obtain rid tid where i: "i < length (rt_workers s)" "wk_pc (rt_workers s ! i) = W_busy rid tid"
    using assms by (auto simp: worker_resume_def split: if_splits worker_pc.splits)
  obtain pc where s': "s' = item_done i pc (s\<lparr>rt_tasks := dict_pop rid (rt_tasks s)\<rparr>)" "pc = W_idle \<or> pc = W_dead"
    using assms i by (auto simp: worker_resume_def split: if_splits exec_pc.splits)
  obtain p where p: "rt_workers s' = (rt_workers s)[i := (rt_workers s ! i)\<lparr>wk_pc := p\<rparr>]" "p = pc \<or> p = W_dead"
    "tq_items (rt_queue s') = tq_items (rt_queue s)"
    using item_done_frame [of i "s\<lparr>rt_tasks := dict_pop rid (rt_tasks s)\<rparr>" pc] i(1) s'(1) by auto
  show ?thesis using worker_weight [OF i(1) p(1)] i(2) p(2,3) s' by (auto simp: potential_def)
qed

lemma stop_lowers:
  assumes "worker_cancelled i s = Some s'"
  shows "potential E s' < potential E s"
proof -
  have i: "i < length (rt_workers s)" "wk_pc (rt_workers s ! i) \<noteq> W_dead"
    using assms by (auto simp: worker_cancelled_def split: if_splits worker_pc.splits)
  have "\<exists>p. rt_workers s' = (rt_workers s)[i := (rt_workers s ! i)\<lparr>wk_pc := p\<rparr>] \<and> p = W_dead
      \<and> tq_items (rt_queue s') = tq_items (rt_queue s) \<and> rt_execs s' = rt_execs s"
    using assms i item_done_frame [of i _ W_dead]
    by (auto simp: worker_cancelled_def split: if_splits worker_pc.splits)
  then obtain p where p: "rt_workers s' = (rt_workers s)[i := (rt_workers s ! i)\<lparr>wk_pc := p\<rparr>]" "p = W_dead"
    "tq_items (rt_queue s') = tq_items (rt_queue s)" "rt_execs s' = rt_execs s" by blast
  show ?thesis using worker_weight [OF i(1) p(1)] i(2) p(2-4) by (cases "wk_pc (rt_workers s ! i)") (auto simp: potential_def)
qed

lemma task_lowers:
  assumes "task_step E tid s s'" and "reachable E s" and "uuids_ok E"
  shows "potential E s' < potential E s"
proof -
  have tid: "tid < length (rt_execs s)" using assms(1) by (rule task_step_length)
  obtain r where r: "rt_heap s (exec_run s tid) = Some r"
    using reachable_budget [OF assms(2,3) tid] by (auto simp: within_budget_def)
  obtain pc b where pc: "rt_execs s' = (rt_execs s)[tid := (rt_execs s ! tid)\<lparr>et_pc := pc, et_began := b\<rparr>]"
    "pc_step (starts_as E (rr_kind r)) (et_pc (rt_execs s ! tid)) pc"
    using task_step_moves [OF assms(1) r] by (auto simp: moves_def task_at_def)
  have "rank E pc < rank E (et_pc (rt_execs s ! tid))"
    using pc_step_lowers [OF pc(2) task_rank [OF assms(2,3) tid]] .
  moreover have "sum_list (map (\<lambda>x. rank E (et_pc x)) (rt_execs s')) + rank E (et_pc (rt_execs s ! tid)) =
      sum_list (map (\<lambda>x. rank E (et_pc x)) (rt_execs s)) + rank E pc"
    using sum_list_replace [OF tid, of "\<lambda>x. rank E (et_pc x)" "(rt_execs s ! tid)\<lparr>et_pc := pc, et_began := b\<rparr>"]
    by (simp add: pc(1))
  ultimately show ?thesis using frame_task_step [OF assms(1)] by (simp add: potential_def)
qed

lemma internal_lowers:
  assumes "internal_step E s s'" and "reachable E s" and "uuids_ok E"
  shows "potential E s' < potential E s"
  using assms(1)
  by cases (auto intro: task_lowers [OF _ assms(2,3)] pick_lowers resume_lowers stop_lowers)

lemma internal_bounded:
  assumes "internal_steps E s n t" and "reachable E s" and "uuids_ok E"
  shows "n + potential E t \<le> potential E s"
  using assms(1)
proof induction
  case (more n t u)
  then show ?case
    using internal_lowers [OF more.hyps(2) internal_steps_reachable [OF more.hyps(1) assms(2)] assms(3)] by simp
qed simp

lemma not_live_done: "\<not> exec_live x \<Longrightarrow> \<exists>r. et_pc x = Exec_done r"
  by (cases "et_pc x") (simp_all add: exec_live_def)

lemma live_rank:
  assumes "reachable E s" and "uuids_ok E" and "tid < length (rt_execs s)"
  shows "rank E (et_pc (rt_execs s ! tid)) \<le> (if exec_live (rt_execs s ! tid) then 2 * top_budget E + 3 else 0)"
proof (cases "exec_live (rt_execs s ! tid)")
  case True
  then show ?thesis using rank_le [OF task_rank [OF assms]] by simp
next
  case False
  then obtain r where "et_pc (rt_execs s ! tid) = Exec_done r" using not_live_done by blast
  then show ?thesis using rank_le [of E 0 "Exec_done r"] by (simp add: exec_live_def)
qed

lemma potential_bound:
  assumes "reachable E s" and "uuids_ok E"
  shows "potential E s \<le> (2 * top_budget E + 5)
      * (length (filter exec_live (rt_execs s)) + length (tq_items (rt_queue s))) + 2 * length (rt_workers s)"
proof -
  let ?K = "2 * top_budget E + 5"
  have each: "rank E (et_pc x) \<le> (if exec_live x then ?K else 0)" if "x \<in> set (rt_execs s)" for x
    using that live_rank [OF assms] by (fastforce simp: in_set_conv_nth split: if_splits)
  have "sum_list (map (\<lambda>x. rank E (et_pc x)) xs) \<le> ?K * length (filter exec_live xs)"
    if "\<forall>x \<in> set xs. rank E (et_pc x) \<le> (if exec_live x then ?K else 0)" for xs
    using that by (induction xs) (auto simp: add_mult_distrib2 intro: add_mono split: if_splits)
  then have "sum_list (map (\<lambda>x. rank E (et_pc x)) (rt_execs s)) \<le> ?K * length (filter exec_live (rt_execs s))"
    using each by blast
  moreover have "sum_list (map (\<lambda>w. weight (wk_pc w)) ws) \<le> 2 * length ws" for ws :: "worker list"
  proof (induction ws)
    case (Cons w ws)
    then show ?case by (cases "wk_pc w") auto
  qed simp
  note this [of "rt_workers s"]
  ultimately show ?thesis unfolding potential_def add_mult_distrib2 by linarith
qed

lemma at_rest:
  assumes r: "reachable E t" and u: "uuids_ok E" and rest: "\<And>v. \<not> internal_step E t v"
  shows "\<not> live (rt_execs t) tid"
    and "\<exists>w \<in> set (rt_workers t). wk_pc w \<noteq> W_dead \<Longrightarrow> run_state_of t rid = Some st \<Longrightarrow> terminal st"
proof -
  note inv = reachable_inv [OF r u]
  have runs: "rt_heap t (exec_run t j) \<noteq> None" if "j < length (rt_execs t)" for j
    using reachable_budget [OF r u that] by (auto simp: within_budget_def)
  have dead: "\<not> live (rt_execs t) j" for j
  proof
    assume l: "live (rt_execs t) j"
    then obtain v where "task_step E j t v" using task_enabled [OF l runs] by (auto simp: live_def)
    then show False using rest internal_step.task by blast
  qed
  then show "\<not> live (rt_execs t) tid" .
  assume "\<exists>w \<in> set (rt_workers t). wk_pc w \<noteq> W_dead" and st: "run_state_of t rid = Some st"
  then obtain i where i: "i < length (rt_workers t)" "wk_pc (rt_workers t ! i) \<noteq> W_dead"
    by (auto simp: in_set_conv_nth)
  have no: "worker_pick i t = None" "worker_resume i t = None" "worker_cancelled i t = None"
    using rest internal_step.intros(2-4) by (meson not_None_eq)+
  have idle: "wk_pc (rt_workers t ! i) = W_idle"
  proof (cases "wk_pc (rt_workers t ! i)")
    case (W_busy rid' tid')
    have l: "tid' < length (rt_execs t)"
      using rt_inv0D(5) [OF rt_invD(1) [OF inv]] i(1) W_busy unfolding inv_workers_def by blast
    then have "\<not> exec_live (rt_execs t ! tid')" using dead [of tid'] by (simp add: live_def)
    then obtain res where res: "et_pc (rt_execs t ! tid') = Exec_done res" using not_live_done by blast
    have "worker_resume i t \<noteq> None" using i(1) W_busy l res by (simp add: worker_resume_def)
    then show ?thesis using no(2) by simp
  qed (use i in simp_all)
  then have "\<not> wk_cancel (rt_workers t ! i)" using no(3) i(1) by (auto simp: worker_cancelled_def)
  then have "queue_get (rt_queue t) = None"
    using no(1) i(1) idle by (auto simp: worker_pick_def Let_def split: if_splits option.splits)
  then have "qids t = []" by (auto simp: queue_get_def split: list.splits)
  then show "terminal st"
    using sched_covered [OF reachable_sched [OF r u] st] dead by auto
qed

text \<open>C10: once the clients stop calling, the runtime comes to rest: at most \<open>4 m + 11\<close> steps for each
  queued run and each running task (\<open>m\<close> the configured agent steps) and two for each worker are
  possible, whatever the model, the tools and the clock do. In a state of rest no task is running
  and every run is finished, unless every worker has ended.\<close>

theorem runtime_drains:
  assumes "reachable E s" and "uuids_ok E" and "internal_steps E s n t"
    and "m = nat (cf_max_agent_steps (env_config E))"
  shows "n \<le> (4 * m + 11) * (length (filter exec_live (rt_execs s)) + length (tq_items (rt_queue s)))
        + 2 * length (rt_workers s)
    \<and> ((\<forall>u. \<not> internal_step E t u) \<longrightarrow>
        (\<forall>tid. \<not> live (rt_execs t) tid)
        \<and> ((\<forall>rid st. run_state_of t rid = Some st \<longrightarrow> terminal st)
           \<or> (\<forall>w \<in> set (rt_workers t). wk_pc w = W_dead)))"
proof (intro conjI impI)
  have "n \<le> potential E s" using internal_bounded [OF assms(3,1,2)] by simp
  also note potential_bound [OF assms(1,2)]
  also have "2 * top_budget E + 5 = 4 * m + 11" by (simp add: top_budget_def assms(4))
  finally show "n \<le> (4 * m + 11) * (length (filter exec_live (rt_execs s)) + length (tq_items (rt_queue s)))
      + 2 * length (rt_workers s)" .
next
  assume rest: "\<forall>u. \<not> internal_step E t u"
  have r: "reachable E t" using assms(3,1) by (rule internal_steps_reachable)
  show "\<forall>tid. \<not> live (rt_execs t) tid" using at_rest(1) [OF r assms(2)] rest by blast
  show "(\<forall>rid st. run_state_of t rid = Some st \<longrightarrow> terminal st) \<or> (\<forall>w \<in> set (rt_workers t). wk_pc w = W_dead)"
    using at_rest(2) [OF r assms(2)] rest by blast
qed

theorem runtime_drains_witness:
  "\<exists>s t. demo_ready s \<and> internal_steps small_env s 1 t
     \<and> 1 \<le> (4 * nat (cf_max_agent_steps (env_config small_env)) + 11) + 2"
proof -
  obtain s where s: "demo_ready s" using ex_demo_ready by blast
  have r: "reachable small_env s" and q: "qids s = [demo_run]" and x: "rt_execs s = []"
    and w: "rt_workers s = [\<lparr>wk_pc = W_idle, wk_cancel = False\<rparr>]"
    and st: "run_state_of s demo_run = Some READY" using s unfolding demo_ready_def by blast+
  obtain t where t: "worker_pick 0 s = Some t"
    using worker_pick_starts [OF reachable_inv [OF r small_uuids_ok], of 0 demo_run "[]"] q w st by auto
  have steps: "internal_steps small_env s 1 t"
    using internal_steps.more [OF internal_steps.zero internal_step.pick [OF t]] by simp
  have "length (tq_items (rt_queue s)) = 1" using arg_cong [OF q, of length] by simp
  then show ?thesis
    using runtime_drains [OF r small_uuids_ok steps refl] s steps by (auto simp: x w)
qed

subsection \<open>From submission to answer\<close>

lemma simple_asks_once:
  assumes "\<not> blank (ctx_task ctx)"
  shows "\<exists>req k. simple_run ctx = Complete req ''simple.generate'' k
    \<and> (\<forall>response. k response = Ret (resp_content response))"
proof -
  have "\<not> blank ''You are a reliable assistant. Answer the current request directly and clearly.''"
    by code_simp
  then show ?thesis using assms by (simp add: simple_run_def)
qed

text \<open>The task of a SIMPLE run: it starts and asks the model once; it gets the answer and ends.\<close>

lemma simple_until_answer:
  assumes r: "reachable E s" and u: "uuids_ok E" and pc: "exec_at s tid = Some Not_started"
    and nc: "\<not> et_cancel (rt_execs s ! tid)" and h: "rt_heap s (exec_run s tid) = Some r0" "rr_state r0 = READY"
    and k0: "rr_kind r0 = SIMPLE"
  shows "\<exists>s1 s2 k. exec_start E t1 tid s = Some s1 \<and> exec_drive E t2 tid s1 = Some s2
    \<and> exec_at s2 tid = Some (At_llm ''simple.generate'' k t2) \<and> k response = Ret (resp_content response)
    \<and> run_state_of s2 = (run_state_of s)(exec_run s tid \<mapsto> WAITING) \<and> exec_run s2 tid = exec_run s tid
    \<and> rt_workers s2 = rt_workers s \<and> rt_runs s2 = rt_runs s \<and> reachable E s2
    \<and> (\<exists>x. rt_execs s2 = (rt_execs s)[tid := x] \<and> et_cancel x = et_cancel (rt_execs s ! tid))
    \<and> rt_tasks s2 = rt_tasks s \<and> rt_closed s2 = rt_closed s \<and> qids s2 = qids s"
proof -
  let ?rid = "exec_run s tid"
  have len: "tid < length (rt_execs s)" using pc by (simp add: exec_at_def split: if_splits)
  obtain s1 r1 where s1: "exec_start E t1 tid s = Some s1" "run_state_of s1 = (run_state_of s)(?rid \<mapsto> RUNNING)"
    "rt_execs s1 = (rt_execs s)[tid := (rt_execs s ! tid)\<lparr>et_pc :=
       Driving (pattern_run (env_codec E) SIMPLE (exec_context E r1 s)), et_began := t1\<rparr>]"
    "rt_heap s1 ?rid = Some r1" "rt_workers s1 = rt_workers s" "rt_runs s1 = rt_runs s"
    "rt_tasks s1 = rt_tasks s" "rt_closed s1 = rt_closed s" "qids s1 = qids s"
    using exec_start_runs [OF pc nc, of E t1] h k0 by (auto simp: run_state_of_def)
  have r1: "reachable E s1" by (rule reachable.step [OF r rt_step.exec_start [OF s1(1)]])
  have "\<not> blank (rr_input r1)"
    using inv_objects_run_id [OF rt_inv0D(1) [OF rt_invD(1) [OF reachable_inv [OF r1 u]]] s1(4)]
    by (simp add: wf_run_def)
  then obtain req k where k: "simple_run (exec_context E r1 s) = Complete req ''simple.generate'' k"
    "k response = Ret (resp_content response)"
    using simple_asks_once [of "exec_context E r1 s"] by (auto simp: exec_context_def)
  have at1: "exec_at s1 tid = Some (Driving (Complete req ''simple.generate'' k))" "exec_run s1 tid = ?rid"
    using len by (simp_all add: exec_at_def s1(3) k(1))
  obtain s2 where s2: "exec_drive E t2 tid s1 = Some s2" "run_state_of s2 = (run_state_of s1)(?rid \<mapsto> WAITING)"
    "rt_execs s2 = (rt_execs s1)[tid := (rt_execs s1 ! tid)\<lparr>et_pc := At_llm ''simple.generate'' k t2\<rparr>]"
    "rt_workers s2 = rt_workers s1" "rt_runs s2 = rt_runs s1" "rt_tasks s2 = rt_tasks s1"
    "rt_closed s2 = rt_closed s1" "qids s2 = qids s1"
    using exec_drive_waits [OF at1(1), of E t2] at1(2) s1(2) by auto
  have "exec_at s2 tid = Some (At_llm ''simple.generate'' k t2)" "exec_run s2 tid = ?rid"
    using len at1(2) by (simp_all add: exec_at_def s1(3) s2(3))
  moreover have "reachable E s2" by (rule reachable.step [OF r1 rt_step.exec_drive [OF s2(1)]])
  moreover have "run_state_of s2 = (run_state_of s)(?rid \<mapsto> WAITING)" by (simp add: s2(2) s1(2))
  moreover have "\<exists>x. rt_execs s2 = (rt_execs s)[tid := x] \<and> et_cancel x = et_cancel (rt_execs s ! tid)"
    using len by (intro exI [of _ "rt_execs s2 ! tid"]) (simp add: s1(3) s2(3))
  ultimately show ?thesis
    using s1(1,5-9) s2(1,4-8) k(2) by (intro exI [of _ s1] exI [of _ s2] exI [of _ k]) simp
qed

lemma simple_after_answer:
  assumes r: "reachable E s" and u: "uuids_ok E" and pc: "exec_at s tid = Some (At_llm st k began)"
    and k: "k response = Ret (resp_content response)" and out: "\<not> blank (resp_content response)"
    and st: "run_state_of s (exec_run s tid) = Some WAITING" and reg: "exec_run s tid \<in> set (rt_runs s)"
  shows "\<exists>s1 s2 s3 run. llm_return E t3 tid (Inr response) s = Some s1 \<and> exec_drive E t4 tid s1 = Some s2
    \<and> exec_finish E t5 tid s2 = Some s3 \<and> rt_heap s3 (exec_run s tid) = Some run
    \<and> rr_output run = Some (resp_content response)
    \<and> run_state_of s3 = (run_state_of s)(exec_run s tid \<mapsto> SUCCEEDED)
    \<and> exec_at s3 tid = Some (Exec_done Returned) \<and> rt_workers s3 = rt_workers s \<and> rt_runs s3 = rt_runs s
    \<and> reachable E s3"
proof -
  let ?rid = "exec_run s tid" and ?out = "resp_content response"
  have len: "tid < length (rt_execs s)" using pc by (simp add: exec_at_def split: if_splits)
  obtain s1 where s1: "llm_return E t3 tid (Inr response) s = Some s1" "run_state_of s1 = (run_state_of s)(?rid \<mapsto> RUNNING)"
    "rt_execs s1 = (rt_execs s)[tid := (rt_execs s ! tid)\<lparr>et_pc := Driving (Ret ?out)\<rparr>]"
    "rt_workers s1 = rt_workers s" "rt_runs s1 = rt_runs s"
    using llm_return_resumes [OF pc st, of E t3 response] k by auto
  have at1: "exec_at s1 tid = Some (Driving (Ret ?out))" using len by (simp add: exec_at_def s1(3))
  define s2 where "s2 = set_exec tid (Pattern_done (Inr ?out)) s1"
  have s2: "exec_drive E t4 tid s1 = Some s2" using exec_drive_returns [OF at1] by (simp add: s2_def)
  have at2: "exec_at s2 tid = Some (Pattern_done (Inr ?out))" "exec_run s2 tid = ?rid"
    using len by (simp_all add: exec_at_def s2_def s1(3))
  have r2: "reachable E s2"
    by (rule reachable.step [OF reachable.step [OF r rt_step.llm_return [OF s1(1)]] rt_step.exec_drive [OF s2]])
  have f2: "run_state_of s2 = run_state_of s1" "rt_runs s2 = rt_runs s" "rt_workers s2 = rt_workers s"
    by (simp_all add: s2_def s1)
  obtain r2 where h2: "rt_heap s2 ?rid = Some r2" "rr_state r2 = RUNNING"
    using fun_cong [OF f2(1), of ?rid] s1(2) by (auto simp: run_state_of_def)
  obtain s3 run where s3: "exec_finish E t5 tid s2 = Some s3" "run_state_of s3 = (run_state_of s2)(?rid \<mapsto> SUCCEEDED)"
    "rt_heap s3 ?rid = Some run" "rr_output run = Some ?out"
    "rt_execs s3 = (rt_execs s2)[tid := (rt_execs s2 ! tid)\<lparr>et_pc := Exec_done Returned\<rparr>]"
    "rt_workers s3 = rt_workers s2" "rt_runs s3 = rt_runs s2"
    using exec_finish_succeeds [OF reachable_inv [OF r2 u] at2(1), of r2 t5] at2(2) h2 out reg f2(2) by auto
  have "exec_at s3 tid = Some (Exec_done Returned)" using len by (simp add: exec_at_def s3(5) s2_def s1(3))
  moreover have "reachable E s3" by (rule reachable.step [OF r2 rt_step.exec_finish [OF s3(1)]])
  moreover have "run_state_of s3 = (run_state_of s)(?rid \<mapsto> SUCCEEDED)" by (simp add: s3(2) f2(1) s1(2))
  ultimately show ?thesis using s1(1) s2 s3(1,3,4,6,7) f2(2,3) by auto
qed

text \<open>An idle open runtime accepts a run, and a worker takes it at once.\<close>

lemma submit_and_pick:
  assumes r: "reachable E s" and u: "uuids_ok E" and c: "\<not> rt_closed s" and st: "rt_started s"
    and w: "i < length (rt_workers s)" "wk_pc (rt_workers s ! i) = W_idle" and q: "qids s = []"
    and input: "strip input \<noteq> []" and tid: "tid = length (rt_execs s)"
  shows "\<exists>rid s1 s2 r. submit E t0 input (Inr kd) sess None s = (Inr rid, s1) \<and> worker_pick i s1 = Some s2
    \<and> reachable E s2 \<and> exec_at s2 tid = Some Not_started \<and> exec_run s2 tid = rid
    \<and> \<not> et_cancel (rt_execs s2 ! tid) \<and> rt_heap s2 rid = Some r \<and> rr_state r = READY \<and> rr_kind r = kd
    \<and> rid \<in> set (rt_runs s2) \<and> run_state_of s2 = (run_state_of s)(rid \<mapsto> READY)
    \<and> rt_workers s2 = (rt_workers s)[i := (rt_workers s ! i)\<lparr>wk_pc := W_busy rid tid\<rparr>]
    \<and> rt_execs s2 = rt_execs s @ [\<lparr>et_run = rid, et_pc = Not_started, et_cancel = False, et_began = 0\<rparr>]
    \<and> rt_tasks s2 = dict_set rid tid (rt_tasks s) \<and> \<not> rt_closed s2 \<and> qids s2 = []"
proof -
  note inv = reachable_inv [OF r u]
  have "wf_queue (rt_queue s)" using rt_inv0D(6) [OF rt_invD(1) [OF inv]] by (simp add: inv_queue_def)
  then have nf: "\<not> queue_full (rt_queue s)" using q by (auto simp: wf_queue_def queue_full_def)
  obtain rid s1 r1 where s1: "submit E t0 input (Inr kd) sess None s = (Inr rid, s1)"
    "run_state_of s1 = (run_state_of s)(rid \<mapsto> READY)" "rt_heap s1 rid = Some r1" "rr_kind r1 = kd"
    "rid \<in> set (rt_runs s1)" "qids s1 = [rid]" "rt_workers s1 = rt_workers s" "rt_execs s1 = rt_execs s"
    "\<not> rt_closed s1" "rt_tasks s1 = rt_tasks s"
    using submit_accepts [OF inv u c input nf, of t0 kd sess] c st q by (auto simp: runtime_start_def)
  have r1: "reachable E s1"
    using reachable.step [OF r rt_step.submit, of t0 input "Inr kd" sess None] s1(1) by simp
  note i1 = reachable_inv [OF r1 u]
  have nc: "\<not> wk_cancel (rt_workers s1 ! i)"
    using inv_liveD(3) [OF rt_invD(2) [OF i1], of "rt_workers s1 ! i"] s1(7,9) w(1) by auto
  obtain s2 where s2: "worker_pick i s1 = Some s2" "rt_heap s2 = rt_heap s1"
    "rt_execs s2 = rt_execs s @ [\<lparr>et_run = rid, et_pc = Not_started, et_cancel = False, et_began = 0\<rparr>]"
    "rt_workers s2 = (rt_workers s)[i := (rt_workers s ! i)\<lparr>wk_pc := W_busy rid tid\<rparr>]" "rt_runs s2 = rt_runs s1"
    "rt_tasks s2 = dict_set rid tid (rt_tasks s1)" "rt_closed s2 = rt_closed s1" "qids s2 = []"
    using worker_pick_starts [OF i1, of i rid "[]"] s1 nc w tid by auto
  have "reachable E s2" by (rule reachable.step [OF r1 rt_step.worker_pick [OF s2(1)]])
  moreover have "exec_at s2 tid = Some Not_started" "exec_run s2 tid = rid" "\<not> et_cancel (rt_execs s2 ! tid)"
    by (simp_all add: exec_at_def s2(3) tid)
  moreover have "rr_state r1 = READY" using s1(3) fun_cong [OF s1(2), of rid] by (simp add: run_state_of_def)
  moreover have "run_state_of s2 = (run_state_of s)(rid \<mapsto> READY)"
    using state_heap_cong [OF s2(2)] s1(2) by simp
  ultimately show ?thesis using s1(1,3-5,9,10) s2 by auto
qed

text \<open>A SIMPLE run that an idle open runtime accepts goes, in this order, through the queue, a
  worker, one call of the model and the end of its task; it succeeds with the model's answer as its
  output, \<open>wait\<close> returns it, the worker is idle again, and no other run has changed its state.\<close>

theorem simple_run_succeeds:
  assumes "reachable E s" and "uuids_ok E" and "\<not> rt_closed s" and "rt_started s"
    and "i < length (rt_workers s)" and "wk_pc (rt_workers s ! i) = W_idle" and "qids s = []"
    and "strip input \<noteq> []" and "\<not> blank (resp_content response)" and "tid = length (rt_execs s)"
  shows "\<exists>rid s1 s2 s3 s4 s5 s6 s7 s8 run.
    submit E t0 input (Inr SIMPLE) sess None s = (Inr rid, s1) \<and> worker_pick i s1 = Some s2
    \<and> exec_start E t1 tid s2 = Some s3 \<and> exec_drive E t2 tid s3 = Some s4
    \<and> llm_return E t3 tid (Inr response) s4 = Some s5 \<and> exec_drive E t4 tid s5 = Some s6
    \<and> exec_finish E t5 tid s6 = Some s7 \<and> worker_resume i s7 = Some s8
    \<and> runtime_wait s8 rid = Inr (Some run) \<and> rr_state run = SUCCEEDED
    \<and> rr_output run = Some (resp_content response) \<and> wk_pc (rt_workers s8 ! i) = W_idle
    \<and> run_state_of s8 = (run_state_of s)(rid \<mapsto> SUCCEEDED)"
proof -
  obtain rid s1 s2 r where s2: "submit E t0 input (Inr SIMPLE) sess None s = (Inr rid, s1)" "worker_pick i s1 = Some s2"
    "reachable E s2" "exec_at s2 tid = Some Not_started" "exec_run s2 tid = rid"
    "\<not> et_cancel (rt_execs s2 ! tid)" "rt_heap s2 rid = Some r" "rr_state r = READY" "rr_kind r = SIMPLE"
    "rid \<in> set (rt_runs s2)" "run_state_of s2 = (run_state_of s)(rid \<mapsto> READY)"
    "rt_workers s2 = (rt_workers s)[i := (rt_workers s ! i)\<lparr>wk_pc := W_busy rid tid\<rparr>]"
    using submit_and_pick [OF assms(1-8,10), of t0 SIMPLE sess] by blast
  from simple_until_answer [OF s2(3) assms(2) s2(4,6) s2(7-9) [folded s2(5)], of t1 t2 response]
  obtain s3 s4 k where s4: "exec_start E t1 tid s2 = Some s3" "exec_drive E t2 tid s3 = Some s4"
    "exec_at s4 tid = Some (At_llm ''simple.generate'' k t2)" "k response = Ret (resp_content response)"
    "run_state_of s4 = (run_state_of s2)(rid \<mapsto> WAITING)" "exec_run s4 tid = rid"
    "rt_workers s4 = rt_workers s2" "rt_runs s4 = rt_runs s2" "reachable E s4"
    unfolding s2(5) by blast
  have "run_state_of s4 (exec_run s4 tid) = Some WAITING" "exec_run s4 tid \<in> set (rt_runs s4)"
    using s2(10) s4(5,6,8) by simp_all
  from simple_after_answer [OF s4(9) assms(2) s4(3,4) assms(9) this, of t3 t4 t5]
  obtain s5 s6 s7 run where s7: "llm_return E t3 tid (Inr response) s4 = Some s5" "exec_drive E t4 tid s5 = Some s6"
    "exec_finish E t5 tid s6 = Some s7" "rt_heap s7 rid = Some run" "rr_output run = Some (resp_content response)"
    "run_state_of s7 = (run_state_of s4)(rid \<mapsto> SUCCEEDED)" "exec_at s7 tid = Some (Exec_done Returned)"
    "rt_workers s7 = rt_workers s4" "rt_runs s7 = rt_runs s4" "reachable E s7"
    unfolding s4(6) by blast
  have w7: "i < length (rt_workers s7)" "wk_pc (rt_workers s7 ! i) = W_busy rid tid"
    using assms(5) by (simp_all add: s7(8) s4(7) s2(12))
  obtain s8 where s8: "worker_resume i s7 = Some s8" "rt_heap s8 = rt_heap s7" "rt_runs s8 = rt_runs s7"
    "wk_pc (rt_workers s8 ! i) = W_idle"
    using worker_resume_done [OF reachable_inv [OF s7(10) assms(2)] w7, of Returned] s7(7) w7(1)
    by (auto simp: exec_at_def split: if_splits)
  have "run_state_of s8 = (run_state_of s)(rid \<mapsto> SUCCEEDED)"
    using state_heap_cong [OF s8(2)] by (simp add: s7(6) s4(5) s2(11))
  moreover have st: "rr_state run = SUCCEEDED" using fun_cong [OF s7(6), of rid] s7(4) by (simp add: run_state_of_def)
  moreover have "runtime_wait s8 rid = Inr (Some run)"
    using st s7(4) s2(10) s4(8) s7(9) by (simp add: runtime_wait_def runtime_get_def runs_get_def s8(2,3))
  ultimately show ?thesis using s2(1,2) s4(1,2) s7(1-3,5) s8(1,4) by blast
qed

theorem simple_run_succeeds_witness:
  "\<exists>s s1 s8 run. runtime_start small_env small_start = (Inr (), s)
     \<and> submit small_env 1 ''hello'' (Inr SIMPLE) None None s = (Inr demo_run, s1)
     \<and> runtime_wait s8 demo_run = Inr (Some run) \<and> rr_output run = Some ''hi''"
proof -
  define s where "s = snd (runtime_start small_env small_start)"
  have st: "runtime_start small_env small_start = (Inr (), s)"
    by (simp add: s_def runtime_start_def Let_def small_start_fields)
  have r: "reachable small_env s"
    unfolding s_def by (rule reachable.step [OF reachable.init [OF wf_small_bus small_new] rt_step.start])
  have f: "\<not> rt_closed s" "rt_started s" "0 < length (rt_workers s)" "wk_pc (rt_workers s ! 0) = W_idle" "qids s = []"
    by (simp_all add: s_def runtime_start_def Let_def small_start_fields small_concurrency set_gauge_def)
  have h: "strip ''hello'' \<noteq> []" "\<not> blank (resp_content (plain_response ''hi''))" by code_simp+
  obtain rid s1 s8 run where x: "submit small_env 1 ''hello'' (Inr SIMPLE) None None s = (Inr rid, s1)"
    "runtime_wait s8 rid = Inr (Some run)" "rr_output run = Some ''hi''"
    using simple_run_succeeds [OF r small_uuids_ok f h refl, of 1 None 2 3 4 5 6] by auto
  have "uuids_of s = 0"
    by (simp add: s_def runtime_start_def Let_def small_start_fields set_gauge_def)
  moreover have "rid = env_uuids small_env (uuids_of s)"
    using submit_accepts [OF reachable_inv [OF r small_uuids_ok] small_uuids_ok f(1) h(1), of 1 SIMPLE None] x(1) f(5)
      rt_inv0D(6) [OF rt_invD(1) [OF reachable_inv [OF r small_uuids_ok]]]
    by (auto simp: inv_queue_def wf_queue_def queue_full_def)
  ultimately have "rid = demo_run" by (simp add: small_env_def)
  then show ?thesis using st x by blast
qed

end
