(* ===== verification/State_Space.thy ===== *)
theory State_Space
  imports Fsm
begin

section \<open>The finite state spaces\<close>

text \<open>
  Run states and agent kinds as instances of the library's class of enumerated
  types, in the order of the code's enums: quantifiers over them are then evaluated, which gives
  the facts that the state diagram of the documents states.
\<close>

lemma distinct_states [simp]: "distinct all_states" "distinct all_kinds"
  by (simp_all add: all_states_def all_kinds_def)

lemma in_all_kinds [simp]: "k \<in> set all_kinds"
  by (cases k) (simp_all add: all_kinds_def)

instantiation run_state :: enum
begin

definition enum_run_state :: "run_state list" where
  "enum_run_state = all_states"

definition enum_all_run_state :: "(run_state \<Rightarrow> bool) \<Rightarrow> bool" where
  "enum_all_run_state P = list_all P all_states"

definition enum_ex_run_state :: "(run_state \<Rightarrow> bool) \<Rightarrow> bool" where
  "enum_ex_run_state P = list_ex P all_states"

instance
  by standard (auto simp: enum_run_state_def enum_all_run_state_def enum_ex_run_state_def
      list_all_iff list_ex_iff)

end

instantiation agent_kind :: enum
begin

definition enum_agent_kind :: "agent_kind list" where
  "enum_agent_kind = all_kinds"

definition enum_all_agent_kind :: "(agent_kind \<Rightarrow> bool) \<Rightarrow> bool" where
  "enum_all_agent_kind P = list_all P all_kinds"

definition enum_ex_agent_kind :: "(agent_kind \<Rightarrow> bool) \<Rightarrow> bool" where
  "enum_ex_agent_kind P = list_ex P all_kinds"

instance
  by standard (auto simp: enum_agent_kind_def enum_all_agent_kind_def enum_ex_agent_kind_def
      list_all_iff list_ex_iff)

end

text \<open>Seven states and twelve transitions; SUCCEEDED and CANCELLED are left by none of them, FAILED by
  one, and every state is on a path from CREATED.\<close>

lemma twelve_transitions:
  "length (Enum.enum :: run_state list) = 7 \<and> card (set legal_transitions) = 12
     \<and> (\<forall>s t. can_transition s t \<longleftrightarrow> (s, t) \<in> set legal_transitions)"
  by (simp add: enum_run_state_def all_states_def legal_transitions_def can_transition_def)

lemma no_way_out: "(\<forall>t. \<not> can_transition s t) \<longleftrightarrow> s = SUCCEEDED \<or> s = CANCELLED"
proof -
  have "\<forall>s. (\<forall>t. \<not> can_transition s t) = (s = SUCCEEDED \<or> s = CANCELLED)" by code_simp
  then show ?thesis by blast
qed

lemma only_retry: "can_transition FAILED t \<longleftrightarrow> t = READY"
proof -
  have "\<forall>t. can_transition FAILED t = (t = READY)" by code_simp
  then show ?thesis by blast
qed

lemma kinds_by_value: "\<forall>k. agent_kind_of (kind_value k) = Inr k"
  by code_simp

end
