(* ===== verification/Call_Table.thy ===== *)
theory Call_Table
  imports Main
begin

section \<open>Calls and their callers\<close>

text \<open>
  A component that serves calls keeps a list of them, in the order in which they came; a list of the
  same length tells who made each call. How many calls a caller has made, and how many of them are
  still open, under the two changes of such a table: a new call, and a call that moves.
\<close>

definition made :: "nat list \<Rightarrow> nat \<Rightarrow> nat" where
  "made callers c = length (filter (\<lambda>x. x = c) callers)"

definition pending :: "('a \<Rightarrow> bool) \<Rightarrow> nat list \<Rightarrow> 'a list \<Rightarrow> nat \<Rightarrow> nat" where
  "pending f callers calls c = length (filter (\<lambda>(x, call). x = c \<and> f call) (zip callers calls))"

text \<open>The open call of a caller; there is at most one in the systems below.\<close>

definition open_call :: "('a \<Rightarrow> bool) \<Rightarrow> nat list \<Rightarrow> 'a list \<Rightarrow> nat \<Rightarrow> nat option" where
  "open_call f callers calls c =
     List.find (\<lambda>i. callers ! i = c \<and> f (calls ! i)) [0..<min (length callers) (length calls)]"

lemma made_simps [simp]:
  "made [] c = 0" "made (callers @ [x]) c = made callers c + (if x = c then 1 else 0)"
  by (simp_all add: made_def)

lemma made_none: "\<forall>x \<in> set callers. x < n \<Longrightarrow> n \<le> c \<Longrightarrow> made callers c = 0"
  by (fastforce simp: made_def filter_empty_conv)

lemma pending_Nil [simp]: "pending f [] [] c = 0"
  by (simp add: pending_def)

lemma pending_Cons:
  "pending f (x # callers) (call # calls) c = (if x = c \<and> f call then 1 else 0) + pending f callers calls c"
  by (simp add: pending_def)

lemma pending_begin [simp]:
  "length callers = length calls \<Longrightarrow>
   pending f (callers @ [x]) (calls @ [call]) c = pending f callers calls c + (if x = c \<and> f call then 1 else 0)"
  by (simp add: pending_def)

lemma pending_move:
  assumes "length callers = length calls" and "i < length calls"
  shows "pending f callers (calls[i := call]) c + (if callers ! i = c \<and> f (calls ! i) then 1 else 0) =
    pending f callers calls c + (if callers ! i = c \<and> f call then 1 else 0)"
  using assms
proof (induction callers calls arbitrary: i rule: list_induct2)
  case (Cons x xs y ys)
  show ?case
  proof (cases i)
    case 0
    then show ?thesis by (simp add: pending_Cons)
  next
    case (Suc j)
    then show ?thesis using Cons.IH [of j] Cons.prems by (simp add: pending_Cons)
  qed
qed simp

lemma pending_pos:
  "0 < pending f callers calls c \<longleftrightarrow>
     (\<exists>i < min (length callers) (length calls). callers ! i = c \<and> f (calls ! i))"
  by (fastforce simp: pending_def filter_empty_conv set_zip)

lemma pending_le_made: "pending f callers calls c \<le> made callers c"
proof (induction callers arbitrary: calls)
  case (Cons x xs)
  then show ?case using Cons.IH [of "tl calls"] by (cases calls) (auto simp: pending_def made_def intro: le_SucI)
qed (simp add: pending_def)

lemma pending_none: "\<forall>x \<in> set callers. x < n \<Longrightarrow> n \<le> c \<Longrightarrow> pending f callers calls c = 0"
  using pending_le_made [of f callers calls c] made_none [of callers n c] by simp

lemma open_call_Some:
  "open_call f callers calls c = Some i \<Longrightarrow>
     i < length callers \<and> i < length calls \<and> callers ! i = c \<and> f (calls ! i)"
  by (auto simp: open_call_def find_Some_iff)

lemma open_call_None: "open_call f callers calls c = None \<longleftrightarrow> pending f callers calls c = 0"
  using pending_pos [of f callers calls c] by (auto simp: open_call_def find_None_iff)

text \<open>The open calls are those of the callers, added up.\<close>

lemma pending_sum:
  assumes "length callers = length calls" and "\<forall>x \<in> set callers. x < n"
  shows "length (filter f calls) = (\<Sum>c<n. pending f callers calls c)"
  using assms
proof (induction callers calls rule: list_induct2)
  case (Cons x xs y ys)
  have "pending f (x # xs) (y # ys) c = (if c = x then (if f y then 1 else 0) else 0) + pending f xs ys c" for c
    by (simp add: pending_Cons)
  then have "(\<Sum>c<n. pending f (x # xs) (y # ys) c) = (if f y then 1 else 0) + (\<Sum>c<n. pending f xs ys c)"
    using Cons.prems by (simp add: sum.distrib)
  then show ?case using Cons by simp
qed (simp add: pending_def)

lemma made_sum:
  "\<forall>x \<in> set callers. x < n \<Longrightarrow> length callers = (\<Sum>c<n. made callers c)"
proof (induction callers)
  case (Cons x xs)
  have "made (x # xs) c = (if c = x then 1 else 0) + made xs c" for c by (simp add: made_def)
  then show ?case using Cons by (simp add: sum.distrib)
qed simp

end
