(* ===== verification/Wired_System.thy ===== *)
theory Wired_System
  imports Call_Table Factory Runtime_Scenarios
begin

section \<open>The wired system\<close>

text \<open>
  What \<open>create_runtime\<close> wires: the runtime, the resilient client that its \<open>_complete\<close> awaits and the
  registry that its \<open>_execute_tool\<close> awaits, which its workers share. Alone, the models of the three
  leave each other open: the runtime takes any answer, the client and the registry take any call. Here
  the answer that a task gets is the one that its own call has come to.

  A coroutine that is awaited runs in the task that awaits it. So a task that asks the model or a tool
  takes the call to its first suspension in the same step; a step of a call that ends it hands
  the result to the task, whose pattern goes on from there; and what interrupts a task interrupts its call. The
  two lists of callers are history: they tell which task has made which call.
\<close>

record wired =
  ws_runtime :: runtime
  ws_client :: client
  ws_tools :: registry
  ws_askers :: "nat list"
  ws_callers :: "nat list"

definition wired_new :: "system \<Rightarrow> wired" where
  "wired_new sy = \<lparr>ws_runtime = sy_runtime sy, ws_client = sy_client sy, ws_tools = sy_tools sy,
     ws_askers = [], ws_callers = []\<rparr>"

fun llm_open :: "call_pc \<Rightarrow> bool" where
  "llm_open (Call_done n r) = False"
| "llm_open _ = True"

fun tool_open :: "exec_state \<Rightarrow> bool" where
  "tool_open (Finished name r) = False"
| "tool_open _ = True"

subsection \<open>Calls of the model\<close>

text \<open>A call that has come to an end goes on in the task that awaits it.\<close>

definition llm_settle :: "env \<Rightarrow> time \<Rightarrow> nat \<Rightarrow> wired \<Rightarrow> wired option" where
  "llm_settle E now i S =
     (case call_at i (ws_client S) of
        Some (Call_done n r) \<Rightarrow>
          map_option (\<lambda>t. S\<lparr>ws_runtime := t\<rparr>) (llm_return E now (ws_askers S ! i) r (ws_runtime S))
      | _ \<Rightarrow> Some S)"

text \<open>\<open>await self.llm.complete(request)\<close> up to its first suspension.\<close>

definition llm_ask :: "env \<Rightarrow> time \<Rightarrow> nat \<Rightarrow> wired \<Rightarrow> wired option" where
  "llm_ask E now tid S =
     (let i = length (cl_calls (ws_client S)) in
      case call_round now i (call_begin (ws_client S)) of
        None \<Rightarrow> None
      | Some c \<Rightarrow> llm_settle E now i (S\<lparr>ws_client := c, ws_askers := ws_askers S @ [tid]\<rparr>))"

text \<open>A sleep of a call ends, and its next round follows; the provider answers.\<close>

definition llm_wake :: "env \<Rightarrow> time \<Rightarrow> nat \<Rightarrow> wired \<Rightarrow> wired option" where
  "llm_wake E now i S =
     (case Option.bind (call_wake i (ws_client S)) (call_round now i) of
        None \<Rightarrow> None
      | Some c \<Rightarrow> llm_settle E now i (S\<lparr>ws_client := c\<rparr>))"

definition llm_answer :: "env \<Rightarrow> time \<Rightarrow> pyfloat \<Rightarrow> nat \<Rightarrow> exn + llm_response \<Rightarrow> wired \<Rightarrow> wired option" where
  "llm_answer E now rnd i result S =
     (if result = Inl CancelledError then None
      else case call_return now rnd i result (ws_client S) of
        None \<Rightarrow> None
      | Some c \<Rightarrow> llm_settle E now i (S\<lparr>ws_client := c\<rparr>))"

text \<open>The call that a task awaits is cancelled, in the provider's call or in a sleep.\<close>

definition llm_stop :: "time \<Rightarrow> nat \<Rightarrow> wired \<Rightarrow> wired" where
  "llm_stop now tid S =
     (case open_call llm_open (ws_askers S) (cl_calls (ws_client S)) tid of
        None \<Rightarrow> S
      | Some i \<Rightarrow>
         (case call_return now 0 i (Inl CancelledError) (ws_client S) of
            Some c \<Rightarrow> S\<lparr>ws_client := c\<rparr>
          | None \<Rightarrow>
             (case call_cancelled i (ws_client S) of
                Some c \<Rightarrow> S\<lparr>ws_client := c\<rparr> | None \<Rightarrow> S)))"

subsection \<open>Calls of tools\<close>

definition tool_settle :: "env \<Rightarrow> time \<Rightarrow> nat \<Rightarrow> wired \<Rightarrow> wired option" where
  "tool_settle E now i S =
     (case rg_calls (ws_tools S) ! i of
        Finished name r \<Rightarrow>
          map_option (\<lambda>t. S\<lparr>ws_runtime := t\<rparr>) (tool_return E now (ws_callers S ! i) r (ws_runtime S))
      | _ \<Rightarrow> Some S)"

text \<open>\<open>await self.tools.execute(name, arguments)\<close>: a free permit is taken at once.\<close>

definition tool_ask ::
    "env \<Rightarrow> time \<Rightarrow> nat \<Rightarrow> string \<Rightarrow> (string \<times> pyval) list \<Rightarrow> wired \<Rightarrow> wired option" where
  "tool_ask E now tid name arguments S =
     (let i = length (rg_calls (ws_tools S));
          begun = exec_begin name (PDict arguments) (ws_tools S);
          tools = (case exec_enter i begun of Some g \<Rightarrow> g | None \<Rightarrow> begun)
      in tool_settle E now i (S\<lparr>ws_tools := tools, ws_callers := ws_callers S @ [tid]\<rparr>))"

text \<open>The semaphore lets a waiting call in; the tool's function ends or its time is up.\<close>

definition tool_enter :: "nat \<Rightarrow> wired \<Rightarrow> wired option" where
  "tool_enter i S = map_option (\<lambda>g. S\<lparr>ws_tools := g\<rparr>) (exec_enter i (ws_tools S))"

definition tool_answer ::
    "env \<Rightarrow> (pyval \<Rightarrow> exn + string) \<Rightarrow> time \<Rightarrow> nat \<Rightarrow> exn + pyval \<Rightarrow> wired \<Rightarrow> wired option" where
  "tool_answer E dumps now i result S =
     (if result = Inl CancelledError then None
      else case exec_end dumps i result (ws_tools S) of
        None \<Rightarrow> None
      | Some g \<Rightarrow> tool_settle E now i (S\<lparr>ws_tools := g\<rparr>))"

definition tool_stop :: "(pyval \<Rightarrow> exn + string) \<Rightarrow> nat \<Rightarrow> wired \<Rightarrow> wired" where
  "tool_stop dumps tid S =
     (case open_call tool_open (ws_callers S) (rg_calls (ws_tools S)) tid of
        None \<Rightarrow> S
      | Some i \<Rightarrow>
         (case exec_end dumps i (Inl CancelledError) (ws_tools S) of
            Some g \<Rightarrow> S\<lparr>ws_tools := g\<rparr>
          | None \<Rightarrow>
             (case exec_abandon i (ws_tools S) of
                Some g \<Rightarrow> S\<lparr>ws_tools := g\<rparr> | None \<Rightarrow> S)))"

subsection \<open>Steps of a task that touch its call\<close>

text \<open>The pattern runs on; when it asks for the model or a tool, the call is made.\<close>

definition wired_drive :: "env \<Rightarrow> time \<Rightarrow> nat \<Rightarrow> wired \<Rightarrow> wired option" where
  "wired_drive E now tid S =
     (case exec_drive E now tid (ws_runtime S) of
        None \<Rightarrow> None
      | Some t \<Rightarrow>
         (case (exec_at (ws_runtime S) tid, exec_at t tid) of
            (_, Some (At_llm st k began)) \<Rightarrow> llm_ask E now tid (S\<lparr>ws_runtime := t\<rparr>)
          | (Some (Driving (Execute_tool name arguments st k)), Some (At_tool n k' began)) \<Rightarrow>
              tool_ask E now tid name arguments (S\<lparr>ws_runtime := t\<rparr>)
          | _ \<Rightarrow> Some (S\<lparr>ws_runtime := t\<rparr>)))"

text \<open>A timeout or a cancellation reaches the task, inside its call if it awaits one.\<close>

definition wired_stop :: "(pyval \<Rightarrow> exn + string) \<Rightarrow> time \<Rightarrow> nat \<Rightarrow> wired \<Rightarrow> wired" where
  "wired_stop dumps now tid S =
     (case exec_at (ws_runtime S) tid of
        Some (At_llm st k began) \<Rightarrow> llm_stop now tid S
      | Some (At_tool name k began) \<Rightarrow> tool_stop dumps tid S
      | _ \<Rightarrow> S)"

definition wired_interrupt ::
    "(pyval \<Rightarrow> exn + string) \<Rightarrow> time \<Rightarrow> nat \<Rightarrow> (runtime \<Rightarrow> runtime option) \<Rightarrow> wired \<Rightarrow> wired option" where
  "wired_interrupt dumps now tid f S =
     map_option (\<lambda>t. (wired_stop dumps now tid S)\<lparr>ws_runtime := t\<rparr>) (f (ws_runtime S))"

text \<open>The end of \<open>close\<close>, which closes the registry's thread pools on the way.\<close>

definition wired_close_end :: "wired \<Rightarrow> wired option" where
  "wired_close_end S =
     map_option (\<lambda>t. S\<lparr>ws_runtime := t, ws_tools := registry_close (ws_tools S)\<rparr>)
       (close_end (ws_runtime S))"

subsection \<open>Steps of the system\<close>

text \<open>
  The steps of the runtime that involve no call are taken as they are. A call of the model is named by
  its number among the calls of the client, a call of a tool by its number in the registry.
\<close>

datatype wired_action =
    Of_runtime action
  | Drive time nat
  | Llm_wake time nat
  | Llm_answer time pyfloat nat "exn + llm_response"
  | Tool_enter nat
  | Tool_answer time nat "exn + pyval"
  | Time_out time nat
  | Cancellation time nat
  | Close_end

fun touches_call :: "action \<Rightarrow> bool" where
  "touches_call (Do_drive now tid) = True"
| "touches_call (Do_llm now tid r) = True"
| "touches_call (Do_tool now tid r) = True"
| "touches_call (Do_timeout now tid) = True"
| "touches_call (Do_cancelled now tid) = True"
| "touches_call Do_close_end = True"
| "touches_call _ = False"

fun wired_perform :: "env \<Rightarrow> (pyval \<Rightarrow> exn + string) \<Rightarrow> wired_action \<Rightarrow> wired \<Rightarrow> wired option" where
  "wired_perform E dumps (Of_runtime a) S =
     (if touches_call a then None
      else map_option (\<lambda>t. S\<lparr>ws_runtime := t\<rparr>) (perform E a (ws_runtime S)))"
| "wired_perform E dumps (Drive now tid) S = wired_drive E now tid S"
| "wired_perform E dumps (Llm_wake now i) S = llm_wake E now i S"
| "wired_perform E dumps (Llm_answer now rnd i r) S = llm_answer E now rnd i r S"
| "wired_perform E dumps (Tool_enter i) S = tool_enter i S"
| "wired_perform E dumps (Tool_answer now i r) S = tool_answer E dumps now i r S"
| "wired_perform E dumps (Time_out now tid) S = wired_interrupt dumps now tid (exec_timeout E now tid) S"
| "wired_perform E dumps (Cancellation now tid) S =
     wired_interrupt dumps now tid (exec_cancelled E now tid) S"
| "wired_perform E dumps Close_end S = wired_close_end S"

text \<open>The states of a system that the factory has built.\<close>

inductive wired_reachable :: "system \<Rightarrow> (pyval \<Rightarrow> exn + string) \<Rightarrow> wired \<Rightarrow> bool" for sy dumps where
  boot: "wired_reachable sy dumps (wired_new sy)"
| act: "wired_reachable sy dumps S \<Longrightarrow> wired_perform (sy_env sy) dumps a S = Some S' \<Longrightarrow>
    wired_reachable sy dumps S'"

text \<open>Calls in flight.\<close>

definition open_llm_calls :: "wired \<Rightarrow> nat" where
  "open_llm_calls S = length (filter llm_open (cl_calls (ws_client S)))"

definition open_tool_calls :: "wired \<Rightarrow> nat" where
  "open_tool_calls S = length (filter tool_open (rg_calls (ws_tools S)))"

end
