(* ===== verification/Wired_Invariant.thy ===== *)
theory Wired_Invariant
  imports Wired_System Runtime_Work
begin

section \<open>The invariant of the wired system\<close>

text \<open>
  Every execution task has as many open calls as its program point says, one or none; the calls it has
  made and those its pattern may still make are within the budget of its run's kind; and a transient
  error that has ended a pattern is the end of a call that has used all its attempts.

  \<open>wired_inv x\<close> allows one exception: the task \<open>x\<close> is still at a call that has come to its end. The
  steps of the system pass through such a state, from the end of the call to the task's reaction.
\<close>

subsection \<open>Program points\<close>

fun at_llm :: "exec_pc \<Rightarrow> bool" where
  "at_llm (At_llm st k began) = True"
| "at_llm _ = False"

fun at_tool :: "exec_pc \<Rightarrow> bool" where
  "at_tool (At_tool name k began) = True"
| "at_tool _ = False"

text \<open>With \<open>ml\<close> calls of the model and \<open>mt\<close> calls of tools made, the rest is within the budgets.\<close>

fun on_budget :: "nat \<Rightarrow> nat \<Rightarrow> nat \<Rightarrow> nat \<Rightarrow> exec_pc \<Rightarrow> bool" where
  "on_budget L T ml mt Not_started = (ml = 0 \<and> mt = 0)"
| "on_budget L T ml mt (Driving c) = (ml \<le> L \<and> mt \<le> T \<and> within_calls (L - ml) (T - mt) c)"
| "on_budget L T ml mt (At_llm st k began) =
     (ml \<le> L \<and> mt \<le> T \<and> (\<forall>r. within_calls (L - ml) (T - mt) (k r)))"
| "on_budget L T ml mt (At_tool name k began) =
     (ml \<le> L \<and> mt \<le> T \<and> (\<forall>r. within_calls (L - ml) (T - mt) (k r)))"
| "on_budget L T ml mt (Pattern_done r) = (ml \<le> L \<and> mt \<le> T)"
| "on_budget L T ml mt (Exec_done r) = (ml \<le> L \<and> mt \<le> T)"

lemma on_budget_le: "on_budget L T ml mt pc \<Longrightarrow> ml \<le> L \<and> mt \<le> T"
  by (cases pc) auto

text \<open>A pattern does not raise a transient error of the model by itself.\<close>

primrec mild :: "'a coro \<Rightarrow> bool" where
  "mild (Ret x) = True"
| "mild (Raise e) = (\<not> gave_up e)"
| "mild (Complete req st k) = (\<forall>r. mild (k r))"
| "mild (Execute_tool n args st k) = (\<forall>r. mild (k r))"

fun mild_at :: "exec_pc \<Rightarrow> bool" where
  "mild_at (Driving c) = mild c"
| "mild_at (At_llm st k began) = (\<forall>r. mild (k r))"
| "mild_at (At_tool name k began) = (\<forall>r. mild (k r))"
| "mild_at _ = True"

lemma mild_let_message: "(\<And>m. mild (k m)) \<Longrightarrow> mild (let_message role content k)"
  by (auto simp: let_message_def let_ok_def mk_message_def gave_up_def split: sum.split if_splits)

lemma mild_await: "(\<And>r. mild (k r)) \<Longrightarrow> mild (await_complete ms st k)"
  by (auto simp: await_complete_def let_ok_def llm_request_def mk_llm_request_def gave_up_def split: sum.split if_splits)

lemmas mild_intros = mild_let_message mild_await

lemma mild_react_loop: "mild (react_loop c n i ms)"
proof (induction n arbitrary: i ms)
  case 0
  show ?case by (auto simp: react_final_def intro!: mild_intros)
next
  case (Suc n)
  show ?case by (auto simp: Let_def intro!: mild_intros Suc.IH split: option.splits pyval.splits)
qed

lemma mild_plan_loop: "mild (plan_loop ctx i plan results)"
  by (induction plan arbitrary: i results) (auto simp: plan_synthesize_def intro!: mild_intros)

lemma mild_pattern: "mild (pattern_run c kind ctx)"
  by (cases kind)
    (auto simp: simple_run_def react_run_def reflection_run_def plan_solve_run_def Let_def
      intro!: mild_intros mild_react_loop mild_plan_loop)

subsection \<open>How a task moves\<close>

lemma fsm_transition_outcome:
  assumes "fsm_transition E now rid t rs s = (res, s1)"
  shows "rt_execs s1 = rt_execs s" and "res = Inl e \<Longrightarrow> \<not> gave_up e"
  using assms by (auto simp: fsm_transition_eq gave_up_def split: option.splits if_splits)

lemma drive_cases:
  assumes "exec_drive E now tid s = Some t"
  obtains (llm) req st k b where "exec_at s tid = Some (Driving (Complete req st k))"
      "task_at tid (At_llm st k b) s t"
    | (tool) name args st k b where "exec_at s tid = Some (Driving (Execute_tool name args st k))"
      "task_at tid (At_tool name k b) s t"
    | (leave) c r where "exec_at s tid = Some (Driving c)" "task_at tid (Pattern_done r) s t"
      "\<And>e. r = Inl e \<Longrightarrow> gave_up e \<Longrightarrow> c = Raise e"
proof -
  obtain c where c: "exec_at s tid = Some (Driving c)"
    using assms by (auto simp: exec_drive_defs split: option.splits exec_pc.splits)
  show ?thesis
  proof (cases c)
    case (Ret x)
    then show ?thesis using assms c by (intro leave) (auto simp: exec_drive_defs Let_def intro: task_at_set)
  next
    case (Raise e)
    then show ?thesis using assms c by (intro leave) (auto simp: exec_drive_defs Let_def intro: task_at_set)
  next
    case (Complete req st k)
    obtain res s1 where f: "fsm_transition E now (exec_run s tid) WAITING (''LLM: '' @ st) s = (res, s1)"
      by fastforce
    note o = fsm_transition_outcome [OF f]
    show ?thesis
    proof (cases res)
      case (Inl e)
      then have "t = set_exec tid (Pattern_done (Inl e)) s1"
        using assms c Complete f by (simp add: exec_drive_defs Let_def)
      then show ?thesis using o Inl c by (intro leave [of c "Inl e"]) (auto intro: task_at_set)
    next
      case (Inr u)
      then have "task_at tid (At_llm st k now) s t"
        using assms c Complete f o(1) by (auto simp: exec_drive_defs Let_def intro!: task_at_set)
      then show ?thesis using c Complete by (intro llm) simp_all
    qed
  next
    case (Execute_tool name args st k)
    obtain res s1 where f: "fsm_transition E now (exec_run s tid) WAITING (''tool: '' @ name) s = (res, s1)"
      by fastforce
    note o = fsm_transition_outcome [OF f]
    show ?thesis
    proof (cases res)
      case (Inl e)
      then have "t = set_exec tid (Pattern_done (Inl e)) s1"
        using assms c Execute_tool f by (simp add: exec_drive_defs Let_def)
      then show ?thesis using o Inl c by (intro leave [of c "Inl e"]) (auto intro: task_at_set)
    next
      case (Inr u)
      then have "task_at tid (At_tool name k now) s t"
        using assms c Execute_tool f o(1) by (auto simp: exec_drive_defs Let_def intro!: task_at_set)
      then show ?thesis using c Execute_tool by (intro tool) simp_all
    qed
  qed
qed

text \<open>How a task goes on after its call.\<close>

definition resumed :: "('a \<Rightarrow> string coro) \<Rightarrow> exn + 'a \<Rightarrow> exec_pc" where
  "resumed k r = (case r of Inl e \<Rightarrow> Pattern_done (Inl e) | Inr x \<Rightarrow> Driving (k x))"

lemma resume_at: "task_at tid (case next of Inl e \<Rightarrow> Pattern_done (Inl e) | Inr c \<Rightarrow> Driving c) s
    (exec_resume E now tid next s)"
  by (cases "next")
    (auto simp: exec_resume_def Let_def back_to_running_def fsm_if_current_eq legal_simps intro!: task_at_set)

lemma wired_add_step_execs [simp]: "rt_execs (add_step rid entry s) = rt_execs s"
  by (simp add: add_step_def)

lemma llm_return_at:
  assumes "llm_return E now tid r s = Some t" and "exec_at s tid = Some (At_llm st k b)"
  shows "task_at tid (resumed k r) s t"
  using assms resume_at [of tid "Inl (projl r)" s E now]
    task_at_execs [OF resume_at [of tid "Inr (k (projr r))" "add_step (exec_run s tid)
      \<lparr>se_type = ''llm'', se_name = st, se_model = Some (resp_model (projr r)), se_latency = now - b\<rparr> s" E now]]
  by (cases r) (auto simp: llm_return_def resumed_def)

lemma tool_return_at:
  assumes "tool_return E now tid r s = Some t" and "exec_at s tid = Some (At_tool name k b)"
  shows "task_at tid (resumed k r) s t"
  using assms resume_at [of tid "Inl (projl r)" s E now]
    task_at_execs [OF resume_at [of tid "Inr (k (projr r))" "add_step (exec_run s tid)
      \<lparr>se_type = ''tool'', se_name = name, se_model = None, se_latency = now - b\<rparr> s" E now]]
  by (cases r) (auto simp: tool_return_def resumed_def)

text \<open>The steps that involve no call start a task, or end one whose pattern is done.\<close>

definition plain_move :: "env \<Rightarrow> runtime \<Rightarrow> nat \<Rightarrow> exec_pc \<Rightarrow> exec_pc \<Rightarrow> bool" where
  "plain_move E s tid pc pc' \<longleftrightarrow> (\<exists>r. rt_heap s (exec_run s tid) = Some r
     \<and> (pc = Not_started \<and> (\<exists>c. pc' = Driving c \<and> starts_as E (rr_kind r) c)))
     \<or> ((pc = Not_started \<or> (\<exists>x. pc = Pattern_done x)) \<and> (\<exists>x. pc' = Exec_done x))"

lemma plain_step:
  assumes a: "perform E a s = Some t" "\<not> touches_call a" and i: "rt_inv E s"
    and runs: "\<forall>j < length (rt_execs s). rt_heap s (exec_run s j) \<noteq> None"
  shows "tasks_kept s t \<or> new_task s t
    \<or> (\<exists>tid pc. tid < length (rt_execs s) \<and> task_at tid pc s t \<and> plain_move E s tid (et_pc (rt_execs s ! tid)) pc)"
proof (cases a)
  case (Do_exec now tid)
  then have st: "exec_start E now tid s = Some t" using a by simp
  then have tid: "tid < length (rt_execs s)" by (auto simp: exec_start_def exec_at_def split: if_splits)
  then obtain r where r: "rt_heap s (exec_run s tid) = Some r" using runs by blast
  have ns: "et_pc (rt_execs s ! tid) = Not_started" using task_step_start [OF st r] by blast
  obtain pc where pc: "task_at tid pc s t" "pc_step (starts_as E (rr_kind r)) Not_started pc"
    using moves_start [OF st r] ns by (auto simp: moves_def)
  have "plain_move E s tid (et_pc (rt_execs s ! tid)) pc"
    using pc(2) r ns by (cases rule: pc_step.cases) (auto simp: plain_move_def)
  then show ?thesis using pc(1) tid by blast
next
  case (Do_finish now tid)
  then have f: "exec_finish E now tid s = Some t" using a by simp
  then have tid: "tid < length (rt_execs s)" "\<exists>x. et_pc (rt_execs s ! tid) = Pattern_done x"
    by (auto simp: exec_finish_def exec_at_def split: if_splits exec_pc.splits)
  then obtain pc where pc: "task_at tid pc s t" "pc_step (\<lambda>_. True) (et_pc (rt_execs s ! tid)) pc"
    using moves_finish [OF f, of "\<lambda>_. True"] runs by (auto simp: moves_def)
  have "plain_move E s tid (et_pc (rt_execs s ! tid)) pc"
    using pc(2) tid(2) by (cases rule: pc_step.cases) (auto simp: plain_move_def)
  then show ?thesis using pc(1) tid(1) by blast
qed (use a i in \<open>auto simp: runtime_start_def Let_def dest: worker_pick_tasks
      intro: kept_submit kept_cancel kept_retry kept_close kept_worker tasks_kept_same\<close>)

subsection \<open>The invariant\<close>

abbreviation pc_of :: "wired \<Rightarrow> nat \<Rightarrow> exec_pc" where
  "pc_of S tid \<equiv> et_pc (rt_execs (ws_runtime S) ! tid)"

abbreviation tasks_of :: "wired \<Rightarrow> nat" where
  "tasks_of S \<equiv> length (rt_execs (ws_runtime S))"

definition llm_pending :: "wired \<Rightarrow> nat \<Rightarrow> nat" where
  "llm_pending S = pending llm_open (ws_askers S) (cl_calls (ws_client S))"

definition tool_pending :: "wired \<Rightarrow> nat \<Rightarrow> nat" where
  "tool_pending S = pending tool_open (ws_callers S) (rg_calls (ws_tools S))"

text \<open>A call of the task has come to the end \<open>r\<close> with its \<open>m\<close>-th attempt.\<close>

definition has_ended :: "nat \<Rightarrow> wired \<Rightarrow> nat \<Rightarrow> exn + llm_response \<Rightarrow> bool" where
  "has_ended m S tid r \<longleftrightarrow> (\<exists>i < length (cl_calls (ws_client S)). i < length (ws_askers S)
     \<and> ws_askers S ! i = tid \<and> cl_calls (ws_client S) ! i = Call_done m r)"

definition kind_budget :: "env \<Rightarrow> wired \<Rightarrow> nat \<Rightarrow> exec_pc \<Rightarrow> bool" where
  "kind_budget E S tid pc \<longleftrightarrow>
     (\<exists>r. rt_heap (ws_runtime S) (exec_run (ws_runtime S) tid) = Some r
        \<and> on_budget (llm_budget (rr_kind r) (nat (cf_max_agent_steps (env_config E))))
            (tool_budget (rr_kind r) (nat (cf_max_agent_steps (env_config E))))
            (made (ws_askers S) tid) (made (ws_callers S) tid) pc)"

definition task_ok :: "env \<Rightarrow> nat \<Rightarrow> nat option \<Rightarrow> wired \<Rightarrow> nat \<Rightarrow> exec_pc \<Rightarrow> bool" where
  "task_ok E m x S tid pc \<longleftrightarrow>
     llm_pending S tid = (if at_llm pc \<and> x \<noteq> Some tid then 1 else 0)
     \<and> tool_pending S tid = (if at_tool pc \<and> x \<noteq> Some tid then 1 else 0)
     \<and> kind_budget E S tid pc \<and> mild_at pc
     \<and> (\<forall>e. pc = Pattern_done (Inl e) \<longrightarrow> gave_up e \<longrightarrow> has_ended m S tid (Inl e))"

definition wired_base :: "env \<Rightarrow> retry_config \<Rightarrow> (pyval \<Rightarrow> exn + string) \<Rightarrow> registry \<Rightarrow> wired \<Rightarrow> bool" where
  "wired_base E c dumps g S \<longleftrightarrow>
     reachable E (ws_runtime S) \<and> cl_reachable c (ws_client S)
     \<and> (\<exists>ops. ws_tools S = fold (tool_exec dumps) ops g)
     \<and> length (ws_askers S) = length (cl_calls (ws_client S))
     \<and> length (ws_callers S) = length (rg_calls (ws_tools S))
     \<and> (\<forall>x \<in> set (ws_askers S). x < tasks_of S) \<and> (\<forall>x \<in> set (ws_callers S). x < tasks_of S)
     \<and> (\<forall>a. Acquiring a \<notin> set (cl_calls (ws_client S)))"

definition wired_inv ::
    "env \<Rightarrow> retry_config \<Rightarrow> (pyval \<Rightarrow> exn + string) \<Rightarrow> registry \<Rightarrow> nat option \<Rightarrow> wired \<Rightarrow> bool" where
  "wired_inv E c dumps g x S \<longleftrightarrow> wired_base E c dumps g S
     \<and> (\<forall>tid < tasks_of S. task_ok E (nat (rc_max_attempts c)) x S tid (pc_of S tid))"

lemma wired_baseD:
  assumes "wired_base E c dumps g S"
  shows "reachable E (ws_runtime S)" "cl_reachable c (ws_client S)"
    "\<exists>ops. ws_tools S = fold (tool_exec dumps) ops g"
    "length (ws_askers S) = length (cl_calls (ws_client S))"
    "length (ws_callers S) = length (rg_calls (ws_tools S))"
    "\<forall>x \<in> set (ws_askers S). x < tasks_of S" "\<forall>x \<in> set (ws_callers S). x < tasks_of S"
    "\<And>a. Acquiring a \<notin> set (cl_calls (ws_client S))"
  using assms by (auto simp: wired_base_def)

lemma wired_invD:
  assumes "wired_inv E c dumps g x S"
  shows "wired_base E c dumps g S"
    and "tid < tasks_of S \<Longrightarrow> task_ok E (nat (rc_max_attempts c)) x S tid (pc_of S tid)"
  using assms by (auto simp: wired_inv_def)

lemma task_okD:
  assumes "task_ok E m x S tid pc"
  shows "llm_pending S tid = (if at_llm pc \<and> x \<noteq> Some tid then 1 else 0)"
    "tool_pending S tid = (if at_tool pc \<and> x \<noteq> Some tid then 1 else 0)"
    "kind_budget E S tid pc" "mild_at pc"
    "pc = Pattern_done (Inl e) \<Longrightarrow> gave_up e \<Longrightarrow> has_ended m S tid (Inl e)"
  using assms by (auto simp: task_ok_def)

text \<open>A step of the runtime keeps the runs of the tasks, with their kinds.\<close>

definition runs_kept :: "runtime \<Rightarrow> runtime \<Rightarrow> bool" where
  "runs_kept s t \<longleftrightarrow> (\<forall>j < length (rt_execs s). exec_run t j = exec_run s j)
     \<and> (\<forall>rid r. rt_heap s rid = Some r \<longrightarrow> (\<exists>r'. rt_heap t rid = Some r' \<and> rr_kind r' = rr_kind r))"

lemma runs_kept_refl [simp]: "runs_kept s s"
  by (simp add: runs_kept_def)

text \<open>What concerns one task is as it was.\<close>

definition same_task :: "nat \<Rightarrow> wired \<Rightarrow> wired \<Rightarrow> nat \<Rightarrow> bool" where
  "same_task m S S' j \<longleftrightarrow> pc_of S' j = pc_of S j
     \<and> llm_pending S' j = llm_pending S j \<and> tool_pending S' j = tool_pending S j
     \<and> made (ws_askers S') j = made (ws_askers S) j \<and> made (ws_callers S') j = made (ws_callers S) j
     \<and> (\<forall>r. has_ended m S j r \<longrightarrow> has_ended m S' j r)"

lemma task_ok_same:
  assumes "task_ok E m x S j (pc_of S j)" and "same_task m S S' j"
    and "runs_kept (ws_runtime S) (ws_runtime S')" and "j < tasks_of S"
    and "x \<noteq> Some j" "x' \<noteq> Some j"
  shows "task_ok E m x' S' j (pc_of S' j)"
proof -
  note same = assms(2) [unfolded same_task_def]
  obtain r where r: "rt_heap (ws_runtime S) (exec_run (ws_runtime S) j) = Some r"
    "on_budget (llm_budget (rr_kind r) (nat (cf_max_agent_steps (env_config E))))
       (tool_budget (rr_kind r) (nat (cf_max_agent_steps (env_config E))))
       (made (ws_askers S) j) (made (ws_callers S) j) (pc_of S j)"
    using task_okD(3) [OF assms(1)] by (auto simp: kind_budget_def)
  have "exec_run (ws_runtime S') j = exec_run (ws_runtime S) j"
    using assms(3,4) by (simp add: runs_kept_def)
  moreover obtain r' where "rt_heap (ws_runtime S') (exec_run (ws_runtime S) j) = Some r'" "rr_kind r' = rr_kind r"
    using assms(3) r(1) unfolding runs_kept_def by blast
  moreover have m: "made (ws_askers S') j = made (ws_askers S) j" "made (ws_callers S') j = made (ws_callers S) j"
    and pc: "pc_of S' j = pc_of S j" using same by blast+
  ultimately have kb: "kind_budget E S' j (pc_of S j)" using r(2) by (simp add: kind_budget_def)
  have e: "llm_pending S' j = llm_pending S j" "tool_pending S' j = tool_pending S j"
    "(x' \<noteq> Some j) = (x \<noteq> Some j)" using same assms(5,6) by blast+
  note p = task_okD(1,2) [OF assms(1), folded e]
  have h: "has_ended m S' j (Inl e)" if "pc_of S j = Pattern_done (Inl e)" "gave_up e" for e
    using task_okD(5) [OF assms(1) that] same by blast
  show ?thesis unfolding task_ok_def pc using p kb task_okD(4) [OF assms(1)] h by blast
qed

text \<open>One task moves, or its call does, or both; the others stay as they are.\<close>

lemma wired_focus:
  assumes i: "wired_inv E c dumps g x S" and x: "x = None \<or> x = Some tid" "x' = None \<or> x' = Some tid"
    and b: "wired_base E c dumps g S'" and n: "tasks_of S' = tasks_of S"
    and k: "runs_kept (ws_runtime S) (ws_runtime S')"
    and others: "\<And>j. j < tasks_of S \<Longrightarrow> j \<noteq> tid \<Longrightarrow> same_task (nat (rc_max_attempts c)) S S' j"
    and own: "tid < tasks_of S \<Longrightarrow> task_ok E (nat (rc_max_attempts c)) x' S' tid (pc_of S' tid)"
  shows "wired_inv E c dumps g x' S'"
  unfolding wired_inv_def
proof (intro conjI allI impI)
  fix j assume j: "j < tasks_of S'"
  show "task_ok E (nat (rc_max_attempts c)) x' S' j (pc_of S' j)"
  proof (cases "j = tid")
    case True
    then show ?thesis using own j unfolding n by simp
  next
    case False
    have "j < tasks_of S" using j unfolding n .
    then show ?thesis
      using task_ok_same [OF wired_invD(2) [OF i] others k] False x by auto
  qed
qed (rule b)

end
