(* ===== verification/Wired_Steps.thy ===== *)
theory Wired_Steps
  imports Wired_Invariant
begin

section \<open>The steps of the wired system keep its invariant\<close>

text \<open>
  One lemma per kind of change: the runtime moves a task or creates one, a call moves, a call is made,
  a call that has ended hands its result to its task. The actions of the system are put together from
  them.
\<close>

subsection \<open>Changes of the runtime\<close>

lemma wired_runs:
  assumes "wired_inv E c dumps g x S"
  shows "\<forall>j < tasks_of S. rt_heap (ws_runtime S) (exec_run (ws_runtime S) j) \<noteq> None"
  using wired_invD(2) [OF assms] by (fastforce dest: task_okD(3) simp: kind_budget_def)

lemma wired_rt_inv:
  assumes "wired_inv E c dumps g x S" and "uuids_ok E"
  shows "rt_inv E (ws_runtime S)"
  using wired_baseD(1) [OF wired_invD(1) [OF assms(1)]] assms(2) by (rule reachable_inv)

lemma step_runs_kept:
  assumes i: "wired_inv E c dumps g x S" and u: "uuids_ok E" and st: "rt_step E (ws_runtime S) t"
  shows "runs_kept (ws_runtime S) t"
  using step_shape(2) [OF st wired_rt_inv [OF i u] wired_runs [OF i]]
    kind_kept [OF st wired_rt_inv [OF i u] u]
  by (simp add: runs_kept_def)

lemma base_runtime:
  assumes "wired_base E c dumps g S" and "rt_step E (ws_runtime S) t"
    and "tasks_of S \<le> length (rt_execs t)"
  shows "wired_base E c dumps g (S\<lparr>ws_runtime := t\<rparr>)"
  using assms unfolding wired_base_def by (auto intro: reachable.step)

lemma same_task_runtime:
  "et_pc (rt_execs t ! j) = pc_of S j \<Longrightarrow> same_task m S (S\<lparr>ws_runtime := t\<rparr>) j"
  by (simp add: same_task_def llm_pending_def tool_pending_def has_ended_def)

lemma wired_kept:
  assumes i: "wired_inv E c dumps g None S" and u: "uuids_ok E" and st: "rt_step E (ws_runtime S) t"
    and k: "tasks_kept (ws_runtime S) t"
  shows "wired_inv E c dumps g None (S\<lparr>ws_runtime := t\<rparr>)"
proof (rule wired_focus [where tid = "tasks_of S", OF i])
  show "wired_base E c dumps g (S\<lparr>ws_runtime := t\<rparr>)"
    using k by (intro base_runtime [OF wired_invD(1) [OF i] st]) (simp add: tasks_kept_def)
  show "runs_kept (ws_runtime S) (ws_runtime (S\<lparr>ws_runtime := t\<rparr>))"
    using step_runs_kept [OF i u st] by simp
qed (use k in \<open>auto simp: tasks_kept_def intro: same_task_runtime\<close>)

lemma wired_new_task:
  assumes i: "wired_inv E c dumps g None S" and u: "uuids_ok E" and st: "rt_step E (ws_runtime S) t"
    and k: "new_task (ws_runtime S) t"
  shows "wired_inv E c dumps g None (S\<lparr>ws_runtime := t\<rparr>)"
  unfolding wired_inv_def
proof (intro conjI allI impI)
  let ?S = "S\<lparr>ws_runtime := t\<rparr>"
  obtain x where x: "rt_execs t = rt_execs (ws_runtime S) @ [x]" "et_pc x = Not_started"
    "rt_heap t (et_run x) \<noteq> None" using k unfolding new_task_def by blast
  note b = wired_invD(1) [OF i]
  show "wired_base E c dumps g ?S" using x(1) by (intro base_runtime [OF b st]) simp
  fix j assume j: "j < tasks_of ?S"
  show "task_ok E (nat (rc_max_attempts c)) None ?S j (pc_of ?S j)"
  proof (cases "j < tasks_of S")
    case True
    show ?thesis
    proof (rule task_ok_same [OF wired_invD(2) [OF i True]])
      show "same_task (nat (rc_max_attempts c)) S ?S j"
        using True x(1) by (intro same_task_runtime) (simp add: nth_append)
    qed (use step_runs_kept [OF i u st] True in simp_all)
  next
    case False
    then have new: "j = tasks_of S" using j x(1) by simp
    have "made (ws_askers S) j = 0" "made (ws_callers S) j = 0"
      "llm_pending S j = 0" "tool_pending S j = 0"
      by (simp_all add: new llm_pending_def tool_pending_def made_none [OF wired_baseD(6) [OF b]]
          made_none [OF wired_baseD(7) [OF b]] pending_none [OF wired_baseD(6) [OF b]]
          pending_none [OF wired_baseD(7) [OF b]])
    then show ?thesis
      using x new
      by (auto simp: task_ok_def kind_budget_def llm_pending_def tool_pending_def nth_append)
  qed
qed

text \<open>A task that awaits nothing moves, or one whose call has ended.\<close>

lemma wired_move:
  assumes i: "wired_inv E c dumps g x S" and u: "uuids_ok E" and st: "rt_step E (ws_runtime S) t"
    and at: "task_at tid pc (ws_runtime S) t" and tid: "tid < tasks_of S"
    and x: "x = None \<or> x = Some tid" and idle: "x = None \<Longrightarrow> \<not> at_llm (pc_of S tid) \<and> \<not> at_tool (pc_of S tid)"
    and pc: "\<not> at_llm pc" "\<not> at_tool pc" "kind_budget E S tid pc" "mild_at pc"
      "\<And>e. pc = Pattern_done (Inl e) \<Longrightarrow> gave_up e \<Longrightarrow> has_ended (nat (rc_max_attempts c)) S tid (Inl e)"
  shows "wired_inv E c dumps g None (S\<lparr>ws_runtime := t\<rparr>)"
proof (rule wired_focus [where tid = tid, OF i])
  let ?S = "S\<lparr>ws_runtime := t\<rparr>"
  have execs: "length (rt_execs t) = tasks_of S" "et_pc (rt_execs t ! tid) = pc"
    "\<And>j. j \<noteq> tid \<Longrightarrow> rt_execs t ! j = rt_execs (ws_runtime S) ! j"
    using at tid by (auto simp: task_at_def)
  show kept: "runs_kept (ws_runtime S) (ws_runtime ?S)" using step_runs_kept [OF i u st] by simp
  show "wired_base E c dumps g ?S" using execs(1) by (intro base_runtime [OF wired_invD(1) [OF i] st]) simp
  show "tasks_of ?S = tasks_of S" using execs(1) by simp
  show "same_task (nat (rc_max_attempts c)) S ?S j" if "j \<noteq> tid" for j
    using execs(3) [OF that] by (intro same_task_runtime) simp
  show "task_ok E (nat (rc_max_attempts c)) None ?S tid (pc_of ?S tid)"
  proof -
    note ok = wired_invD(2) [OF i tid]
    have none: "llm_pending S tid = 0" "tool_pending S tid = 0"
      using task_okD(1,2) [OF ok] x idle by auto
    have "kind_budget E ?S tid pc"
      using pc(3) kept tid unfolding kind_budget_def runs_kept_def by fastforce
    then show ?thesis
      using none pc execs(2) by (simp add: task_ok_def llm_pending_def tool_pending_def has_ended_def)
  qed
qed (use x in auto)

lemma kind_budget_mono:
  assumes "kind_budget E S tid pc" and "\<And>L T ml mt. on_budget L T ml mt pc \<Longrightarrow> on_budget L T ml mt pc'"
  shows "kind_budget E S tid pc'"
  using assms by (auto simp: kind_budget_def)

lemma plain_move_ok:
  assumes "plain_move E (ws_runtime S) tid pc pc'" and "kind_budget E S tid pc"
  shows "\<not> at_llm pc \<and> \<not> at_tool pc \<and> \<not> at_llm pc' \<and> \<not> at_tool pc' \<and> kind_budget E S tid pc' \<and> mild_at pc'
    \<and> (\<forall>r. pc' \<noteq> Pattern_done r)"
proof (cases "\<exists>c. pc' = Driving c")
  case True
  then obtain r cx where r: "rt_heap (ws_runtime S) (exec_run (ws_runtime S) tid) = Some r" "pc = Not_started"
    "pc' = Driving (pattern_run (env_codec E) (rr_kind r) cx)"
    "ctx_max_steps cx = nat (cf_max_agent_steps (env_config E))"
    using assms(1) by (auto simp: plain_move_def starts_as_def)
  have "kind_budget E S tid pc'"
    using assms(2) r within_pattern [of "rr_kind r" cx "env_codec E"] by (simp add: kind_budget_def)
  then show ?thesis using r mild_pattern by simp
next
  case False
  then obtain x where x: "pc' = Exec_done x" "pc = Not_started \<or> (\<exists>y. pc = Pattern_done y)"
    using assms(1) unfolding plain_move_def by blast
  have "kind_budget E S tid pc'" by (rule kind_budget_mono [OF assms(2)]) (use x in auto)
  then show ?thesis using x by auto
qed

lemma wired_plain:
  assumes i: "wired_inv E c dumps g None S" and u: "uuids_ok E"
    and a: "perform E a (ws_runtime S) = Some t" "\<not> touches_call a"
  shows "wired_inv E c dumps g None (S\<lparr>ws_runtime := t\<rparr>)"
proof -
  have st: "rt_step E (ws_runtime S) t" using a(1) by (rule perform_step)
  from plain_step [OF a wired_rt_inv [OF i u] wired_runs [OF i]] consider
    "tasks_kept (ws_runtime S) t" | "new_task (ws_runtime S) t"
    | tid pc where "tid < tasks_of S" "task_at tid pc (ws_runtime S) t"
        "plain_move E (ws_runtime S) tid (pc_of S tid) pc" by blast
  then show ?thesis
  proof cases
    case 3
    have "kind_budget E S tid (pc_of S tid)" using task_okD(3) [OF wired_invD(2) [OF i 3(1)]] .
    from plain_move_ok [OF 3(3) this] show ?thesis
      by (intro wired_move [OF i u st 3(2,1)]) auto
  qed (auto intro: wired_kept [OF i u st] wired_new_task [OF i u st])
qed

subsection \<open>Calls of the client\<close>

lemma call_round_moves:
  assumes "call_round now i c = Some c'"
  shows "\<exists>a p. i < length (cl_calls c) \<and> cl_calls c ! i = Acquiring a
    \<and> cl_calls c' = (cl_calls c)[i := p] \<and> (\<forall>a. p \<noteq> Acquiring a)"
  using assms
  by (auto simp: call_round_def call_at_Some split: option.splits call_pc.splits sum.splits prod.splits)

lemma call_return_moves:
  assumes "call_return now rnd i r c = Some c'"
  shows "\<exists>a p. i < length (cl_calls c) \<and> cl_calls c ! i = Calling a
    \<and> cl_calls c' = (cl_calls c)[i := p] \<and> (\<forall>a. p \<noteq> Acquiring a)
    \<and> (r = Inl CancelledError \<longrightarrow> \<not> llm_open p)"
  using assms
  by (auto simp: call_return_def call_at_Some Let_def split: option.splits call_pc.splits sum.splits if_splits)

lemma call_cancelled_moves:
  assumes "call_cancelled i c = Some c'"
  shows "\<exists>p. i < length (cl_calls c) \<and> llm_open (cl_calls c ! i)
    \<and> cl_calls c' = (cl_calls c)[i := p] \<and> (\<forall>a. p \<noteq> Acquiring a) \<and> \<not> llm_open p"
  using assms
  by (auto simp: call_cancelled_def call_at_Some split: option.splits call_pc.splits)

text \<open>A wake-up is two steps of the client, with a round in between.\<close>

lemma call_wake_round:
  assumes "Option.bind (call_wake i c) (call_round now i) = Some c'"
  shows "\<exists>p. i < length (cl_calls c) \<and> llm_open (cl_calls c ! i)
    \<and> cl_calls c' = (cl_calls c)[i := p] \<and> (\<forall>a. p \<noteq> Acquiring a)"
    and "cl_reachable rc c \<Longrightarrow> cl_reachable rc c'"
proof -
  obtain d where d: "call_wake i c = Some d" "call_round now i d = Some c'"
    using assms by (auto simp: bind_eq_Some_conv)
  have "\<exists>q. i < length (cl_calls c) \<and> llm_open (cl_calls c ! i) \<and> cl_calls d = (cl_calls c)[i := q]"
    using d(1) by (auto simp: call_wake_def call_at_Some split: option.splits call_pc.splits)
  then show "\<exists>p. i < length (cl_calls c) \<and> llm_open (cl_calls c ! i)
    \<and> cl_calls c' = (cl_calls c)[i := p] \<and> (\<forall>a. p \<noteq> Acquiring a)"
    using call_round_moves [OF d(2)] by auto
  show "cl_reachable rc c'" if "cl_reachable rc c"
    using cl_next [OF cl_next [OF that cl_step.wake [OF d(1)]] cl_step.round [OF d(2)]] .
qed

lemma has_ended_update:
  assumes "has_ended m S j r" and "llm_open (cl_calls (ws_client S) ! i)"
    and "cl_calls c' = (cl_calls (ws_client S))[i := p]"
  shows "has_ended m (S\<lparr>ws_client := c'\<rparr>) j r"
  using assms unfolding has_ended_def
  by (metis length_list_update llm_open.simps(1) nth_list_update_neq wired.select_convs(2,4) wired.update_convs(2)
      wired.surjective)

lemma wired_call:
  assumes i: "wired_inv E c dumps g None S" and r: "cl_reachable c c'"
    and n: "n < length (cl_calls (ws_client S))" "llm_open (cl_calls (ws_client S) ! n)"
    and c': "cl_calls c' = (cl_calls (ws_client S))[n := p]" "\<forall>a. p \<noteq> Acquiring a"
  shows "wired_inv E c dumps g (if llm_open p then None else Some (ws_askers S ! n)) (S\<lparr>ws_client := c'\<rparr>)"
    and "at_llm (pc_of S (ws_askers S ! n))" and "ws_askers S ! n < tasks_of S"
proof -
  let ?t = "ws_askers S ! n" and ?S = "S\<lparr>ws_client := c'\<rparr>"
  note b = wired_invD(1) [OF i]
  note len = wired_baseD(4) [OF b]
  show t: "?t < tasks_of S" using wired_baseD(6) [OF b] n(1) len by simp
  note ok = wired_invD(2) [OF i t]
  have moved: "llm_pending ?S j + (if ?t = j then 1 else 0) =
      llm_pending S j + (if ?t = j \<and> llm_open p then 1 else 0)" for j
    using pending_move [OF len n(1), of llm_open p j] n(2) by (simp add: llm_pending_def c'(1))
  have "0 < llm_pending S ?t" using n len by (auto simp: llm_pending_def pending_pos)
  then show pc: "at_llm (pc_of S ?t)" using task_okD(1) [OF ok] by (simp split: if_splits)
  have rest: "tool_pending ?S = tool_pending S" by (simp add: tool_pending_def fun_eq_iff)
  have base: "wired_base E c dumps g ?S"
    using b r c' unfolding wired_base_def
    by (auto dest: set_update_subset_insert [THEN subsetD])
  show "wired_inv E c dumps g (if llm_open p then None else Some ?t) ?S"
  proof (rule wired_focus [where tid = ?t, OF i])
    show "same_task (nat (rc_max_attempts c)) S ?S j" if "j \<noteq> ?t" for j
      using moved [of j] that rest has_ended_update [OF _ n(2) c'(1)] by (auto simp: same_task_def)
    show "task_ok E (nat (rc_max_attempts c)) (if llm_open p then None else Some ?t) ?S ?t (pc_of ?S ?t)"
    proof -
      have "\<not> at_tool (pc_of S ?t)" "\<forall>e. pc_of S ?t \<noteq> Pattern_done (Inl e)" using pc by (cases "pc_of S ?t"; simp)+
      then show ?thesis
        using ok pc moved [of ?t] unfolding task_ok_def rest kind_budget_def by (simp split: if_splits)
    qed
  qed (use base in auto)
qed

text \<open>The result of a call that has ended goes to its task.\<close>

lemma exec_atD: "exec_at s tid = Some pc \<Longrightarrow> tid < length (rt_execs s) \<and> et_pc (rt_execs s ! tid) = pc"
  by (simp add: exec_at_def split: if_splits)

lemma resumed_off_call [simp]: "\<not> at_llm (resumed k r)" "\<not> at_tool (resumed k r)"
  by (simp_all add: resumed_def split: sum.split)

lemma resumed_budget:
  assumes "kind_budget E S tid pc" and "pc = At_llm st k b \<or> pc = At_tool st k' b"
  shows "pc = At_llm st k b \<Longrightarrow> kind_budget E S tid (resumed k r)"
    and "pc = At_tool st k' b \<Longrightarrow> kind_budget E S tid (resumed k' r')"
  using assms(1) by (auto simp: kind_budget_def resumed_def split: sum.split)

lemma resumed_mild:
  "mild_at (At_llm st k b) \<Longrightarrow> mild_at (resumed k r)" "mild_at (At_tool st k' b) \<Longrightarrow> mild_at (resumed k' r')"
  by (auto simp: resumed_def split: sum.split)

lemma call_done_used_up:
  assumes "cl_reachable c s" and "n < length (cl_calls s)" "cl_calls s ! n = Call_done a (Inl e)" and "gave_up e"
  shows "a = nat (rc_max_attempts c)"
  using client_ok_reachable [OF assms(1)] nth_mem [OF assms(2)] assms(3,4) unfolding client_ok_def by fastforce

lemma wired_llm_settle:
  assumes i: "wired_inv E c dumps g (if llm_open (cl_calls (ws_client S) ! n) then None else Some (ws_askers S ! n)) S"
    and u: "uuids_ok E" and n: "n < length (cl_calls (ws_client S))" and s: "llm_settle E now n S = Some S'"
  shows "wired_inv E c dumps g None S'"
proof (cases "cl_calls (ws_client S) ! n")
  case (Call_done a r)
  let ?t = "ws_askers S ! n"
  note b = wired_invD(1) [OF i]
  obtain t where t: "llm_return E now ?t r (ws_runtime S) = Some t" "S' = S\<lparr>ws_runtime := t\<rparr>"
    using s n Call_done by (auto simp: llm_settle_def call_at_def)
  obtain st k d where at: "exec_at (ws_runtime S) ?t = Some (At_llm st k d)"
    using t(1) by (auto simp: llm_return_def split: option.splits exec_pc.splits)
  note tid = exec_atD [OF at]
  have inv: "wired_inv E c dumps g (Some ?t) S" using i Call_done by simp
  note ok = wired_invD(2) [OF inv tid [THEN conjunct1], unfolded tid [THEN conjunct2]]
  show ?thesis unfolding t(2)
  proof (rule wired_move [OF inv u rt_step.llm_return [OF t(1)] llm_return_at [OF t(1) at]])
    show "kind_budget E S ?t (resumed k r)" using resumed_budget(1) [OF task_okD(3) [OF ok]] by blast
    show "mild_at (resumed k r)" using task_okD(4) [OF ok] by (rule resumed_mild)
    show "has_ended (nat (rc_max_attempts c)) S ?t (Inl e)" if "resumed k r = Pattern_done (Inl e)" "gave_up e" for e
    proof -
      have "r = Inl e" using that(1) by (simp add: resumed_def split: sum.splits)
      then show ?thesis
        using Call_done n wired_baseD(4) [OF b] call_done_used_up [OF wired_baseD(2) [OF b] n _ that(2)]
        by (auto simp: has_ended_def)
    qed
  qed (use tid in simp_all)
qed (use i s n in \<open>auto simp: llm_settle_def call_at_def\<close>)

text \<open>Steps of a call, from outside.\<close>

lemma wired_llm_step:
  assumes i: "wired_inv E c dumps g None S" and u: "uuids_ok E" and r: "cl_reachable c c'"
    and m: "n < length (cl_calls (ws_client S))" "llm_open (cl_calls (ws_client S) ! n)"
      "cl_calls c' = (cl_calls (ws_client S))[n := p]" "\<forall>a. p \<noteq> Acquiring a"
    and s: "llm_settle E now n (S\<lparr>ws_client := c'\<rparr>) = Some S'"
  shows "wired_inv E c dumps g None S'"
proof (rule wired_llm_settle [OF _ u _ s])
  show "wired_inv E c dumps g (if llm_open (cl_calls (ws_client (S\<lparr>ws_client := c'\<rparr>)) ! n) then None
      else Some (ws_askers (S\<lparr>ws_client := c'\<rparr>) ! n)) (S\<lparr>ws_client := c'\<rparr>)"
    using wired_call(1) [OF i r m] m(1,3) by (cases "llm_open p") simp_all
qed (use m(1,3) in simp)

lemma wired_llm_wake:
  assumes i: "wired_inv E c dumps g None S" and u: "uuids_ok E" and s: "llm_wake E now n S = Some S'"
  shows "wired_inv E c dumps g None S'"
proof -
  obtain c' where c': "Option.bind (call_wake n (ws_client S)) (call_round now n) = Some c'"
    "llm_settle E now n (S\<lparr>ws_client := c'\<rparr>) = Some S'"
    using s by (auto simp: llm_wake_def split: option.splits)
  have "cl_reachable c c'" by (rule call_wake_round(2) [OF c'(1) wired_baseD(2) [OF wired_invD(1) [OF i]]])
  then show ?thesis using call_wake_round(1) [OF c'(1)] wired_llm_step [OF i u _ _ _ _ _ c'(2)] by blast
qed

lemma wired_llm_answer:
  assumes i: "wired_inv E c dumps g None S" and u: "uuids_ok E" and s: "llm_answer E now rnd n r S = Some S'"
  shows "wired_inv E c dumps g None S'"
proof -
  obtain c' where c': "call_return now rnd n r (ws_client S) = Some c'"
    "llm_settle E now n (S\<lparr>ws_client := c'\<rparr>) = Some S'"
    using s by (auto simp: llm_answer_def split: option.splits if_splits)
  have "cl_reachable c c'"
    by (rule cl_next [OF wired_baseD(2) [OF wired_invD(1) [OF i]] cl_step.return [OF c'(1)]])
  moreover obtain a p where "n < length (cl_calls (ws_client S))" "cl_calls (ws_client S) ! n = Calling a"
    "cl_calls c' = (cl_calls (ws_client S))[n := p]" "\<forall>a. p \<noteq> Acquiring a"
    using call_return_moves [OF c'(1)] by blast
  ultimately show ?thesis using wired_llm_step [OF i u _ _ _ _ _ c'(2)] by simp
qed

text \<open>A call is made.\<close>

lemma wired_llm_ask:
  assumes i: "wired_inv E c dumps g None S" and u: "uuids_ok E" and st: "rt_step E (ws_runtime S) t"
    and pc: "exec_at (ws_runtime S) tid = Some (Driving (Complete req sp k))"
    and at: "task_at tid (At_llm sp k b) (ws_runtime S) t"
    and s: "llm_ask E now tid (S\<lparr>ws_runtime := t\<rparr>) = Some S'"
  shows "wired_inv E c dumps g None S'"
proof -
  let ?n = "length (cl_calls (ws_client S))"
  note base = wired_invD(1) [OF i] and tid = exec_atD [OF pc]
  note len = wired_baseD(4) [OF base]
  obtain c' where c': "call_round now ?n (call_begin (ws_client S)) = Some c'"
    and s': "llm_settle E now ?n (S\<lparr>ws_runtime := t, ws_client := c', ws_askers := ws_askers S @ [tid]\<rparr>) = Some S'"
    using s by (auto simp: llm_ask_def Let_def split: option.splits)
  let ?S = "S\<lparr>ws_runtime := t, ws_client := c', ws_askers := ws_askers S @ [tid]\<rparr>"
  obtain p where p: "cl_calls c' = cl_calls (ws_client S) @ [p]" "\<forall>a. p \<noteq> Acquiring a"
    using call_round_moves [OF c'] by (auto simp: call_begin_def)
  have r: "cl_reachable c c'"
    by (rule cl_next [OF cl_next [OF wired_baseD(2) [OF base] cl_step.begin_call] cl_step.round [OF c']])
  have execs: "length (rt_execs t) = tasks_of S" "et_pc (rt_execs t ! tid) = At_llm sp k b"
    "\<And>j. j \<noteq> tid \<Longrightarrow> rt_execs t ! j = rt_execs (ws_runtime S) ! j"
    using at tid by (auto simp: task_at_def)
  note kept = step_runs_kept [OF i u st]
  note ok = wired_invD(2) [OF i tid [THEN conjunct1], unfolded tid [THEN conjunct2]]
  have pend: "llm_pending ?S j = llm_pending S j + (if tid = j \<and> llm_open p then 1 else 0)" for j
    using len by (simp add: llm_pending_def p(1))
  have ended: "has_ended m ?S j x" if "has_ended m S j x" for m j x
    using that len by (auto simp: has_ended_def p(1) nth_append intro: less_SucI)
  have rest: "tool_pending ?S = tool_pending S" by (simp add: tool_pending_def fun_eq_iff)
  have "wired_base E c dumps g ?S"
    using base_runtime [OF base st] r execs(1) p(2) tid unfolding wired_base_def by (auto simp: p(1))
  moreover have "same_task m S ?S j" if "j \<noteq> tid" for m j
    using that pend [of j] execs(3) [OF that] ended rest by (simp add: same_task_def)
  moreover have "task_ok E m (if llm_open p then None else Some tid) ?S tid (pc_of ?S tid)" for m
  proof -
    have "kind_budget E ?S tid (At_llm sp k b)"
      using task_okD(3) [OF ok] kept tid unfolding kind_budget_def runs_kept_def
      by (fastforce simp: Suc_le_eq)
    then show ?thesis
      using task_okD(1,2,4) [OF ok] pend [of tid] rest execs(2) by (simp add: task_ok_def)
  qed
  ultimately have inv: "wired_inv E c dumps g (if llm_open p then None else Some tid) ?S"
    using kept execs(1) by (intro wired_focus [where tid = tid, OF i]) auto
  show ?thesis
    by (rule wired_llm_settle [OF _ u _ s'])
      (use inv len in \<open>cases "llm_open p"; simp add: p(1) nth_append\<close>)+
qed

end
