(* ===== verification/Wired_Tools.thy ===== *)
theory Wired_Tools
  imports Wired_Steps
begin

section \<open>Tool calls and interruptions keep the invariant\<close>

text \<open>
  The steps of the registry and the interruptions of tasks, and with them every action of the wired
  system. The registry never reports a transient error of the model, provided that \<open>json.dumps\<close> does
  not raise one.
\<close>

subsection \<open>What the registry answers\<close>

definition registry_mild :: "registry \<Rightarrow> bool" where
  "registry_mild g \<longleftrightarrow> (\<forall>name e. Finished name (Inl e) \<in> set (rg_calls g) \<longrightarrow> \<not> gave_up e)"

definition dumps_mild :: "(pyval \<Rightarrow> exn + string) \<Rightarrow> bool" where
  "dumps_mild dumps \<longleftrightarrow> (\<forall>v e. dumps v = Inl e \<longrightarrow> \<not> gave_up e)"

lemma tool_errors_mild:
  "is_tool_error e \<Longrightarrow> \<not> gave_up e" "\<not> gave_up (ToolError m)" "\<not> gave_up (ToolNotFoundError m)"
  by (cases e; simp add: gave_up_def) (simp_all add: gave_up_def)

lemma outcome_mild: "dumps_mild dumps \<Longrightarrow> tool_outcome dumps name r = Inl e \<Longrightarrow> \<not> gave_up e"
  by (auto simp: tool_outcome_def dumps_mild_def tool_errors_mild split: sum.splits pyval.splits if_splits)

lemma registry_mild_update:
  assumes "registry_mild g" and "rg_calls g' = (rg_calls g)[i := x]"
    and "\<And>name e. x = Finished name (Inl e) \<Longrightarrow> \<not> gave_up e"
  shows "registry_mild g'"
  using assms set_update_subset_insert [of "rg_calls g" i x] unfolding registry_mild_def by auto

lemma exec_enter_moves:
  "exec_enter i g = Some g' \<Longrightarrow> \<exists>x. i < length (rg_calls g) \<and> tool_open (rg_calls g ! i)
     \<and> rg_calls g' = (rg_calls g)[i := x] \<and> tool_open x"
  by (auto simp: exec_enter_def split: if_splits exec_state.splits)

lemma exec_end_moves:
  "exec_end dumps i r g = Some g' \<Longrightarrow> \<exists>name. i < length (rg_calls g) \<and> tool_open (rg_calls g ! i)
     \<and> rg_calls g' = (rg_calls g)[i := Finished name (tool_outcome dumps name r)]"
  by (auto simp: exec_end_def split: if_splits exec_state.splits sum.splits)

lemma exec_abandon_moves:
  "exec_abandon i g = Some g' \<Longrightarrow> \<exists>name. i < length (rg_calls g) \<and> tool_open (rg_calls g ! i)
     \<and> rg_calls g' = (rg_calls g)[i := Finished name (Inl CancelledError)]"
  by (auto simp: exec_abandon_def split: if_splits exec_state.splits)

lemma tool_exec_mild:
  assumes d: "dumps_mild dumps" and g: "registry_mild g"
  shows "registry_mild (tool_exec dumps op g)"
proof -
  have enter: "registry_mild g'" if h: "exec_enter i g = Some g'" for i g'
  proof -
    obtain x where x: "rg_calls g' = (rg_calls g)[i := x]" "tool_open x" using exec_enter_moves [OF h] by blast
    show ?thesis by (rule registry_mild_update [OF g x(1)]) (use x(2) in auto)
  qed
  have ending: "registry_mild g'" if h: "exec_end dumps i r g = Some g'" for i r g'
  proof -
    obtain n where x: "rg_calls g' = (rg_calls g)[i := Finished n (tool_outcome dumps n r)]"
      using exec_end_moves [OF h] by blast
    show ?thesis by (rule registry_mild_update [OF g x]) (use outcome_mild [OF d] in auto)
  qed
  have abandon: "registry_mild g'" if h: "exec_abandon i g = Some g'" for i g'
  proof -
    obtain n where x: "rg_calls g' = (rg_calls g)[i := Finished n (Inl CancelledError)]"
      using exec_abandon_moves [OF h] by blast
    show ?thesis by (rule registry_mild_update [OF g x]) auto
  qed
  show ?thesis
  proof (cases op)
    case (T_register n dd a m t)
    then show ?thesis using g by (simp add: tool_register_def registry_mild_def)
  next
    case (T_begin n args)
    then show ?thesis
      using g by (auto simp: exec_begin_def registry_mild_def tool_errors_mild split: option.splits pyval.splits)
  next
    case T_close
    then show ?thesis using g by (simp add: registry_close_def registry_mild_def)
  qed (use g enter ending abandon in \<open>auto split: option.split\<close>)
qed

lemma tools_mild:
  assumes "dumps_mild dumps" and "registry_mild g" and "wired_base E c dumps g S"
  shows "registry_mild (ws_tools S)"
proof -
  have "registry_mild (fold (tool_exec dumps) ops h)" if "registry_mild h" for ops h
    using that by (induction ops arbitrary: h) (simp_all add: tool_exec_mild [OF assms(1)])
  then show ?thesis using wired_baseD(3) [OF assms(3)] assms(2) by auto
qed

text \<open>The base keeps track of the registry's operations.\<close>

lemma base_tools:
  assumes "wired_base E c dumps g S" and "length (rg_calls (tool_exec dumps op (ws_tools S))) = length (rg_calls (ws_tools S))"
  shows "wired_base E c dumps g (S\<lparr>ws_tools := tool_exec dumps op (ws_tools S)\<rparr>)"
proof -
  obtain ops where "ws_tools S = fold (tool_exec dumps) ops g" using wired_baseD(3) [OF assms(1)] by blast
  then have "\<exists>ops. tool_exec dumps op (ws_tools S) = fold (tool_exec dumps) ops g"
    by (intro exI [of _ "ops @ [op]"]) simp
  then show ?thesis using assms unfolding wired_base_def by simp
qed

subsection \<open>Calls of the registry\<close>

lemma wired_tool_call:
  assumes i: "wired_inv E c dumps g None S" and g': "g' = tool_exec dumps op (ws_tools S)"
    and n: "n < length (rg_calls (ws_tools S))" "tool_open (rg_calls (ws_tools S) ! n)"
    and c': "rg_calls g' = (rg_calls (ws_tools S))[n := p]"
  shows "wired_inv E c dumps g (if tool_open p then None else Some (ws_callers S ! n)) (S\<lparr>ws_tools := g'\<rparr>)"
proof -
  let ?t = "ws_callers S ! n" and ?S = "S\<lparr>ws_tools := g'\<rparr>"
  note b = wired_invD(1) [OF i]
  note len = wired_baseD(5) [OF b]
  have t: "?t < tasks_of S" using wired_baseD(7) [OF b] n(1) len by simp
  note ok = wired_invD(2) [OF i t]
  have moved: "tool_pending ?S j + (if ?t = j then 1 else 0) =
      tool_pending S j + (if ?t = j \<and> tool_open p then 1 else 0)" for j
    using pending_move [OF len n(1), of tool_open p j] n(2) by (simp add: tool_pending_def c')
  have "0 < tool_pending S ?t" using n len by (auto simp: tool_pending_def pending_pos)
  then have pc: "at_tool (pc_of S ?t)" using task_okD(2) [OF ok] by (simp split: if_splits)
  have rest: "llm_pending ?S = llm_pending S" by (simp add: llm_pending_def fun_eq_iff)
  have ended: "has_ended m ?S = has_ended m S" for m by (simp add: has_ended_def fun_eq_iff)
  have base: "wired_base E c dumps g ?S"
    using base_tools [OF b, of op] c' by (simp add: g')
  show "wired_inv E c dumps g (if tool_open p then None else Some ?t) ?S"
  proof (rule wired_focus [where tid = ?t, OF i])
    show "same_task (nat (rc_max_attempts c)) S ?S j" if "j \<noteq> ?t" for j
      using moved [of j] that rest ended by (auto simp: same_task_def)
    show "task_ok E (nat (rc_max_attempts c)) (if tool_open p then None else Some ?t) ?S ?t (pc_of ?S ?t)"
    proof -
      have "\<not> at_llm (pc_of S ?t)" "\<forall>e. pc_of S ?t \<noteq> Pattern_done (Inl e)" using pc by (cases "pc_of S ?t"; simp)+
      then show ?thesis
        using ok pc moved [of ?t] unfolding task_ok_def rest kind_budget_def by (simp split: if_splits)
    qed
  qed (use base in auto)
qed

lemma wired_tool_settle:
  assumes i: "wired_inv E c dumps g (if tool_open (rg_calls (ws_tools S) ! n) then None else Some (ws_callers S ! n)) S"
    and u: "uuids_ok E" and d: "dumps_mild dumps" "registry_mild g"
    and n: "n < length (rg_calls (ws_tools S))" and s: "tool_settle E now n S = Some S'"
  shows "wired_inv E c dumps g None S'"
proof (cases "rg_calls (ws_tools S) ! n")
  case (Finished name r)
  let ?t = "ws_callers S ! n"
  obtain t where t: "tool_return E now ?t r (ws_runtime S) = Some t" "S' = S\<lparr>ws_runtime := t\<rparr>"
    using s Finished by (auto simp: tool_settle_def)
  obtain st k b where at: "exec_at (ws_runtime S) ?t = Some (At_tool st k b)"
    using t(1) by (auto simp: tool_return_def split: option.splits exec_pc.splits)
  note tid = exec_atD [OF at]
  have inv: "wired_inv E c dumps g (Some ?t) S" using i Finished by simp
  note ok = wired_invD(2) [OF inv tid [THEN conjunct1], unfolded tid [THEN conjunct2]]
  have mild: "\<not> gave_up e" if "r = Inl e" for e
    using tools_mild [OF d wired_invD(1) [OF inv]] nth_mem [OF n] Finished that by (auto simp: registry_mild_def)
  show ?thesis unfolding t(2)
  proof (rule wired_move [OF inv u rt_step.tool_return [OF t(1)] tool_return_at [OF t(1) at]])
    show "kind_budget E S ?t (resumed k r)" using resumed_budget(2) [OF task_okD(3) [OF ok]] by blast
    show "mild_at (resumed k r)" using task_okD(4) [OF ok] by (rule resumed_mild)
    show "has_ended (nat (rc_max_attempts c)) S ?t (Inl e)" if "resumed k r = Pattern_done (Inl e)" "gave_up e" for e
      using that mild by (simp add: resumed_def split: sum.splits)
  qed (use tid in simp_all)
qed (use i s in \<open>auto simp: tool_settle_def\<close>)

lemma wired_tool_enter:
  assumes i: "wired_inv E c dumps g None S" and s: "tool_enter n S = Some S'"
  shows "wired_inv E c dumps g None S'"
proof -
  obtain g' where g': "exec_enter n (ws_tools S) = Some g'" "S' = S\<lparr>ws_tools := g'\<rparr>"
    using s by (auto simp: tool_enter_def)
  have "g' = tool_exec dumps (T_enter n) (ws_tools S)" using g'(1) by simp
  from wired_tool_call [OF i this] exec_enter_moves [OF g'(1)] show ?thesis unfolding g'(2) by fastforce
qed

lemma wired_tool_answer:
  assumes i: "wired_inv E c dumps g None S" and u: "uuids_ok E" and d: "dumps_mild dumps" "registry_mild g"
    and s: "tool_answer E dumps now n r S = Some S'"
  shows "wired_inv E c dumps g None S'"
proof -
  obtain g' where g': "exec_end dumps n r (ws_tools S) = Some g'"
    and s': "tool_settle E now n (S\<lparr>ws_tools := g'\<rparr>) = Some S'"
    using s by (auto simp: tool_answer_def split: option.splits if_splits)
  obtain name where m: "n < length (rg_calls (ws_tools S))" "tool_open (rg_calls (ws_tools S) ! n)"
    "rg_calls g' = (rg_calls (ws_tools S))[n := Finished name (tool_outcome dumps name r)]"
    using exec_end_moves [OF g'] by blast
  have "g' = tool_exec dumps (T_end n r) (ws_tools S)" using g' by simp
  from wired_tool_call [OF i this m] show ?thesis
    by (intro wired_tool_settle [OF _ u d _ s']) (use m in simp_all)
qed

lemma tool_ask_table:
  "\<exists>p ops. rg_calls (case exec_enter (length (rg_calls g)) (exec_begin name args g) of
        Some g' \<Rightarrow> g' | None \<Rightarrow> exec_begin name args g) = rg_calls g @ [p]
    \<and> (case exec_enter (length (rg_calls g)) (exec_begin name args g) of
        Some g' \<Rightarrow> g' | None \<Rightarrow> exec_begin name args g) = fold (tool_exec dumps) ops g"
proof -
  let ?n = "length (rg_calls g)" and ?g = "exec_begin name args g"
  obtain p where p: "rg_calls ?g = rg_calls g @ [p]" by (auto simp: exec_begin_def)
  show ?thesis
  proof (cases "exec_enter ?n ?g")
    case None
    then show ?thesis using p by (intro exI [of _ p] exI [of _ "[T_begin name args]"]) simp
  next
    case (Some g')
    obtain x where "rg_calls g' = rg_calls g @ [x]" using exec_enter_moves [OF Some] p by auto
    then show ?thesis
      using Some by (intro exI [of _ x] exI [of _ "[T_begin name args, T_enter ?n]"]) simp
  qed
qed

lemma wired_tool_ask:
  assumes i: "wired_inv E c dumps g None S" and u: "uuids_ok E" and d: "dumps_mild dumps" "registry_mild g"
    and st: "rt_step E (ws_runtime S) t"
    and pc: "exec_at (ws_runtime S) tid = Some (Driving (Execute_tool name args sp k))"
    and at: "task_at tid (At_tool name k b) (ws_runtime S) t"
    and s: "tool_ask E now tid name args (S\<lparr>ws_runtime := t\<rparr>) = Some S'"
  shows "wired_inv E c dumps g None S'"
proof -
  let ?n = "length (rg_calls (ws_tools S))"
  note base = wired_invD(1) [OF i] and tid = exec_atD [OF pc]
  note len = wired_baseD(5) [OF base]
  obtain g' p ops where g': "rg_calls g' = rg_calls (ws_tools S) @ [p]"
    "g' = fold (tool_exec dumps) ops (ws_tools S)"
    and s': "tool_settle E now ?n (S\<lparr>ws_runtime := t, ws_tools := g', ws_callers := ws_callers S @ [tid]\<rparr>) = Some S'"
    using s tool_ask_table [where g = "ws_tools S" and name = name and args = "PDict args" and dumps = dumps] by (auto simp: tool_ask_def Let_def)
  let ?S = "S\<lparr>ws_runtime := t, ws_tools := g', ws_callers := ws_callers S @ [tid]\<rparr>"
  have execs: "length (rt_execs t) = tasks_of S" "et_pc (rt_execs t ! tid) = At_tool name k b"
    "\<And>j. j \<noteq> tid \<Longrightarrow> rt_execs t ! j = rt_execs (ws_runtime S) ! j"
    using at tid by (auto simp: task_at_def)
  note kept = step_runs_kept [OF i u st]
  note ok = wired_invD(2) [OF i tid [THEN conjunct1], unfolded tid [THEN conjunct2]]
  have pend: "tool_pending ?S j = tool_pending S j + (if tid = j \<and> tool_open p then 1 else 0)" for j
    using len by (simp add: tool_pending_def g'(1))
  have rest: "llm_pending ?S = llm_pending S" "\<And>m. has_ended m ?S = has_ended m S"
    by (simp_all add: llm_pending_def has_ended_def fun_eq_iff)
  obtain ops0 where "ws_tools S = fold (tool_exec dumps) ops0 g" using wired_baseD(3) [OF base] by blast
  then have "g' = fold (tool_exec dumps) (ops0 @ ops) g" by (simp add: g'(2))
  then have "\<exists>ops. g' = fold (tool_exec dumps) ops g" by blast
  then have "wired_base E c dumps g ?S"
    using base_runtime [OF base st] execs(1) tid g'(1) unfolding wired_base_def by simp
  moreover have "same_task m S ?S j" if "j \<noteq> tid" for m j
    using that pend [of j] execs(3) [OF that] rest by (simp add: same_task_def)
  moreover have "task_ok E m (if tool_open p then None else Some tid) ?S tid (pc_of ?S tid)" for m
  proof -
    have "kind_budget E ?S tid (At_tool name k b)"
      using task_okD(3) [OF ok] kept tid unfolding kind_budget_def runs_kept_def
      by (fastforce simp: Suc_le_eq)
    then show ?thesis
      using task_okD(1,2,4) [OF ok] pend [of tid] rest execs(2) by (simp add: task_ok_def)
  qed
  ultimately have inv: "wired_inv E c dumps g (if tool_open p then None else Some tid) ?S"
    using kept execs(1) by (intro wired_focus [where tid = tid, OF i]) auto
  show ?thesis
    by (rule wired_tool_settle [OF _ u d _ s'])
      (use inv len in \<open>cases "tool_open p"; simp add: g'(1) nth_append\<close>)+
qed

subsection \<open>Interruptions\<close>

lemma wired_llm_stop:
  assumes i: "wired_inv E c dumps g None S" and tid: "tid < tasks_of S" and at: "at_llm (pc_of S tid)"
  shows "wired_inv E c dumps g (Some tid) (llm_stop now tid S)"
proof -
  note b = wired_invD(1) [OF i]
  have "pending llm_open (ws_askers S) (cl_calls (ws_client S)) tid = 1"
    using task_okD(1) [OF wired_invD(2) [OF i tid]] at by (simp add: llm_pending_def)
  then obtain n where n: "open_call llm_open (ws_askers S) (cl_calls (ws_client S)) tid = Some n"
    using open_call_None [of llm_open "ws_askers S" "cl_calls (ws_client S)" tid] by fastforce
  note o = open_call_Some [OF n]
  have settle: "wired_inv E c dumps g (Some tid) (S\<lparr>ws_client := c'\<rparr>)"
    if "cl_step (ws_client S) c'" "cl_calls c' = (cl_calls (ws_client S))[n := p]" "\<forall>a. p \<noteq> Acquiring a"
      "\<not> llm_open p" for c' p
    using wired_call(1) [OF i cl_next [OF wired_baseD(2) [OF b] that(1)] _ _ that(2,3)] o that(4) by simp
  show ?thesis
  proof (cases "call_return now 0 n (Inl CancelledError) (ws_client S)")
    case (Some c')
    then show ?thesis
      using n call_return_moves [OF Some] settle [OF cl_step.return [OF Some]] by (auto simp: llm_stop_def)
  next
    case None
    have "cl_calls (ws_client S) ! n \<noteq> Acquiring a" for a using wired_baseD(8) [OF b] o by (metis nth_mem)
    then obtain c' where c': "call_cancelled n (ws_client S) = Some c'"
      using None o
      by (cases "cl_calls (ws_client S) ! n") (auto simp: call_return_def call_cancelled_def call_at_def)
    then show ?thesis
      using n None call_cancelled_moves [OF c'] settle [OF cl_step.cancelled [OF c']] by (auto simp: llm_stop_def)
  qed
qed

lemma wired_tool_stop:
  assumes i: "wired_inv E c dumps g None S" and tid: "tid < tasks_of S" and at: "at_tool (pc_of S tid)"
  shows "wired_inv E c dumps g (Some tid) (tool_stop dumps tid S)"
proof -
  have "pending tool_open (ws_callers S) (rg_calls (ws_tools S)) tid = 1"
    using task_okD(2) [OF wired_invD(2) [OF i tid]] at by (simp add: tool_pending_def)
  then obtain n where n: "open_call tool_open (ws_callers S) (rg_calls (ws_tools S)) tid = Some n"
    using open_call_None [of tool_open "ws_callers S" "rg_calls (ws_tools S)" tid] by fastforce
  note o = open_call_Some [OF n]
  have settle: "wired_inv E c dumps g (Some tid) (S\<lparr>ws_tools := g'\<rparr>)"
    if "g' = tool_exec dumps op (ws_tools S)" "rg_calls g' = (rg_calls (ws_tools S))[n := Finished name r]" for g' op name r
    using wired_tool_call [OF i that(1) _ _ that(2)] o by simp
  show ?thesis
  proof (cases "exec_end dumps n (Inl CancelledError) (ws_tools S)")
    case (Some g')
    then show ?thesis
      using n exec_end_moves [OF Some] settle [of g' "T_end n (Inl CancelledError)"] by (auto simp: tool_stop_def)
  next
    case None
    then obtain g' where g': "exec_abandon n (ws_tools S) = Some g'"
      using o by (cases "rg_calls (ws_tools S) ! n") (auto simp: exec_end_def exec_abandon_def)
    then show ?thesis
      using n None exec_abandon_moves [OF g'] settle [of g' "T_abandon n"] by (auto simp: tool_stop_def)
  qed
qed

lemma stop_runtime [simp]: "ws_runtime (wired_stop dumps now tid S) = ws_runtime S"
  by (simp add: wired_stop_def llm_stop_def tool_stop_def split: option.split exec_pc.split)

lemma wired_interrupted:
  assumes i: "wired_inv E c dumps g None S" and u: "uuids_ok E"
    and f: "f (ws_runtime S) = Some t" "rt_step E (ws_runtime S) t" "task_at tid (Exec_done r) (ws_runtime S) t"
    and tid: "tid < tasks_of S" and s: "wired_interrupt dumps now tid f S = Some S'"
  shows "wired_inv E c dumps g None S'"
proof -
  let ?S = "wired_stop dumps now tid S"
  let ?x = "if at_llm (pc_of S tid) \<or> at_tool (pc_of S tid) then Some tid else None"
  have s': "S' = ?S\<lparr>ws_runtime := t\<rparr>" using s f(1) by (auto simp: wired_interrupt_def)
  have inv: "wired_inv E c dumps g ?x ?S"
    using i tid wired_llm_stop [OF i tid] wired_tool_stop [OF i tid]
    by (cases "pc_of S tid") (auto simp: wired_stop_def exec_at_def)
  have n: "tid < tasks_of ?S" using tid by simp
  note ok = wired_invD(2) [OF inv n]
  show ?thesis unfolding s'
  proof (rule wired_move [OF inv u _ _ n])
    show "kind_budget E ?S tid (Exec_done r)"
      using task_okD(3) [OF ok] by (rule kind_budget_mono) (use on_budget_le in auto)
  qed (use f in auto)
qed

lemma wired_close_end_ok:
  assumes i: "wired_inv E c dumps g None S" and u: "uuids_ok E" and s: "wired_close_end S = Some S'"
  shows "wired_inv E c dumps g None S'"
proof -
  obtain t where t: "close_end (ws_runtime S) = Some t"
    "S' = S\<lparr>ws_runtime := t, ws_tools := registry_close (ws_tools S)\<rparr>"
    using s by (auto simp: wired_close_end_def)
  let ?S = "S\<lparr>ws_runtime := t\<rparr>"
  have "tasks_kept (ws_runtime S) t" using t(1) by (auto simp: close_end_def intro: tasks_kept_same split: if_splits)
  then have inv: "wired_inv E c dumps g None ?S" by (rule wired_kept [OF i u rt_step.close_end [OF t(1)]])
  have calls: "rg_calls (registry_close h) = rg_calls h" for h by (simp add: registry_close_def)
  have base: "wired_base E c dumps g S'"
    using base_tools [OF wired_invD(1) [OF inv], of T_close] by (simp add: t(2) calls)
  show ?thesis
  proof (rule wired_focus [where tid = "tasks_of ?S", OF inv])
    show "same_task m ?S S' j" for m j
      by (simp add: t(2) same_task_def llm_pending_def tool_pending_def has_ended_def calls)
  qed (use base t(2) in auto)
qed

subsection \<open>Every action\<close>

lemma interrupt_task:
  assumes "interrupt E now tid e s = Some t"
  shows "tid < length (rt_execs s)" and "\<exists>r. task_at tid (Exec_done r) s t"
  using assms task_at_interrupt [OF assms] by (auto simp: interrupt_def exec_at_def split: if_splits)

lemma wired_drive_ok:
  assumes i: "wired_inv E c dumps g None S" and u: "uuids_ok E" and d: "dumps_mild dumps" "registry_mild g"
    and s: "wired_drive E now tid S = Some S'"
  shows "wired_inv E c dumps g None S'"
proof -
  obtain t where t: "exec_drive E now tid (ws_runtime S) = Some t"
    using s by (auto simp: wired_drive_def split: option.splits)
  have st: "rt_step E (ws_runtime S) t" using t by (rule rt_step.exec_drive)
  have at: "exec_at t tid = Some pc" if "task_at tid pc (ws_runtime S) t" "exec_at (ws_runtime S) tid = Some pc0" for pc pc0
    using that by (auto simp: task_at_def exec_at_def split: if_splits)
  from t show ?thesis
  proof (cases rule: drive_cases)
    case (llm req sp k b)
    then have "llm_ask E now tid (S\<lparr>ws_runtime := t\<rparr>) = Some S'"
      using s t at [OF llm(2,1)] by (simp add: wired_drive_def)
    then show ?thesis by (rule wired_llm_ask [OF i u st llm])
  next
    case (tool name args sp k b)
    then have "tool_ask E now tid name args (S\<lparr>ws_runtime := t\<rparr>) = Some S'"
      using s t at [OF tool(2,1)] by (simp add: wired_drive_def)
    then show ?thesis by (rule wired_tool_ask [OF i u d st tool])
  next
    case (leave co r)
    note tid = exec_atD [OF leave(1)]
    note ok = wired_invD(2) [OF i tid [THEN conjunct1], unfolded tid [THEN conjunct2]]
    have s': "S' = S\<lparr>ws_runtime := t\<rparr>"
      using s t leave(1) at [OF leave(2,1)] by (cases co) (simp_all add: wired_drive_def)
    show ?thesis unfolding s'
    proof (rule wired_move [OF i u st leave(2)])
      show "kind_budget E S tid (Pattern_done r)"
        using task_okD(3) [OF ok] by (rule kind_budget_mono) (use on_budget_le in auto)
      show "has_ended (nat (rc_max_attempts c)) S tid (Inl e)" if "Pattern_done r = Pattern_done (Inl e)" "gave_up e" for e
        using task_okD(4) [OF ok] leave(3) [of e] that by simp
    qed (use tid in simp_all)
  qed
qed

theorem wired_perform_ok:
  assumes i: "wired_inv E c dumps g None S" and u: "uuids_ok E" and d: "dumps_mild dumps" "registry_mild g"
    and s: "wired_perform E dumps a S = Some S'"
  shows "wired_inv E c dumps g None S'"
proof (cases a)
  case (Of_runtime x)
  then show ?thesis using s wired_plain [OF i u] by (auto split: if_splits)
next
  case (Time_out now tid)
  then obtain t where t: "exec_timeout E now tid (ws_runtime S) = Some t"
    using s by (auto simp: wired_interrupt_def)
  obtain r where "task_at tid (Exec_done r) (ws_runtime S) t" "tid < tasks_of S"
    using interrupt_task t unfolding exec_timeout_def by blast
  then show ?thesis
    using wired_interrupted [where f = "exec_timeout E now tid", OF i u t rt_step.exec_timeout [OF t]] s Time_out by simp
next
  case (Cancellation now tid)
  then obtain t where t: "exec_cancelled E now tid (ws_runtime S) = Some t"
    using s by (auto simp: wired_interrupt_def)
  then have "tid < tasks_of S \<and> (\<exists>r. task_at tid (Exec_done r) (ws_runtime S) t)"
    using interrupt_task by (fastforce simp: exec_cancelled_def intro: task_at_set split: if_splits)
  then show ?thesis
    using wired_interrupted [where f = "exec_cancelled E now tid", OF i u t rt_step.exec_cancelled [OF t]] s Cancellation by auto
qed (use s in \<open>auto intro: wired_drive_ok [OF i u d] wired_llm_wake [OF i u] wired_llm_answer [OF i u]
      wired_tool_enter [OF i] wired_tool_answer [OF i u d] wired_close_end_ok [OF i u]\<close>)

end
