(* ===== verification/Wired_Service.thy ===== *)
theory Wired_Service
  imports Wired_Tools Runtime_Steps Runtime_Progress Client_Alone Config_Load
begin

section \<open>The system serves a request\<close>

text \<open>
  The system that \<open>create_runtime\<close> builds from a valid configuration, and executions of it from its
  construction on: a SIMPLE run is submitted, a provider fails a number of times and then answers, and
  the run succeeds.
\<close>

subsection \<open>The system as it is built\<close>

definition built :: "app_config \<Rightarrow> time \<Rightarrow> (nat \<Rightarrow> string) \<Rightarrow> codec \<Rightarrow> system \<Rightarrow> bool" where
  "built c now uuids codec sy \<longleftrightarrow> app_validate c = Inr () \<and> create_runtime c now uuids codec = Inr sy
     \<and> inj uuids \<and> (\<forall>n. uuids n \<noteq> [])"

lemma created_empty:
  assumes "create_runtime c now uuids codec = Inr sy"
  shows "rt_execs (sy_runtime sy) = []" "cl_calls (sy_client sy) = []" "rg_calls (sy_tools sy) = []"
proof -
  obtain g where "register_builtin_tools (registry_new (cf_tool_timeout_seconds (ac_runtime c)) []) = (Inr (), g)"
    "rg_calls g = []" using builtin_tools by blast
  then show "rt_execs (sy_runtime sy) = []" "cl_calls (sy_client sy) = []" "rg_calls (sy_tools sy) = []"
    using assms
    by (auto simp: create_runtime_def Let_def runtime_new_def client_new_def split: sum.splits)
qed

lemma builtD:
  assumes "built c now uuids codec sy"
  shows "uuids_ok (sy_env sy)" "env_config (sy_env sy) = ac_runtime c" "registry_ok (sy_tools sy)"
    "runtime_validate (ac_runtime c) = Inr ()"
    and "wired_inv (sy_env sy) (ac_retry c) dumps (sy_tools sy) None (wired_new sy)"
    and "registry_mild (sy_tools sy)"
proof -
  have v: "app_validate c = Inr ()" "create_runtime c now uuids codec = Inr sy" "inj uuids" "\<forall>n. uuids n \<noteq> []"
    using assms by (simp_all add: built_def)
  obtain b where S: "cl_reachable (ac_retry c) (sy_client sy)" "registry_ok (sy_tools sy)"
    "env_config (sy_env sy) = ac_runtime c" "env_uuids (sy_env sy) = uuids"
    "wf_bus b" "runtime_new (sy_env sy) b = Inr (sy_runtime sy)"
    using create_runtime_valid [OF v(1), of now uuids codec] v(2) by auto
  note e = created_empty [OF v(2)]
  show "uuids_ok (sy_env sy)" using v(3,4) S(4) by (simp add: uuids_ok_def)
  show "env_config (sy_env sy) = ac_runtime c" "registry_ok (sy_tools sy)" by (rule S)+
  show "runtime_validate (ac_runtime c) = Inr ()" by (rule app_validateD(4) [OF v(1)])
  show "registry_mild (sy_tools sy)" by (simp add: registry_mild_def e)
  have "\<exists>ops. sy_tools sy = fold (tool_exec dumps) ops (sy_tools sy)" by (rule exI [of _ "[]"]) simp
  then show "wired_inv (sy_env sy) (ac_retry c) dumps (sy_tools sy) None (wired_new sy)"
    using S(1) reachable.init [OF S(5,6)] e
    by (simp add: wired_inv_def wired_base_def wired_new_def)
qed

lemma wired_reachable_inv:
  assumes "built c now uuids codec sy" and "dumps_mild dumps" and "wired_reachable sy dumps S"
  shows "wired_inv (sy_env sy) (ac_retry c) dumps (sy_tools sy) None S"
  using assms(3)
proof (induction rule: wired_reachable.induct)
  case boot
  show ?case by (rule builtD(5) [OF assms(1)])
next
  case (act S a S')
  then show ?case using wired_perform_ok builtD(1,6) [OF assms(1)] assms(2) by blast
qed

subsection \<open>Scripts\<close>

fun wired_run :: "env \<Rightarrow> (pyval \<Rightarrow> exn + string) \<Rightarrow> wired_action list \<Rightarrow> wired \<Rightarrow> wired option" where
  "wired_run E dumps [] S = Some S"
| "wired_run E dumps (a # as) S = Option.bind (wired_perform E dumps a S) (wired_run E dumps as)"

text \<open>What the provider answers in a script.\<close>

fun provider_answers :: "wired_action list \<Rightarrow> (exn + llm_response) list" where
  "provider_answers [] = []"
| "provider_answers (a # as) =
     (case a of Llm_answer now rnd i r \<Rightarrow> r # provider_answers as | _ \<Rightarrow> provider_answers as)"

lemma wired_run_append:
  "wired_run E dumps (as @ bs) S = Option.bind (wired_run E dumps as S) (wired_run E dumps bs)"
  by (induction as arbitrary: S) (auto split: Option.bind_split)

lemma provider_answers_append: "provider_answers (as @ bs) = provider_answers as @ provider_answers bs"
  by (induction as) (auto split: wired_action.split)

lemma wired_run_reachable:
  "wired_run (sy_env sy) dumps as S = Some S' \<Longrightarrow> wired_reachable sy dumps S \<Longrightarrow> wired_reachable sy dumps S'"
  by (induction as arbitrary: S) (auto simp: bind_eq_Some_conv intro: wired_reachable.act)

subsection \<open>Retries\<close>

text \<open>The bucket gives a token to who asks late enough.\<close>

lemma token_later:
  assumes "wf_bucket b" and "1 \<le> tb_capacity b"
  shows "\<exists>t b'. acquire_round t 1 b = (None, b') \<and> wf_bucket b' \<and> tb_capacity b' = tb_capacity b"
proof -
  let ?t = "tb_updated_at b + 1 / tb_refill_rate b"
  have r: "0 < tb_refill_rate b" "0 \<le> tb_tokens b" using assms(1) by (simp_all add: wf_bucket_def)
  then have "1 \<le> tb_tokens (bucket_refill ?t b)" using assms(2) by (simp add: refill_tokens)
  then obtain b' where b': "acquire_round ?t 1 b = (None, b')" by (simp add: acquire_round_def Let_def)
  then show ?thesis using wf_acquire_round [OF b' assms(1)] acquire_round_fields [OF b'] by auto
qed

text \<open>The only call of the client is at the provider, and more failures do not open the breaker.\<close>

definition asking :: "retry_config \<Rightarrow> nat \<Rightarrow> nat \<Rightarrow> client \<Rightarrow> bool" where
  "asking c a n s \<longleftrightarrow> cl_retry s = c \<and> cl_calls s = [Calling a] \<and> tolerates n (cl_breaker s)
     \<and> wf_bucket (cl_limiter s) \<and> 1 \<le> tb_capacity (cl_limiter s)"

lemma round_calls:
  assumes "cl_calls s = [Acquiring a]" and "1 \<le> tb_capacity (cl_limiter s)" and "tolerates n (cl_breaker s)"
    and "acquire_round now 1 (cl_limiter s) = (None, l)"
  shows "call_round now 0 s = Some (set_call 0 (Calling a) (count ''llm_attempts_total'' (s\<lparr>cl_limiter := l\<rparr>)))"
  using round_granted [OF assms(1,2,4)] tolerates_call [OF assms(3), of now] by simp

lemma one_failure:
  assumes s: "asking c a (Suc n) (ws_client S)" and a: "int a < rc_max_attempts c"
  shows "\<exists>t S'. wired_run E dumps [Llm_answer now 0 0 (Inl (TransientLLMError m)), Llm_wake t 0] S = Some S'
    \<and> asking c (Suc a) n (ws_client S') \<and> S' = S\<lparr>ws_client := ws_client S'\<rparr>"
proof -
  let ?c = "ws_client S"
  note f = s [unfolded asking_def]
  let ?c1 = "set_call 0 (Backoff a (backoff_sleep (cl_retry ?c) a 0)) (count ''llm_retries_total''
      (count ''llm_transient_errors_total'' (?c\<lparr>cl_breaker := record_failure now (cl_breaker ?c)\<rparr>)))"
  have r: "call_return now 0 0 (Inl (TransientLLMError m)) ?c = Some ?c1"
    using f a by (simp add: call_return_def call_at_def Let_def)
  have tol: "tolerates n (record_failure now (cl_breaker ?c))" using f tolerates_failure by blast
  obtain t l where l: "acquire_round t 1 (cl_limiter ?c) = (None, l)" "wf_bucket l" "tb_capacity l = tb_capacity (cl_limiter ?c)"
    using token_later f by blast
  have w: "call_wake 0 ?c1 = Some (set_call 0 (Acquiring (Suc a)) ?c1)"
    using f by (simp add: call_wake_def call_at_def)
  obtain c2 where c2: "call_round t 0 (set_call 0 (Acquiring (Suc a)) ?c1) = Some c2" "asking c (Suc a) n c2"
    using round_calls [of "set_call 0 (Acquiring (Suc a)) ?c1" "Suc a" n t l] f l tol by (simp add: asking_def)
  have "wired_run E dumps [Llm_answer now 0 0 (Inl (TransientLLMError m)), Llm_wake t 0] S =
      Some (S\<lparr>ws_client := c2\<rparr>)"
    using r w c2 f by (simp add: llm_answer_def llm_wake_def llm_settle_def call_at_def asking_def)
  then show ?thesis using c2(2) by (intro exI [of _ t] exI [of _ "S\<lparr>ws_client := c2\<rparr>"]) simp
qed

lemma failures:
  assumes "asking c a (k + n) (ws_client S)" and "int (a + k) \<le> rc_max_attempts c"
  shows "\<exists>as S'. wired_run E dumps as S = Some S' \<and> provider_answers as = replicate k (Inl (TransientLLMError m))
    \<and> asking c (a + k) n (ws_client S') \<and> S' = S\<lparr>ws_client := ws_client S'\<rparr>"
  using assms
proof (induction k arbitrary: a S)
  case 0
  then show ?case by (intro exI [of _ "[]"] exI [of _ S]) simp
next
  case (Suc k)
  have a: "asking c a (Suc (k + n)) (ws_client S)" "int a < rc_max_attempts c" using Suc.prems by simp_all
  obtain t T where t: "wired_run E dumps [Llm_answer 0 0 0 (Inl (TransientLLMError m)), Llm_wake t 0] S = Some T"
    "asking c (Suc a) (k + n) (ws_client T)" "T = S\<lparr>ws_client := ws_client T\<rparr>"
    using one_failure [OF a, of E dumps 0 m] by blast
  have "int (Suc a + k) \<le> rc_max_attempts c" using Suc.prems(2) by simp
  obtain as S' where s: "wired_run E dumps as T = Some S'" "provider_answers as = replicate k (Inl (TransientLLMError m))"
    "asking c (Suc a + k) n (ws_client S')" "S' = T\<lparr>ws_client := ws_client S'\<rparr>"
    using Suc.IH [OF t(2) \<open>int (Suc a + k) \<le> rc_max_attempts c\<close>] by blast
  let ?as = "[Llm_answer 0 0 0 (Inl (TransientLLMError m)), Llm_wake t 0] @ as"
  have "wired_run E dumps ?as S = Some S'" unfolding wired_run_append t(1) by (simp add: s(1))
  moreover have "S' = S\<lparr>ws_client := ws_client S'\<rparr>"
    by (subst s(4), subst t(3)) simp
  ultimately show ?case using s(2,3) by (intro exI [of _ ?as] exI [of _ S']) simp
qed

subsection \<open>From the request to the result\<close>

text \<open>The system as the factory builds it.\<close>

lemma client_new_fields:
  "client_new c l b m = Inr s \<Longrightarrow> cl_retry s = c \<and> cl_limiter s = l \<and> cl_breaker s = b
     \<and> cl_metrics s = m \<and> cl_calls s = []"
  by (auto simp: client_new_def split: sum.splits)

lemma bucket_new_capacity: "bucket_new c now = Inr b \<Longrightarrow> tb_capacity b = rl_capacity c"
  by (auto simp: bucket_new_def split: sum.splits)

lemma breaker_new_tolerates:
  "breaker_new c = Inr b \<Longrightarrow> int n < cb_failure_threshold c \<Longrightarrow> tolerates n b"
  by (auto simp: breaker_new_def tolerates_def split: sum.splits)

lemma built_client:
  assumes "built c now uuids codec sy"
  shows "cl_retry (sy_client sy) = ac_retry c" "cl_calls (sy_client sy) = []"
    "tb_capacity (cl_limiter (sy_client sy)) = rl_capacity (ac_rate_limit c)"
    "wf_bucket (cl_limiter (sy_client sy))"
    "int n < cb_failure_threshold (ac_circuit_breaker c) \<Longrightarrow> tolerates n (cl_breaker (sy_client sy))"
proof -
  have "create_runtime c now uuids codec = Inr sy" using assms by (simp add: built_def)
  then obtain l b where l: "bucket_new (ac_rate_limit c) now = Inr l" and b: "breaker_new (ac_circuit_breaker c) = Inr b"
    and cl: "client_new (ac_retry c) l b [] = Inr (sy_client sy)"
    by (auto simp: create_runtime_def Let_def split: sum.splits prod.splits)
  note s = client_new_fields [OF cl]
  then show "cl_retry (sy_client sy) = ac_retry c" "cl_calls (sy_client sy) = []" by blast+
  show "wf_bucket (cl_limiter (sy_client sy))" "tb_capacity (cl_limiter (sy_client sy)) = rl_capacity (ac_rate_limit c)"
    using wf_bucket_new [OF l] bucket_new_capacity [OF l] s by simp_all
  show "int n < cb_failure_threshold (ac_circuit_breaker c) \<Longrightarrow> tolerates n (cl_breaker (sy_client sy))"
    using breaker_new_tolerates [OF b] s by simp
qed

text \<open>A SIMPLE run is submitted, taken and started, and its first attempt is at the provider.\<close>

definition serving :: "app_config \<Rightarrow> system \<Rightarrow> string \<Rightarrow> llm_response \<Rightarrow> nat \<Rightarrow> wired \<Rightarrow> bool" where
  "serving c sy rid response n S \<longleftrightarrow> reachable (sy_env sy) (ws_runtime S) \<and> \<not> rt_closed (ws_runtime S)
     \<and> (\<exists>k t. exec_at (ws_runtime S) 0 = Some (At_llm ''simple.generate'' k t) \<and> k response = Ret (resp_content response))
     \<and> exec_run (ws_runtime S) 0 = rid \<and> rid \<in> set (rt_runs (ws_runtime S))
     \<and> run_state_of (ws_runtime S) = [rid \<mapsto> WAITING] \<and> ws_askers S = [0]
     \<and> asking (ac_retry c) 1 n (ws_client S)"

lemma runtime_new_fields:
  "runtime_new E b = Inr s \<Longrightarrow> \<not> rt_closed s \<and> \<not> rt_started s \<and> rt_execs s = [] \<and> qids s = []
     \<and> run_state_of s = Map.empty \<and> rt_tasks s = []"
  by (auto simp: runtime_new_def queue_new_def run_state_of_def split: sum.splits if_splits)

text \<open>The runtime of the system, started.\<close>

lemma built_starts:
  assumes b: "built c now uuids codec sy"
  defines "s \<equiv> snd (runtime_start (sy_env sy) (sy_runtime sy))"
  shows "reachable (sy_env sy) s" "\<not> rt_closed s" "rt_started s" "qids s = []" "rt_execs s = []"
    "rt_tasks s = []" "run_state_of s = Map.empty" "0 < length (rt_workers s)"
    "length (rt_workers s) = nat (cf_max_concurrency (ac_runtime c))"
    "i < length (rt_workers s) \<Longrightarrow> wk_pc (rt_workers s ! i) = W_idle"
proof -
  let ?E = "sy_env sy" and ?s0 = "sy_runtime sy"
  have new: "wired_inv ?E (ac_retry c) plain (sy_tools sy) None (wired_new sy)" for plain by (rule builtD(5) [OF b])
  have r0: "reachable ?E ?s0" using wired_baseD(1) [OF wired_invD(1) [OF new]] by (simp add: wired_new_def)
  obtain bus where bus: "runtime_new ?E bus = Inr ?s0"
    using b by (auto simp: built_def create_runtime_def Let_def split: sum.splits prod.splits)
  have f0: "\<not> rt_closed ?s0" "\<not> rt_started ?s0" "rt_execs ?s0 = []" "qids ?s0 = []"
    "run_state_of ?s0 = Map.empty" "rt_tasks ?s0 = []"
    using runtime_new_fields [OF bus] by blast+
  show "reachable ?E s" unfolding s_def by (rule reachable.step [OF r0 rt_step.start])
  show "\<not> rt_closed s" "rt_started s" "qids s = []" "rt_execs s = []" "rt_tasks s = []"
    "run_state_of s = Map.empty" "0 < length (rt_workers s)"
    "length (rt_workers s) = nat (cf_max_concurrency (ac_runtime c))"
    "i < length (rt_workers s) \<Longrightarrow> wk_pc (rt_workers s ! i) = W_idle"
    using f0 runtime_validateD(1) [OF builtD(4) [OF b]] builtD(2) [OF b]
    by (simp_all add: s_def runtime_start_def Let_def set_gauge_def run_state_of_def)
qed

lemma first_attempt:
  assumes S: "exec_drive E t 0 (ws_runtime S) = Some rt" "exec_at rt 0 = Some (At_llm st k b)"
    and c: "cl_calls (ws_client S) = []" "cl_retry (ws_client S) = rc" "1 \<le> tb_capacity (cl_limiter (ws_client S))"
    and b: "tolerates n (cl_breaker (ws_client S))"
    and l: "acquire_round t 1 (cl_limiter (ws_client S)) = (None, l)" "wf_bucket l"
      "tb_capacity l = tb_capacity (cl_limiter (ws_client S))"
  shows "\<exists>T. wired_perform E dumps (Drive t 0) S = Some T \<and> ws_runtime T = rt
    \<and> ws_askers T = ws_askers S @ [0] \<and> asking rc 1 n (ws_client T)"
proof -
  let ?c = "call_begin (ws_client S)"
  obtain c' where c': "call_round t 0 ?c = Some c'" "asking rc 1 n c'"
    using round_calls [of ?c 1 n t l] c b l by (simp add: call_begin_def asking_def)
  obtain co where "exec_at (ws_runtime S) 0 = Some (Driving co)"
    using S(1) by (auto simp: exec_drive_defs split: option.splits exec_pc.splits)
  then have "wired_drive E t 0 S = llm_ask E t 0 (S\<lparr>ws_runtime := rt\<rparr>)"
    using S by (cases co) (simp_all add: wired_drive_def)
  moreover have "llm_ask E t 0 (S\<lparr>ws_runtime := rt\<rparr>) =
      Some (S\<lparr>ws_runtime := rt, ws_askers := ws_askers S @ [0], ws_client := c'\<rparr>)"
    using c' c(1) by (simp add: llm_ask_def llm_settle_def asking_def call_at_def)
  ultimately show ?thesis using c'(2) by simp
qed

lemma request_reaches_provider:
  assumes b: "built c now uuids codec sy" and cap: "1 \<le> rl_capacity (ac_rate_limit c)"
    and n: "int n < cb_failure_threshold (ac_circuit_breaker c)" and input: "strip input \<noteq> []"
  shows "\<exists>t S rid. wired_run (sy_env sy) dumps
      [Of_runtime Do_start, Of_runtime (Do_submit 0 input (Inr SIMPLE) None None), Of_runtime (Do_pick 0),
       Of_runtime (Do_exec 0 0), Drive t 0] (wired_new sy) = Some S
    \<and> serving c sy rid response n S"
proof -
  let ?E = "sy_env sy" and ?s0 = "sy_runtime sy"
  note u = builtD(1) [OF b] and cl = built_client [OF b]
  define s1 where "s1 = snd (runtime_start ?E ?s0)"
  have r1: "reachable ?E s1" and f1: "\<not> rt_closed s1" "rt_started s1" "0 < length (rt_workers s1)"
    "wk_pc (rt_workers s1 ! 0) = W_idle" "qids s1 = []" "rt_execs s1 = []" "run_state_of s1 = Map.empty"
    using built_starts [OF b] by (auto simp: s1_def)
  obtain rid s2 s3 r where s3: "submit ?E 0 input (Inr SIMPLE) None None s1 = (Inr rid, s2)"
    "worker_pick 0 s2 = Some s3" "reachable ?E s3" "exec_at s3 0 = Some Not_started" "exec_run s3 0 = rid"
    "\<not> et_cancel (rt_execs s3 ! 0)" "rt_heap s3 rid = Some r" "rr_state r = READY" "rr_kind r = SIMPLE"
    "rid \<in> set (rt_runs s3)" "run_state_of s3 = [rid \<mapsto> READY]" "\<not> rt_closed s3"
    using submit_and_pick [OF r1 u f1(1-5) input, of 0 0 SIMPLE None] f1(6,7) by auto
  obtain t l where l: "acquire_round t 1 (cl_limiter (sy_client sy)) = (None, l)" "wf_bucket l"
    "tb_capacity l = tb_capacity (cl_limiter (sy_client sy))"
    using token_later [OF cl(4)] cap cl(3) by auto
  from simple_until_answer [OF s3(3) u s3(4,6) s3(7-9) [folded s3(5)], of 0 t response]
  obtain s4 s5 k where s5: "exec_start ?E 0 0 s3 = Some s4" "exec_drive ?E t 0 s4 = Some s5"
    "exec_at s5 0 = Some (At_llm ''simple.generate'' k t)" "k response = Ret (resp_content response)"
    "run_state_of s5 = [rid \<mapsto> WAITING]" "exec_run s5 0 = rid" "rt_runs s5 = rt_runs s3"
    "reachable ?E s5" "rt_closed s5 = rt_closed s3"
    unfolding s3(5,11) by auto
  have open5: "\<not> rt_closed s5"
    using s3(12) s5(9) by simp
  let ?S4 = "(wired_new sy)\<lparr>ws_runtime := s4\<rparr>"
  have "\<exists>T. wired_perform ?E dumps (Drive t 0) ?S4 = Some T \<and> ws_runtime T = s5
      \<and> ws_askers T = ws_askers ?S4 @ [0] \<and> asking (ac_retry c) 1 n (ws_client T)"
    using s5(2,3) cl(1,2,3,5) n cap l by (intro first_attempt [where l = l]) (simp_all add: wired_new_def)
  then obtain T where T: "wired_perform ?E dumps (Drive t 0) ?S4 = Some T" "ws_runtime T = s5"
    "ws_askers T = [0]" "asking (ac_retry c) 1 n (ws_client T)"
    by (auto simp: wired_new_def)
  have "serving c sy rid response n T" using T(2-4) s5(3-8) s3(10) open5 by (auto simp: serving_def)
  moreover have "wired_run ?E dumps
      [Of_runtime Do_start, Of_runtime (Do_submit 0 input (Inr SIMPLE) None None), Of_runtime (Do_pick 0),
       Of_runtime (Do_exec 0 0), Drive t 0] (wired_new sy) = Some T"
    using s3(1,2) s5(1) T(1) by (simp add: wired_new_def s1_def del: wired_perform.simps(2))
  ultimately show ?thesis by blast
qed

text \<open>The last attempt's answer is the task's, and the run ends with it.\<close>

lemma llm_return_fails:
  assumes "exec_at s tid = Some (At_llm st k began)" and "run_state_of s (exec_run s tid) = Some WAITING"
  shows "\<exists>s'. llm_return E now tid (Inl e) s = Some s' \<and> exec_at s' tid = Some (Pattern_done (Inl e))"
proof -
  have "tid < length (rt_execs s)" using assms(1) by (simp add: exec_at_def split: if_splits)
  then show ?thesis
    using assms by (auto simp: llm_return_def exec_resume_def Let_def back_to_running_def fsm_if_current_eq
        legal_simps exec_at_def)
qed

lemma wired_drive_ends:
  assumes "exec_drive E now tid (ws_runtime S) = Some t" and "exec_finish E now' tid t = Some u"
  shows "wired_drive E now tid S = Some (S\<lparr>ws_runtime := t\<rparr>)"
proof -
  obtain r where "exec_at t tid = Some (Pattern_done r)"
    using assms(2) by (auto simp: exec_finish_def split: option.splits exec_pc.splits)
  moreover obtain co where "exec_at (ws_runtime S) tid = Some (Driving co)"
    using assms(1) by (auto simp: exec_drive_defs split: option.splits exec_pc.splits)
  ultimately show ?thesis using assms(1) by (cases co) (simp_all add: wired_drive_def)
qed

lemma last_answer:
  assumes r: "serving c sy rid response n S" and u: "uuids_ok (sy_env sy)"
    and a: "asking rc a m C" and out: "\<not> blank (resp_content response)"
  shows "\<exists>T run. wired_run (sy_env sy) dumps
      [Llm_answer 0 0 0 (Inr response), Drive 0 0, Of_runtime (Do_finish 0 0)] (S\<lparr>ws_client := C\<rparr>) = Some T
    \<and> cl_calls (ws_client T) = [Call_done a (Inr response)]
    \<and> run_state_of (ws_runtime T) = [rid \<mapsto> SUCCEEDED]
    \<and> runtime_wait (ws_runtime T) rid = Inr (Some run) \<and> rr_output run = Some (resp_content response)"
proof -
  let ?E = "sy_env sy" and ?s = "ws_runtime S"
  note s = r [unfolded serving_def]
  obtain k t where k: "exec_at ?s 0 = Some (At_llm ''simple.generate'' k t)" "k response = Ret (resp_content response)"
    using s by blast
  have st: "run_state_of ?s (exec_run ?s 0) = Some WAITING" "exec_run ?s 0 \<in> set (rt_runs ?s)" using s by auto
  from simple_after_answer [OF _ u k out st, of 0 0 0]
  obtain s1 s2 s3 run where x: "llm_return ?E 0 0 (Inr response) ?s = Some s1" "exec_drive ?E 0 0 s1 = Some s2"
    "exec_finish ?E 0 0 s2 = Some s3" "rt_heap s3 rid = Some run" "rr_output run = Some (resp_content response)"
    "run_state_of s3 = (run_state_of ?s)(rid \<mapsto> SUCCEEDED)" "rt_runs s3 = rt_runs ?s"
    using s by blast
  let ?C = "set_call 0 (Call_done a (Inr response)) (count ''llm_success_total'' (C\<lparr>cl_breaker := record_success (cl_breaker C)\<rparr>))"
  let ?S1 = "S\<lparr>ws_client := ?C, ws_runtime := s1\<rparr>"
  have "wired_perform ?E dumps (Llm_answer 0 0 0 (Inr response)) (S\<lparr>ws_client := C\<rparr>) = Some ?S1"
    using a x(1) s by (simp add: llm_answer_def call_return_def call_at_def llm_settle_def asking_def)
  moreover have "wired_perform ?E dumps (Drive 0 0) ?S1 = Some (?S1\<lparr>ws_runtime := s2\<rparr>)"
    using wired_drive_ends [of ?E 0 0 ?S1] x(2,3) by simp
  moreover have "wired_perform ?E dumps (Of_runtime (Do_finish 0 0)) (?S1\<lparr>ws_runtime := s2\<rparr>)
      = Some (?S1\<lparr>ws_runtime := s3\<rparr>)"
    using x(3) by simp
  ultimately have "wired_run ?E dumps [Llm_answer 0 0 0 (Inr response), Drive 0 0, Of_runtime (Do_finish 0 0)]
      (S\<lparr>ws_client := C\<rparr>) = Some (?S1\<lparr>ws_runtime := s3\<rparr>)"
    by (simp del: wired_perform.simps)
  moreover have "run_state_of s3 = [rid \<mapsto> SUCCEEDED]" using x(6) s by simp
  moreover from fun_cong [OF this, of rid] have "runtime_wait s3 rid = Inr (Some run)"
    using x(4,7) s by (simp add: runtime_wait_def runtime_get_def runs_get_def run_state_of_def)
  moreover have "cl_calls ?C = [Call_done a (Inr response)]" using a by (simp add: asking_def)
  ultimately show ?thesis using x(5) by (intro exI [of _ "?S1\<lparr>ws_runtime := s3\<rparr>"] exI [of _ run]) simp
qed

subsection \<open>Two states on the way\<close>

text \<open>The system of the default configuration, with a run at the provider, and with its retries used up.\<close>

definition plain_uuids :: "nat \<Rightarrow> string" where
  "plain_uuids n = replicate (Suc n) CHR ''u''"

definition plain_codec :: codec where
  "plain_codec = \<lparr>cd_loads = (\<lambda>_. None), cd_dumps = (\<lambda>_. []), cd_repr = (\<lambda>_. [])\<rparr>"

definition plain_dumps :: "pyval \<Rightarrow> exn + string" where
  "plain_dumps v = Inr ''value''"

definition hi_response :: llm_response where
  "hi_response = plain_response ''hi''"

lemma plain_dumps_mild: "dumps_mild plain_dumps"
  by (simp add: dumps_mild_def plain_dumps_def)

lemma plain_built: "\<exists>sy. built app_defaults 0 plain_uuids plain_codec sy"
proof -
  have "inj plain_uuids"
    using injI [of plain_uuids] by (metis Suc_inject length_replicate plain_uuids_def)
  moreover obtain sy where "create_runtime app_defaults 0 plain_uuids plain_codec = Inr sy"
    using create_runtime_valid [OF app_defaults_valid] by blast
  ultimately show ?thesis
    using app_defaults_valid by (auto simp: built_def plain_uuids_def)
qed

lemma app_defaults_fields:
  "ac_retry app_defaults = retry_defaults" "rc_max_attempts retry_defaults = 4"
  "1 \<le> rl_capacity (ac_rate_limit app_defaults)" "cb_failure_threshold (ac_circuit_breaker app_defaults) = 5"
  "cf_max_concurrency (ac_runtime app_defaults) = 10" "cf_max_agent_steps (ac_runtime app_defaults) = 8"
  by (simp_all add: app_defaults_def retry_defaults_def rate_limit_defaults_def breaker_defaults_def runtime_defaults_def)

lemma plain_serving:
  "\<exists>sy S rid. built app_defaults 0 plain_uuids plain_codec sy \<and> wired_reachable sy plain_dumps S
     \<and> serving app_defaults sy rid hi_response 4 S"
proof -
  obtain sy where b: "built app_defaults 0 plain_uuids plain_codec sy" using plain_built by blast
  have "strip ''hello'' \<noteq> []" by code_simp
  then obtain t S rid where S: "wired_run (sy_env sy) plain_dumps
      [Of_runtime Do_start, Of_runtime (Do_submit 0 ''hello'' (Inr SIMPLE) None None), Of_runtime (Do_pick 0),
       Of_runtime (Do_exec 0 0), Drive t 0] (wired_new sy) = Some S"
    "serving app_defaults sy rid hi_response 4 S"
    using request_reaches_provider [OF b app_defaults_fields(3), of 4 "''hello''" plain_dumps hi_response]
    by (auto simp: app_defaults_fields)
  then show ?thesis using b wired_run_reachable [OF S(1) wired_reachable.boot] by blast
qed

lemma plain_gave_up:
  "\<exists>sy S. built app_defaults 0 plain_uuids plain_codec sy \<and> wired_reachable sy plain_dumps S
     \<and> exec_at (ws_runtime S) 0 = Some (Pattern_done (Inl (TransientLLMError ''busy'')))"
proof -
  obtain sy S rid where S: "built app_defaults 0 plain_uuids plain_codec sy" "wired_reachable sy plain_dumps S"
    "serving app_defaults sy rid hi_response 4 S" using plain_serving by blast
  let ?E = "sy_env sy"
  have "asking (ac_retry app_defaults) 1 (3 + 1) (ws_client S)" "int (1 + 3) \<le> rc_max_attempts (ac_retry app_defaults)"
    using S(3) by (simp_all add: serving_def app_defaults_fields)
  from failures [OF this, of ?E plain_dumps "''busy''"]
  obtain as T where T: "wired_run ?E plain_dumps as S = Some T" "asking (ac_retry app_defaults) 4 1 (ws_client T)"
    "T = S\<lparr>ws_client := ws_client T\<rparr>" by auto
  have rt: "ws_runtime T = ws_runtime S" "ws_askers T = [0]"
    using S(3) by (subst T(3), simp add: serving_def)+
  obtain k t where at: "exec_at (ws_runtime S) 0 = Some (At_llm ''simple.generate'' k t)"
    using S(3) by (auto simp: serving_def)
  have st: "run_state_of (ws_runtime S) (exec_run (ws_runtime S) 0) = Some WAITING" using S(3) by (auto simp: serving_def)
  obtain rt' where l: "llm_return ?E 0 0 (Inl (TransientLLMError ''busy'')) (ws_runtime S) = Some rt'"
    "exec_at rt' 0 = Some (Pattern_done (Inl (TransientLLMError ''busy'')))"
    using llm_return_fails [OF at st] by blast
  have "\<exists>U. wired_perform ?E plain_dumps (Llm_answer 0 0 0 (Inl (TransientLLMError ''busy''))) T = Some U
      \<and> ws_runtime U = rt'"
    using T(2) l(1) rt by (simp add: llm_answer_def call_return_def call_at_def llm_settle_def asking_def Let_def
        app_defaults_fields)
  then show ?thesis
    using S(1) l(2) wired_reachable.act [OF wired_run_reachable [OF T(1) S(2)]] by blast
qed

end
