(* ===== verification/Wired_Properties.thy ===== *)
theory Wired_Properties
  imports Wired_Service
begin

section \<open>What holds of the whole system\<close>

text \<open>
  Properties of the system that \<open>create_runtime\<close> builds from a valid configuration, under every
  interleaving of clients, workers, tasks, provider and tools. The first one brings every property of
  a single component to the wired system; the others are about the components together.
\<close>

subsection \<open>The components in the system\<close>

text \<open>C3: in the wired system each component behaves as it does alone. Whatever the system does, the
  state of its runtime is reachable by steps of the runtime, that of its client by steps of the
  client, and its registry is what a sequence of registry operations makes of the built-in tools. So
  every property of a component's reachable states holds in the system.\<close>

theorem system_projects_to_components:
  assumes "built c now uuids codec sy" and "dumps_mild dumps" and "wired_reachable sy dumps S"
  shows "reachable (sy_env sy) (ws_runtime S) \<and> cl_reachable (ac_retry c) (ws_client S)
    \<and> (\<exists>ops. ws_tools S = fold (tool_exec dumps) ops (sy_tools sy)) \<and> registry_ok (ws_tools S)"
proof -
  note b = wired_invD(1) [OF wired_reachable_inv [OF assms]]
  have "registry_ok (ws_tools S)"
    using wired_baseD(3) [OF b] tool_exec_all_keeps [OF builtD(3) [OF assms(1)], of dumps] by (auto simp: keeps_def)
  then show ?thesis using wired_baseD(1-3) [OF b] by blast
qed

theorem system_projects_to_components_witness:
  "\<exists>sy S. built app_defaults 0 plain_uuids plain_codec sy \<and> wired_reachable sy plain_dumps S
     \<and> llm_pending S 0 = 1 \<and> reachable (sy_env sy) (ws_runtime S) \<and> cl_reachable retry_defaults (ws_client S)
     \<and> registry_ok (ws_tools S)"
proof -
  obtain sy S rid where S: "built app_defaults 0 plain_uuids plain_codec sy" "wired_reachable sy plain_dumps S"
    "serving app_defaults sy rid hi_response 4 S" using plain_serving by blast
  have "llm_pending S 0 = 1" using S(3) by (simp add: llm_pending_def pending_def serving_def asking_def)
  then show ?thesis
    using S(1,2) system_projects_to_components [OF S(1) plain_dumps_mild S(2)]
    by (auto simp: app_defaults_fields(1))
qed

text \<open>C4: calls and tasks match. A task that waits for the model has exactly one open call of the
  client, a task that waits for a tool has exactly one open call of the registry, any other task has
  none; and every open call is one of an existing task. So no call outlives the wait for it, and no
  task waits for a call that has ended.\<close>

theorem calls_match_tasks:
  assumes "built c now uuids codec sy" and "dumps_mild dumps" and "wired_reachable sy dumps S"
  shows "(tid < tasks_of S \<longrightarrow>
      llm_pending S tid = (if at_llm (pc_of S tid) then 1 else 0)
      \<and> tool_pending S tid = (if at_tool (pc_of S tid) then 1 else 0))
    \<and> open_llm_calls S = (\<Sum>t < tasks_of S. llm_pending S t)
    \<and> open_tool_calls S = (\<Sum>t < tasks_of S. tool_pending S t)"
proof -
  note i = wired_reachable_inv [OF assms]
  note b = wired_baseD [OF wired_invD(1) [OF i]]
  have "open_llm_calls S = (\<Sum>t < tasks_of S. llm_pending S t)"
    "open_tool_calls S = (\<Sum>t < tasks_of S. tool_pending S t)"
    unfolding open_llm_calls_def open_tool_calls_def llm_pending_def tool_pending_def
    using pending_sum [OF b(4,6)] pending_sum [OF b(5,7)] by simp_all
  then show ?thesis using task_okD(1,2) [OF wired_invD(2) [OF i]] by simp
qed

theorem calls_match_tasks_witness:
  "\<exists>sy S. built app_defaults 0 plain_uuids plain_codec sy \<and> wired_reachable sy plain_dumps S
     \<and> at_llm (pc_of S 0) \<and> llm_pending S 0 = 1 \<and> tool_pending S 0 = 0"
proof -
  obtain sy S rid where S: "built app_defaults 0 plain_uuids plain_codec sy" "wired_reachable sy plain_dumps S"
    "serving app_defaults sy rid hi_response 4 S" using plain_serving by blast
  obtain k t where at: "exec_at (ws_runtime S) 0 = Some (At_llm ''simple.generate'' k t)"
    using S(3) by (auto simp: serving_def)
  note x = calls_match_tasks [OF S(1) plain_dumps_mild S(2), of 0]
  have "at_llm (pc_of S 0)" "\<not> at_tool (pc_of S 0)" using exec_atD [OF at] by simp_all
  then have "llm_pending S 0 = 1" "tool_pending S 0 = 0" using x exec_atD [OF at] by simp_all
  then show ?thesis using S(1,2) \<open>at_llm (pc_of S 0)\<close> by blast
qed

text \<open>A task at a call is live, so it has a worker while the runtime is open.\<close>

lemma calls_at_most_live:
  assumes i: "wired_inv E c dumps g None S"
  shows "(\<Sum>t < tasks_of S. llm_pending S t) + (\<Sum>t < tasks_of S. tool_pending S t)
    \<le> card {tid. live (rt_execs (ws_runtime S)) tid}"
proof -
  let ?L = "{tid. live (rt_execs (ws_runtime S)) tid}"
  have at: "live (rt_execs (ws_runtime S)) t" if "t < tasks_of S" "at_llm (pc_of S t) \<or> at_tool (pc_of S t)" for t
    using that by (cases "pc_of S t") (auto simp: live_def exec_live_def)
  have "llm_pending S t + tool_pending S t \<le> (if t \<in> ?L then 1 else 0)" if "t < tasks_of S" for t
    using task_okD(1,2) [OF wired_invD(2) [OF i that]] at [OF that] by (cases "pc_of S t") auto
  then have "(\<Sum>t < tasks_of S. llm_pending S t + tool_pending S t) \<le> (\<Sum>t < tasks_of S. if t \<in> ?L then 1 else 0)"
    by (intro sum_mono) simp
  also have "\<dots> = card ({..<tasks_of S} \<inter> ?L)" by (simp add: sum.If_cases)
  also have "{..<tasks_of S} \<inter> ?L = ?L" by (auto simp: live_def)
  finally show ?thesis by (simp add: sum.distrib)
qed

text \<open>C8: while the runtime is open, at most \<open>max_concurrency\<close> calls are in flight, those of the model
  and those of tools together, counting the ones that sleep between attempts or wait for a permit.\<close>

theorem calls_in_flight_bounded:
  assumes "built c now uuids codec sy" and "dumps_mild dumps" and "wired_reachable sy dumps S"
    and "\<not> rt_closed (ws_runtime S)"
  shows "int (open_llm_calls S + open_tool_calls S) \<le> cf_max_concurrency (ac_runtime c)"
proof -
  note i = wired_reachable_inv [OF assms(1-3)]
  have rt: "rt_inv (sy_env sy) (ws_runtime S)" by (rule wired_rt_inv [OF i builtD(1) [OF assms(1)]])
  note b = wired_baseD [OF wired_invD(1) [OF i]]
  have "open_llm_calls S + open_tool_calls S =
      (\<Sum>t < tasks_of S. llm_pending S t) + (\<Sum>t < tasks_of S. tool_pending S t)"
    unfolding open_llm_calls_def open_tool_calls_def llm_pending_def tool_pending_def
    using pending_sum [OF b(4,6)] pending_sum [OF b(5,7)] by simp
  also have "\<dots> \<le> card {tid. live (rt_execs (ws_runtime S)) tid}" by (rule calls_at_most_live [OF i])
  also have "\<dots> \<le> length (rt_workers (ws_runtime S))" by (rule live_workers(2) [OF rt assms(4)])
  also have "\<dots> \<le> nat (cf_max_concurrency (ac_runtime c))"
    using rt_inv0D(5) [OF rt_invD(1) [OF rt]] builtD(2) [OF assms(1)] by (simp add: inv_workers_def)
  finally show ?thesis
    using runtime_validateD(1) [OF builtD(4) [OF assms(1)]] by simp
qed

theorem calls_in_flight_bounded_witness:
  "\<exists>sy S. built app_defaults 0 plain_uuids plain_codec sy \<and> wired_reachable sy plain_dumps S
     \<and> open_llm_calls S = 1 \<and> int (open_llm_calls S + open_tool_calls S) \<le> 10"
proof -
  obtain sy S rid where S: "built app_defaults 0 plain_uuids plain_codec sy" "wired_reachable sy plain_dumps S"
    "serving app_defaults sy rid hi_response 4 S" using plain_serving by blast
  have s: "\<not> rt_closed (ws_runtime S)" "open_llm_calls S = 1"
    using S(3) by (simp_all add: serving_def asking_def open_llm_calls_def)
  have "int (open_llm_calls S + open_tool_calls S) \<le> 10"
    using calls_in_flight_bounded [OF S(1) plain_dumps_mild S(2) s(1)] by (simp only: app_defaults_fields)
  then show ?thesis using S(1,2) s(2) by blast
qed

subsection \<open>The load of a run\<close>

text \<open>How often the calls of a task have called the provider.\<close>

definition attempts_of :: "wired \<Rightarrow> nat \<Rightarrow> nat" where
  "attempts_of S tid = sum_list (map (\<lambda>(x, pc). if x = tid then provider_calls pc else 0)
     (zip (ws_askers S) (cl_calls (ws_client S))))"

lemma attempts_le:
  assumes "\<forall>pc \<in> set calls. provider_calls pc \<le> m"
  shows "sum_list (map (\<lambda>(x, pc). if x = tid then provider_calls pc else 0) (zip askers calls)) \<le> made askers tid * m"
  using assms
proof (induction askers arbitrary: calls)
  case (Cons x xs)
  show ?case
  proof (cases calls)
    case (Cons pc calls')
    then have "sum_list (map (\<lambda>(x, pc). if x = tid then provider_calls pc else 0) (zip xs calls')) \<le> made xs tid * m"
      using Cons.prems by (intro Cons.IH) simp
    then show ?thesis using Cons Cons.prems by (simp add: made_def)
  qed simp
qed simp

lemma call_ok_attempts: "call_ok m pc \<Longrightarrow> provider_calls pc \<le> m"
  by (cases pc) auto

text \<open>C6: an execution of a run calls the model at most as often as the budget of its kind says, its
  tools likewise, and the provider at most \<open>max_attempts\<close> times as often - with the configured number
  of agent steps, the configured number of attempts, and whatever the model, the tools and the other
  runs do.\<close>

theorem run_load_bounded:
  assumes "built c now uuids codec sy" and "dumps_mild dumps" and "wired_reachable sy dumps S"
    and "tid < tasks_of S"
    and "rt_heap (ws_runtime S) (exec_run (ws_runtime S) tid) = Some run"
    and "n = nat (cf_max_agent_steps (ac_runtime c))"
  shows "made (ws_askers S) tid \<le> llm_budget (rr_kind run) n
    \<and> made (ws_callers S) tid \<le> tool_budget (rr_kind run) n
    \<and> attempts_of S tid \<le> llm_budget (rr_kind run) n * nat (rc_max_attempts (ac_retry c))"
proof -
  note i = wired_reachable_inv [OF assms(1-3)]
  have l: "made (ws_askers S) tid \<le> llm_budget (rr_kind run) n \<and> made (ws_callers S) tid \<le> tool_budget (rr_kind run) n"
    using task_okD(3) [OF wired_invD(2) [OF i assms(4)]] assms(5,6) builtD(2) [OF assms(1)]
    by (auto simp: kind_budget_def dest: on_budget_le)
  let ?m = "nat (rc_max_attempts (ac_retry c))"
  have "\<forall>pc \<in> set (cl_calls (ws_client S)). provider_calls pc \<le> ?m"
    using client_ok_reachable [OF wired_baseD(2) [OF wired_invD(1) [OF i]]]
    by (auto simp: client_ok_def intro: call_ok_attempts)
  then have "attempts_of S tid \<le> made (ws_askers S) tid * ?m"
    unfolding attempts_of_def by (rule attempts_le)
  also have "\<dots> \<le> llm_budget (rr_kind run) n * ?m" using l by (intro mult_right_mono) simp_all
  finally show ?thesis using l by blast
qed

theorem run_load_bounded_witness:
  "\<exists>sy S run. built app_defaults 0 plain_uuids plain_codec sy \<and> wired_reachable sy plain_dumps S
     \<and> rt_heap (ws_runtime S) (exec_run (ws_runtime S) 0) = Some run
     \<and> made (ws_askers S) 0 = 1 \<and> attempts_of S 0 = 1 \<and> attempts_of S 0 \<le> llm_budget (rr_kind run) 8 * 4"
proof -
  obtain sy S rid where S: "built app_defaults 0 plain_uuids plain_codec sy" "wired_reachable sy plain_dumps S"
    "serving app_defaults sy rid hi_response 4 S" using plain_serving by blast
  obtain k t where at: "exec_at (ws_runtime S) 0 = Some (At_llm ''simple.generate'' k t)"
    using S(3) by (auto simp: serving_def)
  have "run_state_of (ws_runtime S) (exec_run (ws_runtime S) 0) = Some WAITING" using S(3) by (auto simp: serving_def)
  then obtain run where run: "rt_heap (ws_runtime S) (exec_run (ws_runtime S) 0) = Some run"
    by (auto simp: run_state_of_def)
  have "made (ws_askers S) 0 = 1" "attempts_of S 0 = 1"
    using S(3) by (simp_all add: serving_def asking_def made_def attempts_of_def)
  moreover have "attempts_of S 0 \<le> llm_budget (rr_kind run) 8 * 4"
    using run_load_bounded [OF S(1) plain_dumps_mild S(2) conjunct1 [OF exec_atD [OF at]] run refl]
    by (simp add: app_defaults_fields)
  ultimately show ?thesis using S(1,2) run by blast
qed



subsection \<open>From the request to the result\<close>



end
