(* ===== verification/Http.thy ===== *)
theory Http
  imports Api Runtime_Steps Runtime_Cases
begin

section \<open>Routes and their contract\<close>

text \<open>
  The decorators of \<open>create_app\<close>: each route has a method, a path, an operation, the status of its
  success and the error statuses that its OpenAPI entry declares. Matching a request's path with the
  path of a route is FastAPI's: \<open>path_match\<close> gives the path parameter of a path that fits. A request
  that fits no route is answered by FastAPI alone.
\<close>

datatype operation = Op_healthz | Op_metrics | Op_submit_run | Op_get_run | Op_cancel_run

record route =
  ro_method :: string
  ro_path :: string
  ro_operation :: operation
  ro_status :: int
  ro_responses :: "int list"

definition healthz_route :: route where
  "healthz_route = \<lparr>ro_method = ''GET'', ro_path = ''/healthz'', ro_operation = Op_healthz,
     ro_status = 200, ro_responses = []\<rparr>"

definition metrics_route :: route where
  "metrics_route = \<lparr>ro_method = ''GET'', ro_path = ''/metrics'', ro_operation = Op_metrics,
     ro_status = 200, ro_responses = []\<rparr>"

definition submit_route :: route where
  "submit_route = \<lparr>ro_method = ''POST'', ro_path = ''/v1/runs'', ro_operation = Op_submit_run,
     ro_status = 202, ro_responses = [409, 429, 422]\<rparr>"

definition get_route :: route where
  "get_route = \<lparr>ro_method = ''GET'', ro_path = ''/v1/runs/{run_id}'', ro_operation = Op_get_run,
     ro_status = 200, ro_responses = [404]\<rparr>"

definition cancel_route :: route where
  "cancel_route = \<lparr>ro_method = ''POST'', ro_path = ''/v1/runs/{run_id}/cancel'', ro_operation = Op_cancel_run,
     ro_status = 200, ro_responses = [404]\<rparr>"

text \<open>The application, as \<open>create_app\<close> returns it: its routes in the order of registration.\<close>

definition app_routes :: "route list" where
  "app_routes = [healthz_route, metrics_route, submit_route, get_route, cancel_route]"

text \<open>A request, with the submission and the flag \<open>include_audit\<close> that FastAPI has parsed for it.\<close>

record http_request =
  hr_method :: string
  hr_path :: string
  hr_submission :: run_request
  hr_include_audit :: bool

fun find_route ::
    "(string \<Rightarrow> string \<Rightarrow> string option) \<Rightarrow> string \<Rightarrow> string \<Rightarrow> route list \<Rightarrow> (route \<times> string) option" where
  "find_route path_match verb path [] = None"
| "find_route path_match verb path (r # rs) =
     (case (if ro_method r = verb then path_match (ro_path r) path else None) of
        Some param \<Rightarrow> Some (r, param)
      | None \<Rightarrow> find_route path_match verb path rs)"

fun operate ::
    "(pyfloat \<Rightarrow> string) \<Rightarrow> (run_request \<Rightarrow> violation list) \<Rightarrow> env \<Rightarrow> time \<Rightarrow> operation \<Rightarrow> string \<Rightarrow>
     http_request \<Rightarrow> runtime option \<Rightarrow> response \<times> runtime option" where
  "operate fmt errors E now Op_healthz param q s = (api_healthz s, s)"
| "operate fmt errors E now Op_metrics param q s = (ok_response 200 (PStr (api_metrics fmt s)) [], s)"
| "operate fmt errors E now Op_submit_run param q s = api_submit errors E now (hr_submission q) s"
| "operate fmt errors E now Op_get_run param q s = (api_get_run param (hr_include_audit q) s, s)"
| "operate fmt errors E now Op_cancel_run param q s = api_cancel_run E now param s"

definition serve ::
    "(string \<Rightarrow> string \<Rightarrow> string option) \<Rightarrow> (pyfloat \<Rightarrow> string) \<Rightarrow> (run_request \<Rightarrow> violation list) \<Rightarrow> env \<Rightarrow>
     time \<Rightarrow> http_request \<Rightarrow> runtime option \<Rightarrow> (response \<times> runtime option) option" where
  "serve path_match fmt errors E now q s =
     (case find_route path_match (hr_method q) (hr_path q) app_routes of
        None \<Rightarrow> None
      | Some (r, param) \<Rightarrow> Some (operate fmt errors E now (ro_operation r) param q s))"

text \<open>What the OpenAPI entry of a route says about the status of an answer.\<close>

definition documented :: "route \<Rightarrow> int \<Rightarrow> bool" where
  "documented r status \<longleftrightarrow> status = ro_status r \<or> status \<in> set (ro_responses r)"

subsection \<open>The response models\<close>

text \<open>The fields of \<open>RunResponse\<close> and of \<open>CancelResponse\<close>, which are those of the payloads.\<close>

definition run_response_fields :: "string list" where
  "run_response_fields = [''id'', ''input'', ''kind'', ''session_id'', ''trace_id'', ''state'', ''output'',
     ''error'', ''created_at'', ''updated_at'', ''started_at'', ''finished_at'', ''transitions'', ''steps'', ''audit'']"

definition cancel_response_fields :: "string list" where
  "cancel_response_fields = [''cancelled'', ''run'']"

lemma run_payload_fields:
  "\<exists>d. run_payload run audit = PDict d \<and> set (keys d) = set run_response_fields \<and> distinct (keys d)"
  by (simp add: run_payload_def run_to_dict_def run_response_fields_def)

lemma cancel_payload_fields:
  assumes "api_cancel_run E now rid s = (resp, s')" and "rs_status resp = 200"
  shows "\<exists>d. rs_body resp = PDict d \<and> keys d = cancel_response_fields"
  using assms
  by (auto simp: api_cancel_run_def cancel_response_fields_def handle_exception_status ok_response_def
      split: option.splits sum.splits prod.splits exn.splits if_splits)

end
