(* ===== verification/Http_Properties.thy ===== *)
theory Http_Properties
  imports Http Runtime_Operations
begin

section \<open>What the routes promise\<close>

text \<open>
  The routes over the runtime: an open runtime answers every request that has something to do with
  one of the statuses that the route declares, and what a client reads is what the runtime holds.
\<close>

text \<open>A submission to an open runtime has three outcomes.\<close>

lemma submit_answers:
  assumes r: "reachable E s" and u: "uuids_ok E" and c: "\<not> rt_closed s" and ne: "\<not> blank input"
    and key: "case key of None \<Rightarrow> True | Some k \<Rightarrow> length_in 128 k"
  shows "\<exists>res s'. submit E now input (Inr kd) ss key s = (res, s') \<and> reachable E s' \<and> \<not> rt_closed s'
    \<and> (case res of
         Inr rid \<Rightarrow> \<exists>run. runs_get s' rid = Some run \<and> rt_heap s' rid = Some run \<and> rr_id run = rid
       | Inl e \<Rightarrow> (\<exists>d. e = RunQueueFullError d) \<or> (\<exists>m. e = IdempotencyConflictError m))"
proof -
  note i = reachable_inv [OF r u]
  obtain res s' where e: "submit E now input (Inr kd) ss key s = (res, s')" by fastforce
  have r': "reachable E s'" using reachable.step [OF r rt_step.submit, of now input "Inr kd" ss key] e by simp
  note i' = reachable_inv [OF r' u]
  have c': "\<not> rt_closed s'" using submit_closed [OF i c] e by (metis snd_conv)
  let ?c = "cleanup_runs E now 1 (snd (runtime_start E s))"
  have ic: "rt_inv E ?c" by (rule cleanup_runs_inv(1) [OF runtime_start_inv [OF i]])
  have st: "strip input \<noteq> []" "\<not> blank (strip input)" using ne by simp_all
  have known: "\<exists>run. runs_get s' rid = Some run \<and> rt_heap s' rid = Some run \<and> rr_id run = rid"
    if "rid \<in> set (rt_runs s')" for rid
  proof -
    have "set (rt_runs s') \<subseteq> dom (rt_heap s')"
      using rt_inv0D(2) [OF rt_invD(1) [OF i']] by (simp add: inv_registry_def)
    then obtain run where "rt_heap s' rid = Some run" using \<open>rid \<in> set (rt_runs s')\<close> by blast
    then show ?thesis
      using that inv_objects_run_id [OF rt_inv0D(1) [OF rt_invD(1) [OF i']]] by (auto simp: runs_get_def)
  qed
  have adm: "(case fst (admit E now (strip input) kd ss key ?c) of
       Inr rid \<Rightarrow> rid \<in> set (rt_runs (snd (admit E now (strip input) kd ss key ?c)))
     | Inl e \<Rightarrow> (\<exists>d. e = RunQueueFullError d))"
  proof (cases "queue_full (rt_queue ?c)")
    case True
    then show ?thesis by (simp add: admit_def rejected_def)
  next
    case False
    then show ?thesis using admit_eq [OF u False st(2), of ss kd now key] by auto
  qed
  have ix: "rid \<in> set (rt_runs ?c)" if "dict_get (rt_idem ?c) k = Some (rid, p)" for k rid p
    using that rt_inv0D(3) [OF rt_invD(1) [OF ic]] by (cases p) (auto simp: inv_idem_def)
  have "case res of Inr rid \<Rightarrow> rid \<in> set (rt_runs s')
     | Inl e \<Rightarrow> (\<exists>d. e = RunQueueFullError d) \<or> (\<exists>m. e = IdempotencyConflictError m)"
    using e adm ix key st(1)
    by (auto simp: submit_eq [OF i c] Let_def submit_kind_def length_in_def bind_eq_None_conv bind_eq_Some_conv
        split: option.splits sum.splits prod.splits if_splits)
  then show ?thesis using e r' c' known by (auto split: sum.splits)
qed

lemma found_route: "find_route path_match verb path rs = Some (r, param) \<Longrightarrow> r \<in> set rs"
  by (induction rs) (auto split: option.splits if_splits)

text \<open>A cancellation finds the run or not, and afterwards the run is finished.\<close>

lemma cancel_answers:
  assumes r: "reachable E s" and u: "uuids_ok E" and c: "\<not> rt_closed s"
  shows "\<exists>res s'. cancel E now rid s = (res, s') \<and> reachable E s' \<and> \<not> rt_closed s'
    \<and> (case res of
         Inr done \<Rightarrow> \<exists>run. runs_get s' rid = Some run \<and> terminal (rr_state run)
       | Inl e \<Rightarrow> \<exists>m. e = RunNotFoundError m)"
proof -
  note i = reachable_inv [OF r u]
  obtain res s' where e: "cancel E now rid s = (res, s')" by fastforce
  have r': "reachable E s'" using reachable.step [OF r rt_step.cancel, of now rid] e by simp
  show ?thesis
  proof (cases "runs_get s rid")
    case None
    then have "res = Inl (RunNotFoundError (''unknown run: '' @ rid)) \<and> s' = s"
      using e by (simp add: cancel_def runtime_get_def)
    then show ?thesis using e r' c by simp
  next
    case (Some run)
    have h: "rt_heap s rid = Some run" "rid \<in> set (rt_runs s)" using Some by (auto simp: runs_get_def split: if_splits)
    have st: "run_state_of s rid = Some (rr_state run)" using h(1) by (simp add: run_state_of_def)
    have "rt_closed s' = rt_closed s" "rt_runs s' = rt_runs s"
      using e by (auto simp: cancel_eq [OF i Some] split: if_splits option.splits)
    moreover have "\<exists>t. run_state_of s' rid = Some t \<and> terminal t"
      using e st by (cases "terminal (rr_state run)") (auto simp: cancel_eq [OF i Some] split: option.splits)
    ultimately have "\<exists>run. runs_get s' rid = Some run \<and> terminal (rr_state run)"
      using h(2) by (auto simp: runs_get_def run_state_of_def)
    moreover have "\<exists>b. res = Inr b" using e by (auto simp: cancel_eq [OF i Some] split: if_splits)
    ultimately show ?thesis using e r' c \<open>rt_closed s' = rt_closed s\<close> by auto
  qed
qed

text \<open>C9: an open runtime answers every request that a route matches with the status of success or one
  of the error statuses that the route declares, as long as the submitted input is not made of blanks
  alone; and the answer leaves the runtime open and in a reachable state. So no request makes the
  server fail.\<close>

theorem answers_are_documented:
  assumes "reachable E rt" and "uuids_ok E" and "\<not> rt_closed rt"
    and "find_route path_match (hr_method q) (hr_path q) app_routes = Some (r, param)"
    and "rq_input (hr_submission q) = [] \<or> \<not> blank (rq_input (hr_submission q))"
  shows "\<exists>resp rt'. serve path_match fmt errors E now q (Some rt) = Some (resp, Some rt')
    \<and> documented r (rs_status resp) \<and> reachable E rt' \<and> \<not> rt_closed rt'"
proof -
  have s: "serve path_match fmt errors E now q (Some rt) =
      Some (operate fmt errors E now (ro_operation r) param q (Some rt))"
    using assms(4) by (simp add: serve_def)
  have "r \<in> set app_routes" using found_route [OF assms(4)] .
  then consider "r = healthz_route" | "r = metrics_route" | "r = submit_route" | "r = get_route" | "r = cancel_route"
    by (auto simp: app_routes_def)
  then show ?thesis
  proof cases
    case 3
    note doc = s 3 submit_route_def documented_def
    show ?thesis
    proof (cases "request_valid (hr_submission q)")
      case False
      then show ?thesis using assms(1,3) by (simp add: doc api_submit_def validation_handler_def)
    next
      case True
      let ?q = "hr_submission q"
      have ne: "\<not> blank (rq_input ?q)" "case rq_key ?q of None \<Rightarrow> True | Some k \<Rightarrow> length_in 128 k"
        using True assms(5) by (auto simp: request_valid_def length_in_def)
      obtain res rt' where a: "submit E now (rq_input ?q) (Inr (rq_pattern ?q)) (rq_session_id ?q) (rq_key ?q) rt
          = (res, rt')" "reachable E rt'" "\<not> rt_closed rt'"
        "case res of Inr rid \<Rightarrow> \<exists>run. runs_get rt' rid = Some run \<and> rt_heap rt' rid = Some run \<and> rr_id run = rid
         | Inl e \<Rightarrow> (\<exists>d. e = RunQueueFullError d) \<or> (\<exists>m. e = IdempotencyConflictError m)"
        using submit_answers [OF assms(1-3) ne] by blast
      then show ?thesis
        using True by (auto simp: doc api_submit_def handle_exception_status ok_response_def split: sum.splits)
    qed
  next
    case 4
    then show ?thesis using assms(1,3)
      by (auto simp: s get_route_def documented_def api_get_run_def runtime_get_def handle_exception_status
          ok_response_def split: option.splits)
  next
    case 5
    obtain res rt' where a: "cancel E now param rt = (res, rt')" "reachable E rt'" "\<not> rt_closed rt'"
      "case res of Inr done \<Rightarrow> \<exists>run. runs_get rt' param = Some run \<and> terminal (rr_state run)
       | Inl e \<Rightarrow> \<exists>m. e = RunNotFoundError m"
      using cancel_answers [OF assms(1-3)] by blast
    then show ?thesis
      by (auto simp: s 5 cancel_route_def documented_def api_cancel_run_def runtime_get_def handle_exception_status
          ok_response_def split: sum.splits)
  qed (use assms(1,3) in \<open>simp_all add: s healthz_route_def metrics_route_def documented_def api_healthz_def
      ok_response_def\<close>)
qed

theorem answers_are_documented_witness:
  "\<exists>resp rt'. serve (\<lambda>t p. if t = p then Some [] else None) (\<lambda>_. []) (\<lambda>_. []) small_env 1
      \<lparr>hr_method = ''POST'', hr_path = ''/v1/runs'', hr_submission = \<lparr>rq_input = ''hello'', rq_pattern = REACT,
        rq_session_id = None, rq_key = Some ''k''\<rparr>, hr_include_audit = False\<rparr> (Some small_start) = Some (resp, Some rt')
    \<and> documented submit_route (rs_status resp) \<and> reachable small_env rt'"
proof -
  let ?q = "\<lparr>hr_method = ''POST'', hr_path = ''/v1/runs'', hr_submission = \<lparr>rq_input = ''hello'', rq_pattern = REACT,
        rq_session_id = None, rq_key = Some ''k''\<rparr>, hr_include_audit = False\<rparr>"
  have "\<not> blank ''hello''" by code_simp
  then have ne: "rq_input (hr_submission ?q) = [] \<or> \<not> blank (rq_input (hr_submission ?q))" by simp
  have "find_route (\<lambda>t p. if t = p then Some [] else None) (hr_method ?q) (hr_path ?q) app_routes = Some (submit_route, [])"
    by (simp add: app_routes_def healthz_route_def metrics_route_def submit_route_def)
  from answers_are_documented [OF reachable.init [OF wf_small_bus small_new] small_uuids_ok small_start_fields(1)
      [THEN eq_False [THEN iffD1]] this ne]
  show ?thesis by blast
qed

text \<open>What the server has accepted it also serves: the run that a \<open>202\<close> shows is at once found under
  its id, with the same content.\<close>

theorem accepted_run_is_served:
  assumes "reachable E rt" and "uuids_ok E" and "\<not> rt_closed rt"
    and "api_submit errors E now q (Some rt) = (resp, s)" and "rs_status resp = 202"
  shows "\<exists>run. rs_body resp = run_payload run PNone
    \<and> api_get_run (rr_id run) False s = ok_response 200 (rs_body resp) []"
proof -
  have v: "request_valid q" using assms(4,5) by (auto simp: api_submit_def validation_handler_def split: if_splits)
  obtain rid rt' run where a: "submit E now (rq_input q) (Inr (rq_pattern q)) (rq_session_id q) (rq_key q) rt = (Inr rid, rt')"
    "rt_heap rt' rid = Some run" "s = Some rt'" "rs_body resp = run_payload run PNone"
    using assms(4,5) v
    by (auto simp: api_submit_def handle_exception_status ok_response_def server_error_def
        split: sum.splits prod.splits option.splits exn.splits if_splits)
  have "strip (rq_input q) \<noteq> []"
    using a(1) by (auto simp: submit_def Let_def)
  then have ne: "\<not> blank (rq_input q)" by simp
  have key: "case rq_key q of None \<Rightarrow> True | Some k \<Rightarrow> length_in 128 k" using v by (simp add: request_valid_def)
  have "\<exists>run. runs_get rt' rid = Some run \<and> rt_heap rt' rid = Some run \<and> rr_id run = rid"
    using submit_answers [OF assms(1-3) ne key, of now "rq_pattern q" "rq_session_id q"] a(1) by auto
  then show ?thesis using a(2-4) by (auto simp: api_get_run_def runtime_get_def)
qed

theorem accepted_run_is_served_witness:
  "\<exists>resp s run. api_submit (\<lambda>_. []) small_env 1 \<lparr>rq_input = ''hello'', rq_pattern = SIMPLE, rq_session_id = None,
        rq_key = None\<rparr> (Some small_start) = (resp, s)
    \<and> rs_status resp = 202 \<and> api_get_run (rr_id run) False s = ok_response 200 (run_payload run PNone) []"
proof -
  let ?q = "\<lparr>rq_input = ''hello'', rq_pattern = SIMPLE, rq_session_id = None, rq_key = None\<rparr>"
  have r: "reachable small_env small_start" by (rule reachable.init [OF wf_small_bus small_new])
  have o: "\<not> rt_closed small_start" by (simp add: small_start_fields)
  have "strip ''hello'' \<noteq> []" by code_simp
  then obtain rid s' run where "submit small_env 1 ''hello'' (Inr SIMPLE) None None small_start = (Inr rid, s')"
    "rt_heap s' rid = Some run"
    using submit_accepts [OF reachable_inv [OF r small_uuids_ok] small_uuids_ok o, of "''hello''" 1 SIMPLE None]
    by (auto simp: small_start_fields queue_full_def)
  then have a: "api_submit (\<lambda>_. []) small_env 1 ?q (Some small_start) = (ok_response 202 (run_payload run PNone) [], Some s')"
    by (simp add: api_submit_def request_valid_def length_in_def)
  have st: "rs_status (ok_response 202 (run_payload run PNone) []) = 202" by (simp add: ok_response_def)
  from accepted_run_is_served [OF r small_uuids_ok o a st] a st show ?thesis by fastforce
qed

end
