(* ===== verification/Ports.thy ===== *)
theory Ports
  imports Sessions Task_Queue Run_Repository Leases Storage
begin

section \<open>The infrastructure ports\<close>

text \<open>
  The protocols of \<open>ports.py\<close> as records of operations on an adapter's state, and the adapters in
  memory as values of these types. A \<open>Protocol\<close> is structural: an adapter conforms when it has the
  operations with their signatures, which is what the types of the values below say. What a client may
  rely on beyond that are the locales of the theories of the adapters, which the same operations
  interpret. An operation that may raise gives an error or its result; one that may suspend gives
  \<open>None\<close> when it does.
\<close>

record ('s, 'run) run_repository_ops =
  ro_add :: "'run \<Rightarrow> idempotency_record option \<Rightarrow> 's \<Rightarrow> (exn + unit) \<times> 's"
  ro_get :: "string \<Rightarrow> 's \<Rightarrow> 'run option"
  ro_list :: "'s \<Rightarrow> 'run list"
  ro_find_idempotency :: "string \<Rightarrow> 's \<Rightarrow> idempotency_record option"
  ro_delete :: "string \<Rightarrow> 's \<Rightarrow> 's"

record 's checkpoint_ops =
  co_save :: "checkpoint \<Rightarrow> 's \<Rightarrow> (exn + unit) \<times> 's"
  co_load :: "string \<Rightarrow> 's \<Rightarrow> checkpoint option"
  co_delete :: "string \<Rightarrow> 's \<Rightarrow> 's"

record ('s, 'task) task_queue_ops =
  qo_capacity :: "'s \<Rightarrow> int"
  qo_full :: "'s \<Rightarrow> bool"
  qo_qsize :: "'s \<Rightarrow> nat"
  qo_put_nowait :: "'task \<Rightarrow> 's \<Rightarrow> exn + 's"
  qo_get :: "'s \<Rightarrow> ('task \<times> 's) option"
  qo_task_done :: "'s \<Rightarrow> exn + 's"

record 's lease_ops =
  lo_acquire :: "time \<Rightarrow> string \<Rightarrow> string \<Rightarrow> pyfloat \<Rightarrow> 's \<Rightarrow> (exn + bool) \<times> 's"
  lo_renew :: "time \<Rightarrow> string \<Rightarrow> string \<Rightarrow> pyfloat \<Rightarrow> 's \<Rightarrow> (exn + bool) \<times> 's"
  lo_release :: "string \<Rightarrow> string \<Rightarrow> 's \<Rightarrow> bool \<times> 's"
  lo_owner :: "time \<Rightarrow> string \<Rightarrow> 's \<Rightarrow> string option \<times> 's"

record 's publisher_ops =
  po_publish :: "published_event \<Rightarrow> 's \<Rightarrow> 's"

record 's session_ops =
  so_get :: "'s \<Rightarrow> string \<Rightarrow> message list"
  so_append_turn :: "string \<Rightarrow> string \<Rightarrow> string \<Rightarrow> 's \<Rightarrow> (exn + unit) \<times> 's"
  so_delete :: "string \<Rightarrow> 's \<Rightarrow> 's"

subsection \<open>The adapters in memory\<close>

definition checkpoint_store_new :: checkpoints where
  "checkpoint_store_new = []"

definition lease_manager_new :: leases where
  "lease_manager_new = []"

definition event_publisher_new :: published where
  "event_publisher_new = []"

definition memory_run_repository :: "run_heap \<Rightarrow> (run_repository, address) run_repository_ops" where
  "memory_run_repository H = \<lparr>ro_add = repo_add H, ro_get = repo_get, ro_list = repo_list H,
     ro_find_idempotency = repo_find, ro_delete = repo_delete\<rparr>"

definition memory_checkpoint_store :: "checkpoints checkpoint_ops" where
  "memory_checkpoint_store = \<lparr>co_save = checkpoint_save, co_load = checkpoint_load, co_delete = checkpoint_delete\<rparr>"

definition memory_task_queue :: "('a task_queue, 'a) task_queue_ops" where
  "memory_task_queue = \<lparr>qo_capacity = (\<lambda>q. int (tq_capacity q)), qo_full = queue_full, qo_qsize = queue_qsize,
     qo_put_nowait = queue_put_nowait, qo_get = queue_get, qo_task_done = queue_task_done\<rparr>"

definition memory_lease_manager :: "leases lease_ops" where
  "memory_lease_manager = \<lparr>lo_acquire = lease_acquire, lo_renew = lease_renew, lo_release = lease_release,
     lo_owner = lease_owner\<rparr>"

definition memory_event_publisher :: "published publisher_ops" where
  "memory_event_publisher = \<lparr>po_publish = publisher_publish\<rparr>"

definition memory_session_repository :: "session_store session_ops" where
  "memory_session_repository = \<lparr>so_get = session_get, so_append_turn = append_turn, so_delete = session_delete\<rparr>"

text \<open>A new adapter holds nothing.\<close>

lemma new_adapters_empty:
  "co_load memory_checkpoint_store rid checkpoint_store_new = None"
  "lo_owner memory_lease_manager now resource lease_manager_new = (None, lease_manager_new)"
  "ro_get (memory_run_repository H) rid repo_new = None"
  "ro_find_idempotency (memory_run_repository H) key repo_new = None"
  by (simp_all add: memory_checkpoint_store_def checkpoint_load_def checkpoint_store_new_def memory_lease_manager_def
      lease_owner_def lease_manager_new_def memory_run_repository_def repo_get_def repo_find_def repo_new_def)

end
