(* ===== verification/Thread_Pool.thy ===== *)
theory Thread_Pool
  imports Errors
begin

section \<open>Thread pools\<close>

text \<open>
  \<open>ThreadPoolExecutor\<close> of the standard library, as the tools and the provider use it through
  \<open>run_in_executor\<close>: it starts a function when one of its threads is free, in the order of submission.
  A future that is cancelled before its function has started never starts; a function that has started
  runs on until it returns, whoever still waits for it. Calls are named by numbers.
\<close>

record pool =
  pl_size :: nat
  pl_waiting :: "nat list"
  pl_running :: "nat list"
  pl_accepts :: bool

definition pool_new :: "nat \<Rightarrow> pool" where
  "pool_new n = \<lparr>pl_size = n, pl_waiting = [], pl_running = [], pl_accepts = True\<rparr>"

definition pool_submit :: "nat \<Rightarrow> pool \<Rightarrow> exn + pool" where
  "pool_submit c p =
     (if pl_accepts p then Inr (p\<lparr>pl_waiting := pl_waiting p @ [c]\<rparr>)
      else Inl (BuiltinRuntimeError ''cannot schedule new futures after shutdown''))"

text \<open>A thread that is free takes the next function; a function returns.\<close>

definition pool_start :: "pool \<Rightarrow> pool option" where
  "pool_start p =
     (case pl_waiting p of
        [] \<Rightarrow> None
      | c # cs \<Rightarrow>
         if length (pl_running p) < pl_size p
         then Some (p\<lparr>pl_waiting := cs, pl_running := pl_running p @ [c]\<rparr>) else None)"

definition pool_return :: "nat \<Rightarrow> pool \<Rightarrow> pool option" where
  "pool_return c p =
     (if c \<in> set (pl_running p) then Some (p\<lparr>pl_running := remove1 c (pl_running p)\<rparr>) else None)"

definition pool_cancel :: "nat \<Rightarrow> pool \<Rightarrow> pool" where
  "pool_cancel c p = p\<lparr>pl_waiting := removeAll c (pl_waiting p)\<rparr>"

text \<open>\<open>shutdown(wait=True, cancel_futures=True)\<close>, and whether its wait is over.\<close>

definition pool_shutdown :: "pool \<Rightarrow> pool" where
  "pool_shutdown p = p\<lparr>pl_waiting := [], pl_accepts := False\<rparr>"

definition pool_ended :: "pool \<Rightarrow> bool" where
  "pool_ended p \<longleftrightarrow> \<not> pl_accepts p \<and> pl_running p = []"

subsection \<open>Invariant\<close>

definition pool_ok :: "nat \<Rightarrow> pool \<Rightarrow> bool" where
  "pool_ok n p \<longleftrightarrow> pl_size p = n \<and> length (pl_running p) \<le> n \<and> distinct (pl_waiting p @ pl_running p)"

lemmas pool_defs = pool_submit_def pool_start_def pool_return_def pool_cancel_def pool_shutdown_def

lemma length_remove_one:
  "c \<in> set xs \<Longrightarrow> Suc (length (remove1 c xs)) = length xs" "length xs \<le> n \<Longrightarrow> length (remove1 c xs) \<le> n"
  using length_pos_if_in_set [of c xs] by (auto simp: length_remove1)

lemma pool_ok_new: "pool_ok n (pool_new n)"
  by (simp add: pool_ok_def pool_new_def)

lemma pool_ok_steps:
  assumes "pool_ok n p"
  shows "pool_submit c p = Inr q \<Longrightarrow> c \<notin> set (pl_waiting p @ pl_running p) \<Longrightarrow> pool_ok n q"
    and "pool_start p = Some q \<Longrightarrow> pool_ok n q"
    and "pool_return c p = Some q \<Longrightarrow> pool_ok n q"
    and "pool_ok n (pool_cancel c p)" and "pool_ok n (pool_shutdown p)"
  using assms
  by (auto simp: pool_ok_def pool_defs length_remove_one(2) distinct_removeAll dest: notin_set_remove1
      split: if_splits list.splits)

text \<open>What waits while a thread is free can start.\<close>

lemma pool_starts:
  assumes "pl_waiting p \<noteq> []" and "length (pl_running p) < pl_size p"
  shows "\<exists>q. pool_start p = Some q"
  using assms by (auto simp: pool_start_def split: list.splits)

end
