(* ===== verification/Tool_Threads.thy ===== *)
theory Tool_Threads
  imports Tools Thread_Pool
begin

section \<open>The threads of a synchronous tool\<close>

text \<open>
  \<open>ToolRegistry._invoke\<close> awaits a coroutine function and hands any other function to a thread pool: the
  tool's own, which \<open>register\<close> creates with \<open>max_concurrency\<close> threads, or the registry's.

  The state below is that of one synchronous tool: its semaphore, the calls that are inside \<open>wait_for\<close>
  and its pool.
\<close>

subsection \<open>The tool\<close>

text \<open>Where \<open>_invoke\<close> runs a function: in the task itself, or in a pool that has taken the call.\<close>

datatype invocation = Awaited | In_own_pool pool | In_shared_pool pool

definition invoke :: "bool \<Rightarrow> pool option \<Rightarrow> pool \<Rightarrow> nat \<Rightarrow> exn + invocation" where
  "invoke is_coroutine own shared c =
     (if is_coroutine then Inr Awaited
      else case own of
        Some p \<Rightarrow> map_sum id In_own_pool (pool_submit c p)
      | None \<Rightarrow> map_sum id In_shared_pool (pool_submit c shared))"

record threads =
  th_free :: nat
  th_inside :: "nat list"
  th_pool :: pool

text \<open>\<open>register\<close>: a semaphore and a pool of the same size.\<close>

definition threads_new :: "nat \<Rightarrow> threads" where
  "threads_new n = \<lparr>th_free = n, th_inside = [], th_pool = pool_new n\<rparr>"

text \<open>A call passes the semaphore and invokes the function; an invocation that fails leaves at once.\<close>

definition thread_call :: "nat \<Rightarrow> threads \<Rightarrow> threads option" where
  "thread_call c s =
     (if 0 < th_free s \<and> c \<notin> set (th_inside s) \<and> c \<notin> set (pl_running (th_pool s))
      then (case invoke False (Some (th_pool s)) (pool_new 0) c of
              Inr (In_own_pool p) \<Rightarrow>
                Some (s\<lparr>th_free := th_free s - 1, th_inside := th_inside s @ [c], th_pool := p\<rparr>)
            | _ \<Rightarrow> Some s)
      else None)"

text \<open>The call leaves \<open>wait_for\<close> and gives its permit back.\<close>

definition thread_leave :: "nat \<Rightarrow> threads \<Rightarrow> threads" where
  "thread_leave c s =
     (if c \<in> set (th_inside s)
      then s\<lparr>th_free := th_free s + 1, th_inside := remove1 c (th_inside s)\<rparr> else s)"

definition thread_start :: "threads \<Rightarrow> threads option" where
  "thread_start s = map_option (\<lambda>p. s\<lparr>th_pool := p\<rparr>) (pool_start (th_pool s))"

definition thread_return :: "nat \<Rightarrow> threads \<Rightarrow> threads option" where
  "thread_return c s = map_option (\<lambda>p. thread_leave c (s\<lparr>th_pool := p\<rparr>)) (pool_return c (th_pool s))"

text \<open>Its time is up, or its task is cancelled: the future is cancelled, and the call leaves.\<close>

definition thread_stop :: "nat \<Rightarrow> threads \<Rightarrow> threads option" where
  "thread_stop c s =
     (if c \<in> set (th_inside s) then Some (thread_leave c (s\<lparr>th_pool := pool_cancel c (th_pool s)\<rparr>)) else None)"

definition thread_close :: "threads \<Rightarrow> threads" where
  "thread_close s = s\<lparr>th_pool := pool_shutdown (th_pool s)\<rparr>"

datatype thread_op = Th_call nat | Th_start | Th_return nat | Th_stop nat | Th_close

fun thread_step :: "thread_op \<Rightarrow> threads \<Rightarrow> threads option" where
  "thread_step (Th_call c) s = thread_call c s"
| "thread_step Th_start s = thread_start s"
| "thread_step (Th_return c) s = thread_return c s"
| "thread_step (Th_stop c) s = thread_stop c s"
| "thread_step Th_close s = Some (thread_close s)"

inductive thread_reachable :: "nat \<Rightarrow> threads \<Rightarrow> bool" for n where
  new: "thread_reachable n (threads_new n)"
| step: "thread_reachable n s \<Longrightarrow> thread_step x s = Some s' \<Longrightarrow> thread_reachable n s'"

subsection \<open>Invariant\<close>

definition threads_ok :: "nat \<Rightarrow> threads \<Rightarrow> bool" where
  "threads_ok n s \<longleftrightarrow> pool_ok n (th_pool s) \<and> th_free s + length (th_inside s) = n \<and> distinct (th_inside s)
     \<and> set (pl_waiting (th_pool s)) \<subseteq> set (th_inside s)"

lemmas thread_defs = thread_call_def thread_start_def thread_return_def thread_stop_def thread_close_def
  thread_leave_def pool_defs invoke_def

lemma threads_ok_step:
  assumes ok: "threads_ok n s" and step: "thread_step x s = Some s'"
  shows "threads_ok n s'"
proof -
  have p: "pool_ok n (th_pool s)" using ok by (simp add: threads_ok_def)
  show ?thesis
  proof (cases x)
    case (Th_call c)
    then show ?thesis using ok step
      by (auto simp: threads_ok_def pool_ok_def thread_defs split: if_splits)
  next
    case Th_start
    then show ?thesis using ok step
      by (auto simp: threads_ok_def pool_ok_def thread_defs split: list.splits if_splits)
  next
    case (Th_return c)
    then show ?thesis using ok step pool_ok_steps(3) [OF p, of c]
      using length_remove_one(1) [of c "th_inside s"]
      by (auto simp: threads_ok_def pool_ok_def thread_defs length_remove_one(2) dest: notin_set_remove1 split: if_splits)
  next
    case (Th_stop c)
    then show ?thesis using ok step
      using length_remove_one(1) [of c "th_inside s"]
      by (auto simp: threads_ok_def pool_ok_def thread_defs distinct_removeAll split: if_splits)
  next
    case Th_close
    then show ?thesis using ok step by (auto simp: threads_ok_def pool_ok_def thread_defs)
  qed
qed

lemma threads_ok_reachable: "thread_reachable n s \<Longrightarrow> threads_ok n s"
proof (induction rule: thread_reachable.induct)
  case new
  then show ?case by (simp add: threads_ok_def threads_new_def pool_ok_new) (simp add: pool_new_def)
qed (rule threads_ok_step)

subsection \<open>Permits and threads\<close>

text \<open>C33: however calls, timeouts and returns of the functions interleave, a synchronous tool has at
  most \<open>max_concurrency\<close> calls inside \<open>wait_for\<close> and at most as many functions running in its threads.
  As long as every function that runs still has its call waiting for it, a call that has passed the
  semaphore finds a free thread: the pool never makes it wait.\<close>

theorem threads_match_permits:
  assumes "thread_reachable n s"
  shows "length (th_inside s) \<le> n \<and> th_free s = n - length (th_inside s) \<and> length (pl_running (th_pool s)) \<le> n
    \<and> (set (pl_running (th_pool s)) \<subseteq> set (th_inside s) \<longrightarrow> pl_waiting (th_pool s) \<noteq> []
       \<longrightarrow> thread_start s \<noteq> None)"
proof -
  note ok = threads_ok_reachable [OF assms, unfolded threads_ok_def pool_ok_def]
  let ?p = "th_pool s"
  have "thread_start s \<noteq> None" if sub: "set (pl_running ?p) \<subseteq> set (th_inside s)" and w: "pl_waiting ?p \<noteq> []"
  proof -
    have "length (pl_waiting ?p @ pl_running ?p) = card (set (pl_waiting ?p @ pl_running ?p))"
      using ok by (simp only: distinct_card)
    also have "\<dots> \<le> card (set (th_inside s))" using ok sub by (intro card_mono) auto
    also have "\<dots> \<le> n" using ok card_length [of "th_inside s"] by linarith
    finally have "length (pl_waiting ?p) + length (pl_running ?p) \<le> n" by simp
    then have "length (pl_running ?p) < pl_size ?p" using w ok by (cases "pl_waiting ?p") auto
    from pool_starts [OF w this] show ?thesis by (auto simp: thread_start_def)
  qed
  then show ?thesis using ok by auto
qed

text \<open>A tool with one permit: a call is inside and its function runs, and the next call has to wait.\<close>

definition busy_tool :: threads where
  "busy_tool = \<lparr>th_free = 1, th_inside = [7], th_pool = \<lparr>pl_size = 2, pl_waiting = [7], pl_running = [],
     pl_accepts = True\<rparr>\<rparr>"

lemma busy_tool_reachable: "thread_reachable 2 busy_tool"
  by (rule thread_reachable.step [OF thread_reachable.new, where x = "Th_call 7"])
    (simp add: busy_tool_def threads_new_def pool_new_def thread_defs)

theorem threads_match_permits_witness:
  "length (th_inside busy_tool) \<le> 2 \<and> thread_start busy_tool \<noteq> None"
  using threads_match_permits [OF busy_tool_reachable] by (simp add: busy_tool_def)

subsection \<open>Functions that hang\<close>

text \<open>When functions whose calls have timed out occupy every thread, no further call gets one.\<close>

lemma hung_step:
  assumes "thread_step x s = Some s'" and "length (pl_running (th_pool s)) = pl_size (th_pool s)"
    and "\<forall>c \<in> set (pl_running (th_pool s)). x \<noteq> Th_return c"
  shows "pl_running (th_pool s') = pl_running (th_pool s)" "pl_size (th_pool s') = pl_size (th_pool s)"
  using assms by (cases x; force simp: thread_defs split: if_splits list.splits)+

fun thread_steps :: "thread_op list \<Rightarrow> threads \<Rightarrow> threads option" where
  "thread_steps [] s = Some s"
| "thread_steps (x # xs) s = (case thread_step x s of None \<Rightarrow> None | Some s' \<Rightarrow> thread_steps xs s')"

theorem hung_functions_starve_the_tool:
  assumes "thread_steps xs s = Some s'" and "length (pl_running (th_pool s)) = pl_size (th_pool s)"
    and "\<forall>c \<in> set (pl_running (th_pool s)). Th_return c \<notin> set xs"
  shows "pl_running (th_pool s') = pl_running (th_pool s) \<and> (pl_running (th_pool s) \<noteq> [] \<longrightarrow> \<not> pool_ended (th_pool s'))"
  using assms
proof (induction xs arbitrary: s)
  case (Cons x xs)
  obtain s1 where s1: "thread_step x s = Some s1" "thread_steps xs s1 = Some s'"
    using Cons.prems(1) by (auto split: option.splits)
  have "\<forall>c \<in> set (pl_running (th_pool s)). x \<noteq> Th_return c" using Cons.prems(3) by auto
  note same = hung_step [OF s1(1) Cons.prems(2) this]
  have "length (pl_running (th_pool s1)) = pl_size (th_pool s1)"
    "\<forall>c \<in> set (pl_running (th_pool s1)). Th_return c \<notin> set xs"
    unfolding same using Cons.prems(2,3) by auto
  from Cons.IH [OF s1(2) this] show ?case unfolding same .
qed (simp add: pool_ended_def)

text \<open>Two calls whose functions hang, and their timeouts, are enough for a tool with two threads.\<close>

theorem two_timeouts_hang_a_tool:
  "\<exists>s s'. thread_reachable 2 s \<and> th_free s = 2 \<and> pl_running (th_pool s) = [0, 1]
     \<and> thread_steps [Th_call 2] s = Some s' \<and> th_inside s' = [2] \<and> thread_step Th_start s' = None
     \<and> \<not> pool_ended (th_pool (thread_close s'))"
proof -
  let ?xs = "[Th_call 0, Th_start, Th_call 1, Th_start, Th_stop 0, Th_stop 1]"
  define s where "s = \<lparr>th_free = 2, th_inside = [], th_pool = \<lparr>pl_size = 2, pl_waiting = [], pl_running = [0, 1],
    pl_accepts = True\<rparr>\<rparr>"
  have s: "thread_steps ?xs (threads_new 2) = Some s"
    by (simp add: s_def threads_new_def pool_new_def thread_defs numeral_2_eq_2)
  have "thread_reachable n s" if "thread_steps xs t = Some s" "thread_reachable n t" for xs n s t
    using that by (induction xs arbitrary: t) (auto split: option.splits intro: thread_reachable.step)
  then have "thread_reachable 2 s" using s thread_reachable.new by blast
  moreover define s' where "s' = s\<lparr>th_free := 1, th_inside := [2], th_pool := (th_pool s)\<lparr>pl_waiting := [2]\<rparr>\<rparr>"
  have "thread_steps [Th_call 2] s = Some s'" by (simp add: s_def s'_def thread_defs)
  moreover have "thread_step Th_start s' = None" by (simp add: s_def s'_def thread_defs)
  moreover have "\<not> pool_ended (th_pool (thread_close s'))" by (simp add: s_def s'_def thread_defs pool_ended_def)
  moreover have "th_inside s' = [2]" "th_free s = 2" "pl_running (th_pool s) = [0, 1]" by (simp_all add: s_def s'_def)
  ultimately show ?thesis by blast
qed

end
