(* ===== verification/Provider_Threads.thy ===== *)
theory Provider_Threads
  imports Thread_Pool Providers
begin

section \<open>The threads of the OpenAI-compatible client\<close>

text \<open>
  \<open>OpenAICompatibleClient.complete\<close> hands \<open>_request\<close>, which blocks, to its executor, and awaits the
  future. \<open>create_runtime\<close> gives it the executor of the runtime, with \<open>thread_workers\<close> threads; without
  one it is the default executor of the event loop. When the task that awaits is interrupted, the future
  is cancelled: a request that has not started never starts, and one that has started is sent and
  answered, although nobody reads the answer.
\<close>

record openai_client =
  oc_config :: provider_config
  oc_executor :: "pool option"
  oc_default :: pool
  oc_awaited :: "(nat \<times> llm_request) list"
  oc_sent :: nat

definition openai_new :: "provider_config \<Rightarrow> pool option \<Rightarrow> pool \<Rightarrow> openai_client" where
  "openai_new c executor default_executor =
     \<lparr>oc_config = c, oc_executor = executor, oc_default = default_executor, oc_awaited = [], oc_sent = 0\<rparr>"

definition oc_pool :: "openai_client \<Rightarrow> pool" where
  "oc_pool s = (case oc_executor s of Some p \<Rightarrow> p | None \<Rightarrow> oc_default s)"

definition oc_put :: "pool \<Rightarrow> openai_client \<Rightarrow> openai_client" where
  "oc_put p s = (case oc_executor s of Some _ \<Rightarrow> s\<lparr>oc_executor := Some p\<rparr> | None \<Rightarrow> s\<lparr>oc_default := p\<rparr>)"

text \<open>\<open>complete\<close> up to its suspension; \<open>c\<close> names the future.\<close>

definition openai_complete :: "nat \<Rightarrow> llm_request \<Rightarrow> openai_client \<Rightarrow> exn + openai_client" where
  "openai_complete c request s =
     (case pool_submit c (oc_pool s) of
        Inl e \<Rightarrow> Inl e
      | Inr p \<Rightarrow> Inr ((oc_put p s)\<lparr>oc_awaited := oc_awaited s @ [(c, request)]\<rparr>))"

text \<open>A thread starts \<open>_request\<close>, which sends the request.\<close>

definition openai_start :: "openai_client \<Rightarrow> openai_client option" where
  "openai_start s = map_option (\<lambda>p. (oc_put p s)\<lparr>oc_sent := oc_sent s + 1\<rparr>) (pool_start (oc_pool s))"

text \<open>\<open>_request\<close> returns: what \<open>complete\<close> gives its caller, if there still is one.\<close>

definition openai_return ::
    "(int \<Rightarrow> string) \<Rightarrow> (pyval \<Rightarrow> string) \<Rightarrow> (string \<Rightarrow> int option) \<Rightarrow> (string \<Rightarrow> parsed) \<Rightarrow>
     nat \<Rightarrow> exchange \<Rightarrow> openai_client \<Rightarrow> ((exn + decoded) option \<times> openai_client) option" where
  "openai_return num repr int_of loads c x s =
     (case pool_return c (oc_pool s) of
        None \<Rightarrow> None
      | Some p \<Rightarrow>
         (let s1 = oc_put p s in
          case map_of (oc_awaited s) c of
            None \<Rightarrow> Some (None, s1)
          | Some request \<Rightarrow>
              Some (Some (openai_request num repr int_of loads (oc_config s) request x),
                s1\<lparr>oc_awaited := filter (\<lambda>(d, r). d \<noteq> c) (oc_awaited s)\<rparr>)))"

definition openai_interrupted :: "nat \<Rightarrow> openai_client \<Rightarrow> openai_client" where
  "openai_interrupted c s =
     (oc_put (pool_cancel c (oc_pool s)) s)\<lparr>oc_awaited := filter (\<lambda>(d, r). d \<noteq> c) (oc_awaited s)\<rparr>"

inductive openai_step :: "openai_client \<Rightarrow> openai_client \<Rightarrow> bool" where
  complete: "c \<notin> set (map fst (oc_awaited s)) \<Longrightarrow> c \<notin> set (pl_running (oc_pool s)) \<Longrightarrow>
    openai_complete c request s = Inr s' \<Longrightarrow> openai_step s s'"
| start: "openai_start s = Some s' \<Longrightarrow> openai_step s s'"
| return: "openai_return num repr int_of loads c x s = Some (r, s') \<Longrightarrow> openai_step s s'"
| interrupted: "openai_step s (openai_interrupted c s)"

subsection \<open>Invariant\<close>

definition openai_ok :: "nat \<Rightarrow> openai_client \<Rightarrow> bool" where
  "openai_ok n s \<longleftrightarrow> pool_ok n (oc_pool s) \<and> distinct (map fst (oc_awaited s))
     \<and> set (pl_waiting (oc_pool s)) \<subseteq> set (map fst (oc_awaited s))
     \<and> set (map fst (oc_awaited s)) \<subseteq> set (pl_waiting (oc_pool s) @ pl_running (oc_pool s))"

lemma oc_put_simps [simp]:
  "oc_pool (oc_put p s) = p" "oc_awaited (oc_put p s) = oc_awaited s" "oc_sent (oc_put p s) = oc_sent s"
  "oc_config (oc_put p s) = oc_config s"
  "oc_pool (s\<lparr>oc_awaited := a\<rparr>) = oc_pool s" "oc_pool (s\<lparr>oc_sent := k\<rparr>) = oc_pool s"
  by (simp_all add: oc_pool_def oc_put_def split: option.splits)

lemma distinct_map_fst_filter: "distinct (map fst xs) \<Longrightarrow> distinct (map fst (filter P xs))"
  by (induction xs) auto

lemma fst_filter_ne: "set (map fst (filter (\<lambda>(d, r). d \<noteq> c) xs)) = set (map fst xs) - {c}"
  by (induction xs) auto

lemma openai_ok_step: "openai_step s s' \<Longrightarrow> openai_ok n s \<Longrightarrow> openai_ok n s'"
proof (induction rule: openai_step.induct)
  case (complete c s request s')
  then show ?case
    by (auto simp: openai_complete_def openai_ok_def pool_ok_def pool_submit_def simp del: set_map
        split: sum.splits if_splits)
next
  case (start s s')
  then show ?case
    by (auto simp: openai_start_def openai_ok_def pool_ok_def pool_start_def simp del: set_map
        split: list.splits if_splits)
next
  case (return num repr int_of loads c x s r s')
  have p: "pool_ok n (oc_pool s)" "c \<in> set (pl_running (oc_pool s))" and ok: "openai_ok n s"
    using return by (auto simp: openai_ok_def openai_return_def pool_return_def split: if_splits option.splits)
  then have nw: "c \<notin> set (pl_waiting (oc_pool s))" by (auto simp: pool_ok_def)
  have rm: "set (remove1 c (pl_running (oc_pool s))) = set (pl_running (oc_pool s)) - {c}"
    using p by (simp add: pool_ok_def)
  have ok1: "pool_ok n ((oc_pool s)\<lparr>pl_running := remove1 c (pl_running (oc_pool s))\<rparr>)"
    using pool_ok_steps(3) [OF p(1), of c] p(2) by (simp add: pool_return_def)
  show ?case
  proof (cases "map_of (oc_awaited s) c")
    case None
    then have "c \<notin> set (map fst (oc_awaited s))" by (simp add: map_of_eq_None_iff)
    then show ?thesis
      using return None ok ok1 rm p(2) by (auto simp: openai_return_def openai_ok_def pool_return_def simp del: set_map)
  next
    case (Some req)
    then show ?thesis
      using return ok ok1 rm p(2) nw
      by (auto simp: openai_return_def openai_ok_def pool_return_def fst_filter_ne distinct_map_fst_filter
          simp del: set_map)
  qed
next
  case (interrupted s c)
  then show ?case
    using pool_ok_steps(4) [of n "oc_pool s" c]
    by (auto simp: openai_interrupted_def openai_ok_def pool_cancel_def fst_filter_ne distinct_map_fst_filter
        simp del: set_map)
qed

lemma openai_ok_new:
  "openai_ok n (openai_new c (Some (pool_new n)) d)"
  by (simp add: openai_ok_def openai_new_def oc_pool_def pool_ok_new) (simp add: pool_new_def)

text \<open>As long as a request is awaited, the provider works: one is being sent, or a thread takes the next.\<close>

lemma openai_progress:
  assumes "openai_ok n s" and "0 < n" and "oc_awaited s \<noteq> []"
  shows "pl_running (oc_pool s) \<noteq> [] \<or> (\<exists>s'. openai_start s = Some s')"
proof (cases "pl_running (oc_pool s) = []")
  case True
  have "set (map fst (oc_awaited s)) \<noteq> {}" using assms(3) by simp
  then have "pl_waiting (oc_pool s) \<noteq> []" using assms(1) True by (auto simp: openai_ok_def simp del: set_map)
  moreover have "length (pl_running (oc_pool s)) < pl_size (oc_pool s)"
    using assms(1,2) True by (simp add: openai_ok_def pool_ok_def)
  ultimately show ?thesis using pool_starts by (fastforce simp: openai_start_def)
qed simp

text \<open>A request that is interrupted before a thread has taken it is never sent.\<close>

lemma interrupted_not_sent:
  assumes "openai_ok n s" and "c \<notin> set (pl_running (oc_pool s))"
  shows "c \<notin> set (pl_waiting (oc_pool (openai_interrupted c s)) @ pl_running (oc_pool (openai_interrupted c s)))"
    and "c \<notin> set (map fst (oc_awaited (openai_interrupted c s)))"
  using assms(2) by (auto simp: openai_interrupted_def pool_cancel_def)

text \<open>A request whose caller has given up keeps its thread until it is answered: with one thread the next
  request waits, although nobody awaits the first any more.\<close>

theorem abandoned_request_keeps_thread:
  "\<exists>s1 s2 s3. openai_complete 0 r (openai_new c (Some (pool_new 1)) d) = Inr s1 \<and> openai_start s1 = Some s2
     \<and> openai_complete 1 r (openai_interrupted 0 s2) = Inr s3
     \<and> map fst (oc_awaited s3) = [1] \<and> pl_running (oc_pool s3) = [0] \<and> openai_start s3 = None"
  by (simp add: openai_complete_def openai_start_def openai_interrupted_def openai_new_def oc_pool_def oc_put_def
      pool_new_def pool_defs)

end
