(* ===== verification/Undisturbed.thy ===== *)
theory Undisturbed
  imports Runtime_Progress
begin

section \<open>A batch of runs that nobody disturbs\<close>

text \<open>
  SIMPLE runs are submitted one after the other and then left alone: the model answers every call with
  a text that is not blank, no time runs out, nobody cancels and nobody closes. Then every run succeeds,
  whatever the order in which workers, tasks and answers take their turns.
\<close>

subsection \<open>Steps\<close>

inductive calm_step :: "env \<Rightarrow> runtime \<Rightarrow> runtime \<Rightarrow> bool" for E where
  pick: "worker_pick i s = Some s' \<Longrightarrow> calm_step E s s'"
| resume: "worker_resume i s = Some s' \<Longrightarrow> calm_step E s s'"
| start: "exec_start E now tid s = Some s' \<Longrightarrow> calm_step E s s'"
| drive: "exec_drive E now tid s = Some s' \<Longrightarrow> calm_step E s s'"
| answer: "llm_return E now tid (Inr response) s = Some s' \<Longrightarrow> \<not> blank (resp_content response) \<Longrightarrow>
    calm_step E s s'"
| finish: "exec_finish E now tid s = Some s' \<Longrightarrow> calm_step E s s'"

inductive calm_steps :: "env \<Rightarrow> runtime \<Rightarrow> nat \<Rightarrow> runtime \<Rightarrow> bool" for E s where
  zero: "calm_steps E s 0 s"
| more: "calm_steps E s n t \<Longrightarrow> calm_step E t u \<Longrightarrow> calm_steps E s (Suc n) u"

lemma calm_internal: "calm_step E s s' \<Longrightarrow> internal_step E s s'"
  by (cases rule: calm_step.cases) (auto intro: internal_step.intros task_step.intros)

lemma calm_steps_internal: "calm_steps E s n t \<Longrightarrow> internal_steps E s n t"
  by (induction rule: calm_steps.induct) (auto intro: internal_steps.intros calm_internal)

text \<open>The loop of submissions, which does not suspend: the queue has no other user in between.\<close>

fun submit_all :: "env \<Rightarrow> time \<Rightarrow> string list \<Rightarrow> runtime \<Rightarrow> (exn + string list) \<times> runtime" where
  "submit_all E now [] s = (Inr [], s)"
| "submit_all E now (input # inputs) s =
     (case submit E now input (Inr SIMPLE) None None s of
        (Inl e, s1) \<Rightarrow> (Inl e, s1)
      | (Inr rid, s1) \<Rightarrow>
         (case submit_all E now inputs s1 of
            (Inl e, s2) \<Rightarrow> (Inl e, s2)
          | (Inr rids, s2) \<Rightarrow> (Inr (rid # rids), s2)))"

subsection \<open>Invariant\<close>

fun calm_pc :: "exec_pc \<Rightarrow> bool" where
  "calm_pc Not_started = True"
| "calm_pc (Driving c) =
     ((\<exists>out. c = Ret out \<and> \<not> blank out)
      \<or> (\<exists>req st k. c = Complete req st k \<and> (\<forall>response. k response = Ret (resp_content response))))"
| "calm_pc (At_llm st k began) = (\<forall>response. k response = Ret (resp_content response))"
| "calm_pc (At_tool name k began) = False"
| "calm_pc (Pattern_done r) = (\<exists>out. r = Inr out \<and> \<not> blank out)"
| "calm_pc (Exec_done r) = (r = Returned)"

definition calm :: "runtime \<Rightarrow> bool" where
  "calm s \<longleftrightarrow> \<not> rt_closed s
     \<and> (\<forall>rid r. rt_heap s rid = Some r \<longrightarrow> rr_kind r = SIMPLE)
     \<and> (\<forall>rid st. run_state_of s rid = Some st \<longrightarrow> st \<noteq> FAILED \<and> st \<noteq> CANCELLED)
     \<and> (\<forall>x \<in> set (rt_execs s). \<not> et_cancel x \<and> calm_pc (et_pc x))
     \<and> rt_workers s \<noteq> [] \<and> (\<forall>w \<in> set (rt_workers s). wk_pc w \<noteq> W_dead)
     \<and> dom (rt_heap s) \<subseteq> set (rt_runs s)"

lemma calm_next:
  assumes c: "calm s" and step: "rt_step E s s'" and i: "rt_inv E s" and u: "uuids_ok E"
    and st: "\<And>rid. run_state_of s' rid \<noteq> None \<Longrightarrow> run_state_of s rid \<noteq> None"
      "\<And>rid t. run_state_of s' rid = Some t \<Longrightarrow> t \<noteq> FAILED \<and> t \<noteq> CANCELLED"
    and x: "\<forall>x \<in> set (rt_execs s'). \<not> et_cancel x \<and> calm_pc (et_pc x)"
    and w: "rt_workers s' \<noteq> []" "\<forall>w \<in> set (rt_workers s'). wk_pc w \<noteq> W_dead"
    and cl: "rt_closed s' = rt_closed s" "rt_runs s' = rt_runs s"
  shows "calm s'"
proof -
  have "rr_kind r' = SIMPLE" if h: "rt_heap s' rid = Some r'" for rid r'
  proof -
    obtain r where "rt_heap s rid = Some r" using st(1) [of rid] h by (auto simp: run_state_of_def)
    then show ?thesis using kind_kept [OF step i u, of rid r] c h by (auto simp: calm_def)
  qed
  moreover have "dom (rt_heap s') \<subseteq> set (rt_runs s')"
  proof
    fix rid assume "rid \<in> dom (rt_heap s')"
    then have "rid \<in> dom (rt_heap s)" using st(1) [of rid] by (auto simp: run_state_of_def)
    then show "rid \<in> set (rt_runs s')" using c cl(2) unfolding calm_def by auto
  qed
  ultimately show ?thesis using c st(2) x w cl by (simp add: calm_def)
qed

text \<open>A step of a task, as the lemmas about single steps give it.\<close>

lemma calm_task:
  assumes c: "calm s" and step: "rt_step E s s'" and i: "rt_inv E s" and u: "uuids_ok E"
    and st: "run_state_of s' = (run_state_of s)(rid \<mapsto> t)" "run_state_of s rid \<noteq> None" "t \<noteq> FAILED" "t \<noteq> CANCELLED"
    and x: "rt_execs s' = (rt_execs s)[tid := x]" "\<not> et_cancel x" "calm_pc (et_pc x)"
    and w: "rt_workers s' = rt_workers s" and cl: "rt_closed s' = rt_closed s" "rt_runs s' = rt_runs s"
  shows "calm s'"
proof (rule calm_next [OF c step i u _ _ _ _ _ cl])
  show "\<forall>x \<in> set (rt_execs s'). \<not> et_cancel x \<and> calm_pc (et_pc x)"
    using c x set_update_subset_insert [of "rt_execs s" tid x] by (auto simp: calm_def)
qed (use c st w in \<open>auto simp: calm_def split: if_splits\<close>)

text \<open>A step of a worker.\<close>

lemma calm_worker:
  assumes c: "calm s" and step: "rt_step E s s'" and i: "rt_inv E s" and u: "uuids_ok E"
    and h: "rt_heap s' = rt_heap s" and cl: "rt_closed s' = rt_closed s" "rt_runs s' = rt_runs s"
    and x: "\<forall>x \<in> set (rt_execs s'). \<not> et_cancel x \<and> calm_pc (et_pc x)"
    and w: "rt_workers s' = (rt_workers s)[k := v]" "wk_pc v \<noteq> W_dead"
  shows "calm s'"
proof (rule calm_next [OF c step i u _ _ x _ _ cl])
  show "\<forall>w \<in> set (rt_workers s'). wk_pc w \<noteq> W_dead"
    using c w set_update_subset_insert [of "rt_workers s" k v] by (auto simp: calm_def)
  show "rt_workers s' \<noteq> []" using c w(1) by (simp add: calm_def)
qed (use c state_heap_cong [OF h] in \<open>auto simp: calm_def\<close>)

lemma calm_at:
  assumes "calm s" and "rt_inv E s" and "exec_at s tid = Some pc"
  shows "tid < length (rt_execs s)" "et_pc (rt_execs s ! tid) = pc" "calm_pc pc" "\<not> et_cancel (rt_execs s ! tid)"
    and "(\<forall>r. pc \<noteq> Exec_done r) \<Longrightarrow>
      \<exists>t. run_state_of s (exec_run s tid) = Some t \<and> t \<in> pc_states pc - {CANCELLED} \<and> exec_run s tid \<in> set (rt_runs s)"
proof -
  show l: "tid < length (rt_execs s)" and pc: "et_pc (rt_execs s ! tid) = pc"
    using assms(3) by (auto simp: exec_at_def split: if_splits)
  show "calm_pc pc" "\<not> et_cancel (rt_execs s ! tid)" using assms(1) l pc nth_mem [OF l] by (auto simp: calm_def)
  assume "\<forall>r. pc \<noteq> Exec_done r"
  then have "live (rt_execs s) tid" using l pc by (simp add: live_pc)
  moreover have "sched (run_state_of s) (qids s) (rt_execs s)"
    using rt_inv0D(4) [OF rt_invD(1) [OF assms(2)]] by (simp add: inv_sched_def)
  ultimately obtain t where t: "run_state_of s (exec_run s tid) = Some t" "t \<in> pc_states pc"
    using sched_live [of _ _ _ tid] pc by blast
  moreover have "t \<noteq> CANCELLED" "t \<noteq> FAILED" using assms(1) t(1) by (auto simp: calm_def)
  moreover have "\<not> terminal t" using t(2) \<open>t \<noteq> CANCELLED\<close> \<open>\<forall>r. pc \<noteq> Exec_done r\<close> by (cases pc) auto
  ultimately show "\<exists>t. run_state_of s (exec_run s tid) = Some t \<and> t \<in> pc_states pc - {CANCELLED}
      \<and> exec_run s tid \<in> set (rt_runs s)"
    using rt_inv0D(2) [OF rt_invD(1) [OF assms(2)]] by (auto simp: inv_registry_def)
qed

lemma calm_kept:
  assumes step: "calm_step E s s'" and c: "calm s" and r: "reachable E s" and u: "uuids_ok E"
  shows "calm s'"
proof -
  note i = reachable_inv [OF r u] and rs = internal_step_rt [OF calm_internal [OF step]]
  note next_task = calm_task [OF c rs i u]
  from step show ?thesis
  proof cases
    case (pick k)
    then have k: "k < length (rt_workers s)" "wk_pc (rt_workers s ! k) = W_idle" "\<not> wk_cancel (rt_workers s ! k)"
      and "queue_get (rt_queue s) \<noteq> None"
      by (auto simp: worker_pick_def split: if_splits option.splits)
    then obtain rid rest where q: "qids s = rid # rest" by (auto simp: queue_get_def split: list.splits)
    then have "run_state_of s rid = Some READY \<or> run_state_of s rid = Some CANCELLED"
      using sched_queued [of "run_state_of s" "qids s" "rt_execs s" rid] rt_inv0D(4) [OF rt_invD(1) [OF i]]
      by (simp add: inv_sched_def)
    then have st: "run_state_of s rid = Some READY" using c by (auto simp: calm_def)
    from worker_pick_starts [OF i k q st] pick
    have s': "rt_heap s' = rt_heap s" "rt_closed s' = rt_closed s"
      "rt_execs s' = rt_execs s @ [\<lparr>et_run = rid, et_pc = Not_started, et_cancel = False, et_began = 0\<rparr>]"
      "rt_workers s' = (rt_workers s)[k := (rt_workers s ! k)\<lparr>wk_pc := W_busy rid (length (rt_execs s))\<rparr>]"
      "rt_runs s' = rt_runs s" by auto
    show ?thesis by (rule calm_worker [OF c rs i u s'(1,2,5) _ s'(4)]) (use c s'(3) in \<open>auto simp: calm_def\<close>)
  next
    case (resume k)
    then obtain rid tid res where k: "k < length (rt_workers s)" "wk_pc (rt_workers s ! k) = W_busy rid tid"
      "tid < length (rt_execs s)" "et_pc (rt_execs s ! tid) = Exec_done res"
      by (auto simp: worker_resume_def split: if_splits worker_pc.splits exec_pc.splits)
    have "calm_pc (et_pc (rt_execs s ! tid))" using c nth_mem [OF k(3)] by (simp add: calm_def)
    then have "res = Returned" using k(4) by simp
    from worker_resume_done [OF i k(1,2,4)] resume this
    have s': "rt_heap s' = rt_heap s" "rt_closed s' = rt_closed s" "rt_execs s' = rt_execs s"
      "rt_workers s' = (rt_workers s)[k := (rt_workers s ! k)\<lparr>wk_pc := W_idle\<rparr>]" "rt_runs s' = rt_runs s" by auto
    show ?thesis by (rule calm_worker [OF c rs i u s'(1,2,5) _ s'(4)]) (use c s'(3) in \<open>auto simp: calm_def\<close>)
  next
    case (start now tid)
    have pc: "exec_at s tid = Some Not_started"
      using start by (auto simp: exec_start_def split: if_splits option.splits)
    note a = calm_at [OF c i pc]
    have st: "run_state_of s (exec_run s tid) = Some READY" using a(5) by auto
    then obtain r0 where r0: "rt_heap s (exec_run s tid) = Some r0" by (auto simp: run_state_of_def)
    from exec_start_runs [OF pc a(4) st, of E now] start
    obtain r where s': "run_state_of s' = (run_state_of s)(exec_run s tid \<mapsto> RUNNING)"
      "rt_execs s' = (rt_execs s)[tid := (rt_execs s ! tid)\<lparr>et_pc :=
         Driving (pattern_run (env_codec E) (rr_kind r) (exec_context E r s)), et_began := now\<rparr>]"
      "rr_kind r = rr_kind r0" "rr_input r = rr_input r0" "rt_workers s' = rt_workers s" "rt_closed s' = rt_closed s"
      "rt_runs s' = rt_runs s"
      using r0 by auto
    have "rr_kind r0 = SIMPLE" "\<not> blank (rr_input r0)"
      using c r0 inv_objects_run_id [OF rt_inv0D(1) [OF rt_invD(1) [OF i]] r0] by (auto simp: calm_def wf_run_def)
    then have "calm_pc (Driving (pattern_run (env_codec E) (rr_kind r) (exec_context E r s)))"
      using simple_asks_once [of "exec_context E r s"] s'(3,4) by (auto simp: exec_context_def)
    then show ?thesis using s' st a(4) by - (rule next_task [OF s'(1) _ _ _ s'(2)]; simp)
  next
    case (drive now tid)
    then obtain co where pc: "exec_at s tid = Some (Driving co)"
      by (auto simp: exec_drive_defs split: option.splits exec_pc.splits)
    note a = calm_at [OF c i pc]
    have running: "run_state_of s (exec_run s tid) = Some RUNNING" using a(5) by auto
    note st = running
    from a(3) consider (ret) out where "co = Ret out" "\<not> blank out"
      | (ask) req st k where "co = Complete req st k" "\<forall>response. k response = Ret (resp_content response)" by auto
    then show ?thesis
    proof cases
      case ret
      then have s': "s' = set_exec tid (Pattern_done (Inr out)) s"
        using exec_drive_returns [of s tid out E now] pc drive by simp
      have u': "run_state_of s' = (run_state_of s)(exec_run s tid \<mapsto> RUNNING)" using st by (auto simp: s')
      have x': "rt_execs s' = (rt_execs s)[tid := (rt_execs s ! tid)\<lparr>et_pc := Pattern_done (Inr out)\<rparr>]"
        "rt_workers s' = rt_workers s" "rt_closed s' = rt_closed s" "rt_runs s' = rt_runs s"
        by (simp_all add: s' set_exec_def)
      show ?thesis by (rule next_task [OF u' _ _ _ x'(1)]) (use x' a(4) st ret(2) in simp_all)
    next
      case ask
      obtain s2 where s2: "exec_drive E now tid s = Some s2" "run_state_of s2 = (run_state_of s)(exec_run s tid \<mapsto> WAITING)"
        "rt_execs s2 = (rt_execs s)[tid := (rt_execs s ! tid)\<lparr>et_pc := At_llm st k now\<rparr>]"
        "rt_workers s2 = rt_workers s" "rt_closed s2 = rt_closed s" "rt_runs s2 = rt_runs s"
        using exec_drive_waits [OF pc [unfolded ask(1)] running, of E now] by blast
      then have "s2 = s'" using drive by simp
      note s2 = s2 [unfolded this]
      show ?thesis by (rule next_task [OF s2(2) _ _ _ s2(3)]) (use s2 a(4) ask(2) running in simp_all)
    qed
  next
    case (answer now tid response)
    then obtain st k b where pc: "exec_at s tid = Some (At_llm st k b)"
      by (auto simp: llm_return_def split: option.splits exec_pc.splits)
    note a = calm_at [OF c i pc]
    have w: "run_state_of s (exec_run s tid) = Some WAITING" using a(5) by auto
    obtain s2 where s2: "llm_return E now tid (Inr response) s = Some s2"
      "run_state_of s2 = (run_state_of s)(exec_run s tid \<mapsto> RUNNING)"
      "rt_execs s2 = (rt_execs s)[tid := (rt_execs s ! tid)\<lparr>et_pc := Driving (k response)\<rparr>]"
      "rt_workers s2 = rt_workers s" "rt_closed s2 = rt_closed s" "rt_runs s2 = rt_runs s"
      using llm_return_resumes [OF pc w, of E now response] by blast
    then have "s2 = s'" using answer by simp
    note s2 = s2 [unfolded this]
    show ?thesis by (rule next_task [OF s2(2) _ _ _ s2(3)]) (use s2 a(3,4) w answer(2) in simp_all)
  next
    case (finish now tid)
    then obtain res where pc: "exec_at s tid = Some (Pattern_done res)"
      by (auto simp: exec_finish_def split: option.splits exec_pc.splits)
    note a = calm_at [OF c i pc]
    obtain out where out: "res = Inr out" "\<not> blank out" using a(3) by auto
    have w: "run_state_of s (exec_run s tid) = Some RUNNING" "exec_run s tid \<in> set (rt_runs s)" using a(5) by auto
    then obtain r where "rt_heap s (exec_run s tid) = Some r" "rr_state r = RUNNING" by (auto simp: run_state_of_def)
    from exec_finish_succeeds [OF i pc [unfolded out(1)] this out(2) w(2), of now] finish
    have s2: "run_state_of s' = (run_state_of s)(exec_run s tid \<mapsto> SUCCEEDED)"
      "rt_execs s' = (rt_execs s)[tid := (rt_execs s ! tid)\<lparr>et_pc := Exec_done Returned\<rparr>]"
      "rt_workers s' = rt_workers s" "rt_closed s' = rt_closed s" "rt_runs s' = rt_runs s" by auto
    show ?thesis by (rule next_task [OF s2(1) _ _ _ s2(2)]) (use s2 a(4) w in simp_all)
  qed
qed

text \<open>A state in which no such step is possible: every run has succeeded.\<close>

lemma calm_live_steps:
  assumes c: "calm s" and r: "reachable E s" and u: "uuids_ok E" and l: "live (rt_execs s) tid"
  shows "\<exists>s'. calm_step E s s'"
proof -
  note i = reachable_inv [OF r u]
  have at: "exec_at s tid = Some (et_pc (rt_execs s ! tid))" using l by (simp add: exec_at_def)
  note a = calm_at [OF c i at]
  have open_pc: "\<forall>r. et_pc (rt_execs s ! tid) \<noteq> Exec_done r" using l by (simp add: live_pc)
  have st: "\<exists>t. run_state_of s (exec_run s tid) = Some t \<and> t \<in> pc_states (et_pc (rt_execs s ! tid)) - {CANCELLED}"
    using a(5) open_pc by blast
  show ?thesis
  proof (cases "et_pc (rt_execs s ! tid)")
    case Not_started
    then show ?thesis
      using exec_start_runs [of s tid E 0] at a(4) st by (auto intro: calm_step.start)
  next
    case (Driving co)
    then consider out where "co = Ret out" | req st k where "co = Complete req st k" using a(3) by auto
    then show ?thesis
    proof cases
      case 1
      then show ?thesis using exec_drive_returns [of s tid out E 0] at Driving by (auto intro: calm_step.drive)
    next
      case 2
      then show ?thesis using exec_drive_waits [of s tid req st k E 0] at Driving st
        by (auto intro: calm_step.drive)
    qed
  next
    case (At_llm sn k b)
    have "\<not> blank (resp_content (plain_response ''ok''))" by code_simp
    then show ?thesis
      using llm_return_resumes [of s tid sn k b E 0 "plain_response ''ok''"] at At_llm st calm_step.answer by fastforce
  next
    case (At_tool name k b)
    then show ?thesis using a(3) by simp
  next
    case (Pattern_done res)
    then have "exec_finish E 0 tid s \<noteq> None" using at by (simp add: exec_finish_def split: sum.split)
    then show ?thesis by (blast intro: calm_step.finish)
  next
    case (Exec_done res)
    then show ?thesis using open_pc by simp
  qed
qed

lemma calm_rest:
  assumes c: "calm s" and r: "reachable E s" and u: "uuids_ok E" and rest: "\<nexists>s'. calm_step E s s'"
    and st: "run_state_of s rid = Some st"
  shows "st = SUCCEEDED"
proof -
  note i = reachable_inv [OF r u]
  have dead: "\<not> live (rt_execs s) tid" for tid using calm_live_steps [OF c r u] rest by blast
  have w: "0 < length (rt_workers s)" "wk_pc (rt_workers s ! 0) \<noteq> W_dead" "\<not> wk_cancel (rt_workers s ! 0)"
    using c inv_liveD(3) [OF rt_invD(2) [OF i], of "rt_workers s ! 0"] by (auto simp: calm_def)
  have q: "qids s = []"
  proof (rule ccontr)
    assume "qids s \<noteq> []"
    then obtain rid' more where q: "qids s = rid' # more" by (cases "qids s") auto
    have s': "run_state_of s rid' = Some READY"
      using sched_queued [OF reachable_sched [OF r u], of rid'] q c by (auto simp: calm_def)
    show False
    proof (cases "wk_pc (rt_workers s ! 0)")
      case W_idle
      then show False using worker_pick_starts [OF i w(1) _ w(3) q s'] rest by (auto intro: calm_step.pick)
    next
      case (W_busy rid2 tid)
      then have "tid < length (rt_execs s)"
        using rt_inv0D(5) [OF rt_invD(1) [OF i]] w(1) unfolding inv_workers_def by blast
      then obtain res where "et_pc (rt_execs s ! tid) = Exec_done res"
        using dead [of tid] not_live_done by (auto simp: live_def)
      then show False using worker_resume_done [OF i w(1) W_busy] rest by (auto intro: calm_step.resume)
    qed (use w in simp)
  qed
  have "terminal st" using sched_covered [OF reachable_sched [OF r u] st] q dead by auto
  moreover have "st \<noteq> FAILED" "st \<noteq> CANCELLED" using c st by (auto simp: calm_def)
  ultimately show ?thesis by (cases st) simp_all
qed

lemma calm_steps_kept:
  assumes "calm_steps E s n t" and "calm s" and "reachable E s" and "uuids_ok E"
  shows "calm t \<and> reachable E t \<and> (\<forall>rid. rt_heap s rid \<noteq> None \<longrightarrow> rt_heap t rid \<noteq> None)"
  using assms(1)
proof induction
  case (more n t v)
  then have t: "calm t" "reachable E t" by simp_all
  note rs = internal_step_rt [OF calm_internal [OF more.hyps(2)]]
  show ?case
    using more.IH calm_kept [OF more.hyps(2) t assms(4)] reachable.step [OF t(2) rs]
      kind_kept [OF rs reachable_inv [OF t(2) assms(4)] assms(4)] by fastforce
qed (use assms in simp)

subsection \<open>The submissions\<close>

text \<open>What a batch looks like while it is submitted: nothing but queued runs and idle workers.\<close>

definition batch :: "runtime \<Rightarrow> bool" where
  "batch s \<longleftrightarrow> \<not> rt_closed s \<and> rt_execs s = []
     \<and> (\<forall>rid r. rt_heap s rid = Some r \<longrightarrow> rr_kind r = SIMPLE \<and> rr_state r = READY)
     \<and> (rt_started s \<longrightarrow> rt_workers s \<noteq> []) \<and> (\<forall>w \<in> set (rt_workers s). wk_pc w = W_idle)"

lemma new_batch: "runtime_new E b = Inr s \<Longrightarrow> batch s \<and> qids s = []"
  by (auto simp: runtime_new_def queue_new_def batch_def split: sum.splits if_splits)

lemma batch_calm:
  assumes "batch s" and "rt_inv E s" and "rt_workers s \<noteq> []"
  shows "calm s"
proof -
  have "rid \<in> set (rt_runs s)" if h: "rt_heap s rid = Some r" for rid r
  proof -
    have "run_state_of s rid = Some READY" using assms(1) h by (simp add: batch_def run_state_of_def)
    then show ?thesis using rt_inv0D(2) [OF rt_invD(1) [OF assms(2)]] by (auto simp: inv_registry_def)
  qed
  then show ?thesis using assms(1,3) by (auto simp: calm_def batch_def run_state_of_def)
qed

lemma batch_submit:
  assumes b: "batch s" and r: "reachable E s" and u: "uuids_ok E" and inp: "strip input \<noteq> []"
    and q: "length (qids s) < nat (cf_queue_capacity (env_config E))"
  shows "\<exists>rid s'. submit E now input (Inr SIMPLE) None None s = (Inr rid, s') \<and> batch s' \<and> reachable E s'
    \<and> rt_workers s' \<noteq> [] \<and> qids s' = qids s @ [rid] \<and> rt_heap s' rid \<noteq> None
    \<and> (\<forall>rid. rt_heap s rid \<noteq> None \<longrightarrow> rt_heap s' rid \<noteq> None)"
proof -
  note i = reachable_inv [OF r u]
  have "\<not> queue_full (rt_queue s)"
    using q rt_inv0D(6) [OF rt_invD(1) [OF i]] by (simp add: queue_full_def inv_queue_def)
  then obtain rid s' ru where s': "submit E now input (Inr SIMPLE) None None s = (Inr rid, s')"
    "run_state_of s' = (run_state_of s)(rid \<mapsto> READY)" "rt_heap s' rid = Some ru" "rr_kind ru = SIMPLE"
    "qids s' = qids s @ [rid]" "rt_workers s' = rt_workers (snd (runtime_start E s))" "rt_execs s' = rt_execs s"
    "\<not> rt_closed s'"
    using submit_accepts [OF i u _ inp, of now SIMPLE None] b by (auto simp: batch_def)
  have step: "rt_step E s s'" using rt_step.submit [of E s now input "Inr SIMPLE" None None] s'(1) by simp
  note r' = reachable.step [OF r step]
  have "rt_workers s' \<noteq> [] \<and> (\<forall>w \<in> set (rt_workers s'). wk_pc w = W_idle)"
    using b runtime_validateD(1) [OF reachable_valid [OF r]]
    by (auto simp: s'(6) runtime_start_def Let_def batch_def set_gauge_def)
  moreover have "rr_kind r2 = SIMPLE \<and> rr_state r2 = READY" if h: "rt_heap s' rid2 = Some r2" for rid2 r2
  proof (cases "rid2 = rid")
    case True
    then show ?thesis using h s'(3,4) fun_cong [OF s'(2), of rid] by (simp add: run_state_of_def)
  next
    case False
    then have st: "run_state_of s rid2 = run_state_of s' rid2" using s'(2) by simp
    then obtain r1 where r1: "rt_heap s rid2 = Some r1" using h by (auto simp: run_state_of_def)
    have "rr_kind r2 = rr_kind r1" using kind_kept [OF step i u r1] h by simp
    moreover have "rr_state r2 = rr_state r1" using st r1 h by (simp add: run_state_of_def)
    ultimately show ?thesis using b r1 by (simp add: batch_def)
  qed
  ultimately have "batch s'" using b s'(7,8) by (simp add: batch_def)
  moreover have "rt_heap s' rid2 \<noteq> None" if "rt_heap s rid2 \<noteq> None" for rid2
    using that kind_kept [OF step i u] by fastforce
  ultimately show ?thesis using s'(1,3,5) r' \<open>rt_workers s' \<noteq> [] \<and> _\<close> by blast
qed

lemma batch_submits:
  assumes "batch s" and "reachable E s" and u: "uuids_ok E" and "\<forall>input \<in> set inputs. strip input \<noteq> []"
    and "length (qids s) + length inputs \<le> nat (cf_queue_capacity (env_config E))"
  shows "\<exists>rids s'. submit_all E now inputs s = (Inr rids, s') \<and> batch s' \<and> reachable E s'
    \<and> (inputs \<noteq> [] \<longrightarrow> rt_workers s' \<noteq> []) \<and> qids s' = qids s @ rids \<and> length rids = length inputs
    \<and> (\<forall>rid. rid \<in> set rids \<or> rt_heap s rid \<noteq> None \<longrightarrow> rt_heap s' rid \<noteq> None)"
  using assms
proof (induction inputs arbitrary: s)
  case (Cons input inputs)
  have "strip input \<noteq> []" "length (qids s) < nat (cf_queue_capacity (env_config E))" using Cons.prems by auto
  from batch_submit [OF Cons.prems(1,2) u this, of now]
  obtain rid s1 where s1: "submit E now input (Inr SIMPLE) None None s = (Inr rid, s1)" "batch s1" "reachable E s1"
    "rt_workers s1 \<noteq> []" "qids s1 = qids s @ [rid]" "rt_heap s1 rid \<noteq> None"
    "\<forall>rid. rt_heap s rid \<noteq> None \<longrightarrow> rt_heap s1 rid \<noteq> None" by blast
  have "length (qids s1) + length inputs \<le> nat (cf_queue_capacity (env_config E))"
    unfolding s1(5) using Cons.prems(5) by simp
  from Cons.IH [OF s1(2,3) u _ this] Cons.prems(4)
  obtain rids s2 where s2: "submit_all E now inputs s1 = (Inr rids, s2)" "batch s2" "reachable E s2"
    "inputs \<noteq> [] \<longrightarrow> rt_workers s2 \<noteq> []" "qids s2 = qids s1 @ rids" "length rids = length inputs"
    "\<forall>rid. rid \<in> set rids \<or> rt_heap s1 rid \<noteq> None \<longrightarrow> rt_heap s2 rid \<noteq> None" by auto
  have "rt_workers s2 \<noteq> []" using s2(1,4) s1(4) by (cases inputs) auto
  then show ?case using s1 s2 by (auto simp del: not_None_eq)
qed simp

lemma batch_outcome:
  assumes b: "batch s0" "qids s0 = []" and r0: "reachable E s0" and u: "uuids_ok E"
    and inp: "\<forall>input \<in> set inputs. strip input \<noteq> []"
    and fits: "int (length inputs) \<le> cf_queue_capacity (env_config E)"
  shows "\<exists>rids s. submit_all E now inputs s0 = (Inr rids, s) \<and> length rids = length inputs
    \<and> (\<forall>n t. calm_steps E s n t \<longrightarrow>
        n \<le> (4 * nat (cf_max_agent_steps (env_config E)) + 11) * length inputs
          + 2 * nat (cf_max_concurrency (env_config E))
        \<and> ((\<nexists>u. calm_step E t u) \<longrightarrow>
            (\<forall>rid \<in> set rids. \<exists>run. runtime_wait t rid = Inr (Some run) \<and> rt_heap t rid = Some run
              \<and> rr_state run = SUCCEEDED)))"
proof -
  have "length (qids s0) + length inputs \<le> nat (cf_queue_capacity (env_config E))" using b(2) fits by simp
  from batch_submits [OF b(1) r0 u inp this, of now]
  obtain rids s where s: "submit_all E now inputs s0 = (Inr rids, s)" "batch s" "reachable E s"
    "inputs \<noteq> [] \<longrightarrow> rt_workers s \<noteq> []" "qids s = rids" "length rids = length inputs"
    "\<forall>rid \<in> set rids. rt_heap s rid \<noteq> None"
    unfolding b(2) by auto
  note i = reachable_inv [OF s(3) u]
  have bound: "n \<le> (4 * nat (cf_max_agent_steps (env_config E)) + 11) * length inputs
      + 2 * nat (cf_max_concurrency (env_config E))" if "calm_steps E s n t" for n t
  proof -
    have "n \<le> potential E s" using internal_bounded [OF calm_steps_internal [OF that] s(3) u] by simp
    also note potential_bound [OF s(3) u]
    also have "length (filter exec_live (rt_execs s)) + length (tq_items (rt_queue s)) = length inputs"
      using s(2,6) arg_cong [OF s(5), of length] by (simp add: batch_def)
    also have "2 * top_budget E + 5 = 4 * nat (cf_max_agent_steps (env_config E)) + 11" by (simp add: top_budget_def)
    also have "length (rt_workers s) \<le> nat (cf_max_concurrency (env_config E))"
      using rt_inv0D(5) [OF rt_invD(1) [OF i]] by (simp add: inv_workers_def)
    finally show ?thesis by simp
  qed
  have "\<exists>run. runtime_wait t rid = Inr (Some run) \<and> rt_heap t rid = Some run \<and> rr_state run = SUCCEEDED"
    if st: "calm_steps E s n t" and rest: "\<nexists>u. calm_step E t u" and rid: "rid \<in> set rids" for n t rid
  proof -
    have "rt_workers s \<noteq> []" using s(4,6) rid by (cases inputs) auto
    note t = calm_steps_kept [OF st batch_calm [OF s(2) i this] s(3) u]
    then obtain run where run: "rt_heap t rid = Some run" using s(7) rid by fastforce
    have "rr_state run = SUCCEEDED"
      using calm_rest [OF _ _ u rest, of rid "rr_state run"] t run by (simp add: run_state_of_def)
    moreover have "rid \<in> set (rt_runs t)" using t run unfolding calm_def by blast
    ultimately show ?thesis using run by (simp add: runtime_wait_def runtime_get_def runs_get_def)
  qed
  then show ?thesis using s(1,6) bound by blast
qed

text \<open>C12: the runs of a batch that fits into the queue are all accepted, and when nobody disturbs them,
  every order in which workers, tasks and answers take their turns comes to rest within \<open>4 m + 11\<close> steps
  for each run and two for each worker (\<open>m\<close> the configured agent steps), and then every one of the runs
  has succeeded and \<open>wait\<close> returns it.\<close>

theorem batch_succeeds:
  assumes "wf_bus b" and "runtime_new E b = Inr s0" and "uuids_ok E"
    and "\<forall>input \<in> set inputs. strip input \<noteq> []" and "int (length inputs) \<le> cf_queue_capacity (env_config E)"
    and "submit_all E now inputs s0 = (result, s)" and "calm_steps E s n t"
    and "m = nat (cf_max_agent_steps (env_config E))"
  shows "\<exists>rids. result = Inr rids \<and> length rids = length inputs
    \<and> n \<le> (4 * m + 11) * length inputs + 2 * nat (cf_max_concurrency (env_config E))
    \<and> ((\<nexists>u. calm_step E t u) \<longrightarrow>
        (\<forall>rid \<in> set rids. \<exists>run. runtime_wait t rid = Inr (Some run) \<and> rr_state run = SUCCEEDED))"
  using batch_outcome [OF _ _ reachable.init [OF assms(1,2)] assms(3-5), of now] new_batch [OF assms(2)] assms(6-8)
  by fastforce

text \<open>Two runs and one worker, from the first step to rest.\<close>

lemma calm_comes_to_rest:
  assumes "reachable E s" and "uuids_ok E"
  shows "\<exists>n t. calm_steps E s n t \<and> (\<nexists>u. calm_step E t u)"
proof -
  have "\<exists>n t. calm_steps E s n t \<and> (\<nexists>u. calm_step E t u)" if "calm_steps E s k v" for k v
    using that
  proof (induction "potential E v" arbitrary: k v rule: less_induct)
    case less
    show ?case
    proof (cases "\<exists>u. calm_step E v u")
      case True
      then obtain u where u: "calm_step E v u" by blast
      have "reachable E v" using internal_steps_reachable [OF calm_steps_internal [OF less.prems] assms(1)] .
      from internal_lowers [OF calm_internal [OF u] this assms(2)] show ?thesis
        using less.hyps calm_steps.more [OF less.prems u] by blast
    qed (use less.prems in blast)
  qed
  then show ?thesis using calm_steps.zero by blast
qed

theorem batch_succeeds_witness:
  "\<exists>a c s n t run run'. submit_all small_env 1 [''hello'', ''world''] small_start = (Inr [a, c], s)
     \<and> calm_steps small_env s n t \<and> runtime_wait t a = Inr (Some run) \<and> rr_state run = SUCCEEDED
     \<and> runtime_wait t c = Inr (Some run') \<and> rr_state run' = SUCCEEDED"
proof -
  have "strip ''hello'' \<noteq> []" "strip ''world'' \<noteq> []" by code_simp+
  then have inp: "\<forall>input \<in> set [''hello'', ''world'']. strip input \<noteq> []" by simp
  have q: "int (length [''hello'', ''world'']) \<le> cf_queue_capacity (env_config small_env)"
    by (simp add: small_env_def small_config_def runtime_defaults_def)
  obtain result s where s: "submit_all small_env 1 [''hello'', ''world''] small_start = (result, s)" by fastforce
  have r0: "reachable small_env small_start" by (rule reachable.init [OF wf_small_bus small_new])
  have "length (qids small_start) + length [''hello'', ''world''] \<le> nat (cf_queue_capacity (env_config small_env))"
    using new_batch [OF small_new] q by simp
  from batch_submits [OF _ r0 small_uuids_ok inp this, of 1] new_batch [OF small_new] s
  have r: "reachable small_env s" by auto
  obtain n t where t: "calm_steps small_env s n t" "\<nexists>u. calm_step small_env t u"
    using calm_comes_to_rest [OF r small_uuids_ok] by blast
  from batch_succeeds [OF wf_small_bus small_new small_uuids_ok inp q s t(1) refl] t(2)
  obtain rids where rids: "result = Inr rids" "length rids = 2"
    "\<forall>rid \<in> set rids. \<exists>run. runtime_wait t rid = Inr (Some run) \<and> rr_state run = SUCCEEDED" by auto
  then obtain a c where "rids = [a, c]" by (auto simp: numeral_2_eq_2 length_Suc_conv)
  then show ?thesis using rids s t(1) by fastforce
qed

end
