(* ===== verification/Benchmarks.thy ===== *)
theory Benchmarks
  imports Client_Alone Runtime
begin

section \<open>Benchmarks and scripts\<close>

text \<open>
  The programs under \<open>benchmarks\<close> and \<open>scripts\<close>: the simulated provider, the client and the runtime
  that they build, the arguments they accept, and how they turn outcomes into a report. A report is the
  dictionary that is printed. \<open>random.Random(seed)\<close> is the sequence of its draws; the time that has
  passed, the text of a dictionary as JSON and what Docker answers are parameters. The runs themselves
  are in \<open>Benchmark_Run\<close> and \<open>Benchmark_Measure\<close>.
\<close>

subsection \<open>The reliability benchmark\<close>

record sim_provider =
  sp_failure_rate :: pyfloat
  sp_draws :: "nat \<Rightarrow> pyfloat"
  sp_next :: nat

definition simulated_new :: "(int \<Rightarrow> nat \<Rightarrow> pyfloat) \<Rightarrow> pyfloat \<Rightarrow> int \<Rightarrow> sim_provider" where
  "simulated_new random failure_rate seed =
     \<lparr>sp_failure_rate = failure_rate, sp_draws = random seed, sp_next = 0\<rparr>"

definition simulated_complete :: "sim_provider \<Rightarrow> (exn + llm_response) \<times> sim_provider" where
  "simulated_complete p =
     (if sp_draws p (sp_next p) < sp_failure_rate p
      then Inl (TransientLLMError ''injected transient failure'')
      else Inr \<lparr>resp_content = ''ok'', resp_model = ''simulated'', resp_prompt_tokens = None,
                resp_completion_tokens = None, resp_finish_reason = None, resp_metadata = []\<rparr>,
      p\<lparr>sp_next := Suc (sp_next p)\<rparr>)"

text \<open>Which provider a benchmark measures: a simulated one, or the endpoint behind a configuration.\<close>

datatype measured = Simulation sim_provider | Real_endpoint provider_config

definition measured_provider ::
    "(int \<Rightarrow> nat \<Rightarrow> pyfloat) \<Rightarrow> pyfloat option \<Rightarrow> int \<Rightarrow> string option \<Rightarrow> string \<Rightarrow> string \<Rightarrow> exn + measured" where
  "measured_provider random failure_rate seed endpoint model api_key_env =
     (case failure_rate of
        Some rate \<Rightarrow> Inr (Simulation (simulated_new random rate seed))
      | None \<Rightarrow>
         (case endpoint of
            Some url \<Rightarrow>
              if url = [] then Inl (ValueError ''endpoint is required unless --simulate-failure-rate is used'')
              else Inr (Real_endpoint (provider_defaults\<lparr>pc_backend := ''openai_compatible'', pc_base_url := url,
                     pc_model := model, pc_api_key_env := api_key_env\<rparr>))
          | None \<Rightarrow> Inl (ValueError ''endpoint is required unless --simulate-failure-rate is used'')))"

definition benchmark_client :: "int \<Rightarrow> int \<Rightarrow> time \<Rightarrow> exn + client" where
  "benchmark_client concurrency attempts now =
     (case bucket_new \<lparr>rl_capacity = max 1 (of_int concurrency), rl_refill_per_second = 1000\<rparr> now of
        Inl e \<Rightarrow> Inl e
      | Inr limiter \<Rightarrow>
         (case breaker_new (breaker_defaults\<lparr>cb_failure_threshold := max 20 (concurrency * attempts * 2),
                 cb_recovery_timeout_seconds := 1\<rparr>) of
            Inl e \<Rightarrow> Inl e
          | Inr breaker \<Rightarrow>
             client_new \<lparr>rc_max_attempts = attempts, rc_base_delay_seconds = 1/100, rc_max_delay_seconds = 1/10,
               rc_jitter_ratio = 1/4\<rparr> limiter breaker []))"

definition benchmark_request :: "string \<Rightarrow> exn + llm_request" where
  "benchmark_request model =
     (case mk_message ''user'' ''Reply with OK.'' None of
        Inl e \<Rightarrow> Inl e
      | Inr m \<Rightarrow> mk_llm_request [m] (Some model) 0 8)"

text \<open>\<open>execute\<close>: \<open>except Exception\<close> does not catch a cancellation.\<close>

definition benchmark_execute :: "exn + llm_response \<Rightarrow> exn + bool" where
  "benchmark_execute result =
     (case result of
        Inr r \<Rightarrow> Inr True
      | Inl e \<Rightarrow> if is_exception e then Inr False else Inl e)"

definition reliability_report ::
    "measured \<Rightarrow> bool list \<Rightarrow> int \<Rightarrow> int \<Rightarrow> int \<Rightarrow> int \<Rightarrow> pyfloat option \<Rightarrow> pyfloat \<Rightarrow> metrics \<Rightarrow>
     exn + (string, pyval) dict" where
  "reliability_report provider outcomes requests concurrency attempts seed failure_rate elapsed m =
     (let successes = int (length (filter id outcomes));
          simulated = (case provider of Simulation _ \<Rightarrow> True | Real_endpoint _ \<Rightarrow> False)
      in if requests = 0 then Inl (ZeroDivisionError ''division by zero'')
         else Inr [(''mode'', PStr (if simulated then ''simulation'' else ''real_endpoint'')),
           (''logical_requests'', PInt requests), (''successful'', PInt successes),
           (''failed'', PInt (requests - successes)),
           (''success_rate'', PFloat (of_int successes / of_int requests)),
           (''concurrency'', PInt concurrency), (''max_attempts'', PInt attempts),
           (''simulated_attempt_failure_rate'', case failure_rate of None \<Rightarrow> PNone | Some rate \<Rightarrow> PFloat rate),
           (''seed'', case failure_rate of None \<Rightarrow> PNone | Some _ \<Rightarrow> PInt seed),
           (''elapsed_seconds'', PFloat elapsed),
           (''metrics'', PDict (map (\<lambda>(k, v). (k, PFloat v)) (snapshot m))),
           (''warning'', if simulated then PStr
              ''simulation validates retry behavior; it is not evidence of production API availability''
            else PNone)])"

text \<open>The message of \<open>SystemExit\<close>, when the arguments are refused.\<close>

definition reliability_args :: "int \<Rightarrow> int \<Rightarrow> int \<Rightarrow> pyfloat option \<Rightarrow> string option" where
  "reliability_args requests concurrency attempts failure_rate =
     (if min requests (min concurrency attempts) \<le> 0
      then Some ''requests, concurrency, and attempts must be positive''
      else case failure_rate of
        None \<Rightarrow> None
      | Some rate \<Rightarrow> if 0 \<le> rate \<and> rate \<le> 1 then None else Some ''simulation failure rate must be in [0, 1]'')"

text \<open>The options of the command with their defaults.\<close>

record reliability_options =
  rb_requests :: int
  rb_concurrency :: int
  rb_attempts :: int
  rb_failure_rate :: "pyfloat option"
  rb_seed :: int
  rb_endpoint :: "string option"
  rb_model :: string
  rb_api_key_env :: string
  rb_output :: "string option"

definition reliability_defaults :: reliability_options where
  "reliability_defaults = \<lparr>rb_requests = 1000, rb_concurrency = 20, rb_attempts = 4, rb_failure_rate = None,
     rb_seed = 42, rb_endpoint = None, rb_model = ''agent-model'', rb_api_key_env = ''AGENT_LLM_API_KEY'',
     rb_output = None\<rparr>"

text \<open>A result goes to the file that was named, or to the standard output; \<open>json\<close> prints it.\<close>

datatype sink = To_file string string | To_stdout string

definition write_result :: "((string, pyval) dict \<Rightarrow> string) \<Rightarrow> string option \<Rightarrow> (string, pyval) dict \<Rightarrow> sink" where
  "write_result json output result =
     (let out = json result @ [CHR 0x0A]
      in case output of Some path \<Rightarrow> To_file path out | None \<Rightarrow> To_stdout out)"

subsection \<open>The concurrency benchmark\<close>

definition measure_config :: "int \<Rightarrow> int \<Rightarrow> pyfloat \<Rightarrow> runtime_config" where
  "measure_config task_count concurrency delay_seconds =
     runtime_defaults\<lparr>cf_max_concurrency := concurrency, cf_thread_workers := max 1 concurrency,
       cf_run_timeout_seconds := max 10 (delay_seconds * of_int task_count * 2)\<rparr>"

definition measure_tasks :: "nat \<Rightarrow> string list" where
  "measure_tasks task_count = map (\<lambda>index. ''benchmark task '' @ str_int (int index)) [0..<task_count]"

definition measure_report :: "run_record list \<Rightarrow> pyfloat \<Rightarrow> (string, pyval) dict" where
  "measure_report runs elapsed =
     (let successful = int (length (filter (\<lambda>r. rr_state r = SUCCEEDED) runs))
      in [(''elapsed_seconds'', PFloat elapsed), (''successful'', PInt successful),
          (''tasks_per_second'', PFloat (if elapsed \<noteq> 0 then of_int successful / elapsed else 0))])"

definition benchmark_report ::
    "int \<Rightarrow> int \<Rightarrow> pyfloat \<Rightarrow> (string, pyval) dict \<Rightarrow> pyfloat \<Rightarrow> (string, pyval) dict \<Rightarrow> pyfloat \<Rightarrow>
     (string, pyval) dict" where
  "benchmark_report task_count concurrency delay_seconds one one_elapsed many many_elapsed =
     [(''definition'', PStr ''sequential wall time / concurrent wall time''), (''task_count'', PInt task_count),
      (''requested_concurrency'', PInt concurrency), (''simulated_llm_delay_seconds'', PFloat delay_seconds),
      (''sequential'', PDict one), (''concurrent'', PDict many),
      (''speedup'', if many_elapsed \<noteq> 0 then PFloat (one_elapsed / many_elapsed) else PNone),
      (''theoretical_upper_bound'', PInt (min task_count concurrency))]"

definition concurrency_args :: "int \<Rightarrow> int \<Rightarrow> pyfloat \<Rightarrow> string option" where
  "concurrency_args tasks concurrency delay =
     (if tasks \<le> 0 \<or> concurrency \<le> 0 \<or> delay < 0
      then Some ''tasks/concurrency must be positive and delay non-negative'' else None)"

record concurrency_options =
  cb_tasks :: int
  cb_concurrency :: int
  cb_delay :: pyfloat
  cb_output :: "string option"

definition concurrency_defaults :: concurrency_options where
  "concurrency_defaults = \<lparr>cb_tasks = 10, cb_concurrency = 10, cb_delay = 1/5, cb_output = None\<rparr>"

subsection \<open>The size of an image\<close>

text \<open>The result that is printed, and the exit code.\<close>

definition check_image_size :: "string \<Rightarrow> pyfloat \<Rightarrow> int \<Rightarrow> (string, pyval) dict \<times> int" where
  "check_image_size name target_mb size_bytes =
     (let size_mb = of_int size_bytes / 1000000; meets_target = size_mb \<le> target_mb
      in ([(''image'', PStr name), (''size_bytes'', PInt size_bytes), (''size_mb_decimal'', PFloat size_mb),
           (''target_mb_decimal'', PFloat target_mb), (''meets_target'', PBool meets_target)],
          if meets_target then 0 else 1))"

text \<open>\<open>docker\<close> runs a command: its output, or the exception of \<open>subprocess.run\<close> with \<open>check\<close>; \<open>int_of\<close> is \<open>int\<close> on
  texts.\<close>

definition image_command :: "string \<Rightarrow> string list" where
  "image_command name = [''docker'', ''image'', ''inspect'', name, ''--format'', ''{{.Size}}'']"

definition image_target_default :: pyfloat where
  "image_target_default = 150"

definition image_main ::
    "(string \<Rightarrow> exn + int) \<Rightarrow> (string list \<Rightarrow> exn + string) \<Rightarrow> string \<Rightarrow> pyfloat \<Rightarrow>
     exn + (string, pyval) dict \<times> int" where
  "image_main int_of docker name target_mb =
     (case docker (image_command name) of
        Inl e \<Rightarrow> Inl e
      | Inr stdout \<Rightarrow>
         (case int_of (strip stdout) of
            Inl e \<Rightarrow> Inl e
          | Inr size_bytes \<Rightarrow> Inr (check_image_size name target_mb size_bytes)))"

subsection \<open>Lemmas\<close>

text \<open>Arguments that are accepted give a client, a request and a report.\<close>

lemma accepted_arguments_work:
  assumes "reliability_args requests concurrency attempts failure_rate = None"
  shows "\<exists>s l b. benchmark_client concurrency attempts now = Inr s \<and> cl_retry s =
        \<lparr>rc_max_attempts = attempts, rc_base_delay_seconds = 1/100, rc_max_delay_seconds = 1/10, rc_jitter_ratio = 1/4\<rparr>
      \<and> cl_limiter s = l \<and> wf_bucket l \<and> 1 \<le> tb_capacity l \<and> cl_breaker s = b \<and> tolerates (nat attempts - 1) b
      \<and> cl_calls s = [] \<and> cl_metrics s = []"
    and "reliability_report provider outcomes requests concurrency attempts seed failure_rate elapsed m \<noteq> Inl e"
proof -
  have pos: "0 < requests" "0 < concurrency" "0 < attempts"
    using assms by (auto simp: reliability_args_def min_def split: if_splits)
  let ?rl = "\<lparr>rl_capacity = max 1 (of_int concurrency), rl_refill_per_second = 1000\<rparr>"
  obtain l where l: "bucket_new ?rl now = Inr l" "tb_capacity l = max 1 (of_int concurrency)"
    by (simp add: bucket_new_def rate_limit_validate_def)
  have "attempts < max 20 (concurrency * attempts * 2)"
  proof -
    have "attempts \<le> concurrency * attempts" using mult_right_mono [of 1 concurrency attempts] pos by simp
    then show ?thesis using pos(3) unfolding less_max_iff_disj by linarith
  qed
  then show "\<exists>s l b. benchmark_client concurrency attempts now = Inr s \<and> cl_retry s =
        \<lparr>rc_max_attempts = attempts, rc_base_delay_seconds = 1/100, rc_max_delay_seconds = 1/10, rc_jitter_ratio = 1/4\<rparr>
      \<and> cl_limiter s = l \<and> wf_bucket l \<and> 1 \<le> tb_capacity l \<and> cl_breaker s = b \<and> tolerates (nat attempts - 1) b
      \<and> cl_calls s = [] \<and> cl_metrics s = []"
    using l pos wf_bucket_new [OF l(1)]
    by (simp add: benchmark_client_def breaker_new_def breaker_validate_def breaker_defaults_def client_new_def
        retry_validate_def tolerates_def)
  show "reliability_report provider outcomes requests concurrency attempts seed failure_rate elapsed m \<noteq> Inl e"
    using pos(1) by (simp add: reliability_report_def Let_def)
qed

lemma benchmark_request_ok: "\<exists>r. benchmark_request model = Inr r \<and> req_max_tokens r = 8"
proof -
  have "\<not> blank ''Reply with OK.''" by code_simp
  then show ?thesis by (simp add: benchmark_request_def mk_message_def mk_llm_request_def)
qed

end
