(* ===== verification/Benchmark_Measure.thy ===== *)
theory Benchmark_Measure
  imports Benchmarks Undisturbed
begin

section \<open>The run of the concurrency benchmark\<close>

text \<open>
  \<open>measure\<close> of \<open>benchmark_concurrency.py\<close>: a runtime of its own, whose tasks are submitted in one go, the
  waits that are gathered, and the report. The mock provider answers each call after a delay with a text
  that is not blank; \<open>create_patterns\<close> and the tools are those of the runtime. The \<open>close\<close> that follows has
  no influence on the result.
\<close>

definition measure_begin :: "env \<Rightarrow> event_bus \<Rightarrow> time \<Rightarrow> nat \<Rightarrow> exn + string list \<times> runtime" where
  "measure_begin E b now task_count =
     (case runtime_new E b of
        Inl e \<Rightarrow> Inl e
      | Inr s \<Rightarrow>
         (case submit_all E now (measure_tasks task_count) s of
            (Inl e, s1) \<Rightarrow> Inl e
          | (Inr rids, s1) \<Rightarrow> Inr (rids, s1)))"

text \<open>\<open>gather\<close> of the waits: nothing as long as one of them waits.\<close>

fun gather_waits :: "runtime \<Rightarrow> string list \<Rightarrow> (exn + unit) option" where
  "gather_waits s [] = Some (Inr ())"
| "gather_waits s (rid # rids) =
     (case runtime_wait s rid of
        Inl e \<Rightarrow> Some (Inl e)
      | Inr None \<Rightarrow> None
      | Inr (Some run) \<Rightarrow> gather_waits s rids)"

definition measure_end :: "string list \<Rightarrow> pyfloat \<Rightarrow> runtime \<Rightarrow> (exn + (string, pyval) dict) option" where
  "measure_end rids elapsed s =
     map_option (map_sum id (\<lambda>_. measure_report (List.map_filter (rt_heap s) rids) elapsed)) (gather_waits s rids)"

text \<open>\<open>benchmark\<close>, from the results of its two measurements and the times that they took.\<close>

definition benchmark_result ::
    "concurrency_options \<Rightarrow> exn + (string, pyval) dict \<Rightarrow> pyfloat \<Rightarrow> exn + (string, pyval) dict \<Rightarrow> pyfloat \<Rightarrow>
     exn + (string, pyval) dict" where
  "benchmark_result opts one one_elapsed many many_elapsed =
     (case one of Inl e \<Rightarrow> Inl e | Inr sequential \<Rightarrow>
     (case many of Inl e \<Rightarrow> Inl e | Inr concurrent \<Rightarrow>
        Inr (benchmark_report (cb_tasks opts) (cb_concurrency opts) (cb_delay opts) sequential one_elapsed
          concurrent many_elapsed)))"

text \<open>\<open>main\<close>: the message of \<open>SystemExit\<close>, the exception of the benchmark, or where its result goes.\<close>

definition concurrency_main ::
    "((string, pyval) dict \<Rightarrow> string) \<Rightarrow> (concurrency_options \<Rightarrow> exn + (string, pyval) dict) \<Rightarrow>
     concurrency_options \<Rightarrow> string + (exn + sink)" where
  "concurrency_main json bench opts =
     (case concurrency_args (cb_tasks opts) (cb_concurrency opts) (cb_delay opts) of
        Some text \<Rightarrow> Inl text
      | None \<Rightarrow> Inr (map_sum id (write_result json (cb_output opts)) (bench opts)))"

lemma gather_all:
  assumes "\<forall>rid \<in> set rids. \<exists>run. runtime_wait s rid = Inr (Some run) \<and> rt_heap s rid = Some run \<and> rr_state run = SUCCEEDED"
  shows "gather_waits s rids = Some (Inr ())"
    and "length (filter (\<lambda>r. rr_state r = SUCCEEDED) (List.map_filter (rt_heap s) rids)) = length rids"
  using assms by (induction rids) (auto simp: map_filter_simps)

lemma measure_tasks_ok: "length (measure_tasks n) = n" "\<forall>input \<in> set (measure_tasks n). strip input \<noteq> []"
proof -
  have "strip (CHR ''b'' # xs) \<noteq> []" for xs
    using not_blank_ConsI [of "CHR ''b''" xs] by (simp add: is_space_def)
  then show "length (measure_tasks n) = n" "\<forall>input \<in> set (measure_tasks n). strip input \<noteq> []"
    by (auto simp: measure_tasks_def)
qed

text \<open>With arguments that the benchmark accepts, at most as many tasks as the default queue has room for,
  and no more workers than the default registry allows beside them, every task is accepted, the benchmark comes to rest, and it then reports every task as successful.\<close>

theorem measure_counts_every_task:
  assumes args: "concurrency_args (int tasks) concurrency delay = None" and few: "tasks \<le> 100" "concurrency \<le> 9900"
    and b: "wf_bus b" and u: "uuids_ok E" and E: "env_config E = measure_config (int tasks) concurrency delay"
  shows "\<exists>rids s. measure_begin E b now tasks = Inr (rids, s)
    \<and> (\<forall>n t. calm_steps E s n t \<longrightarrow> n \<le> 43 * tasks + 2 * nat concurrency
        \<and> ((\<nexists>u. calm_step E t u) \<longrightarrow>
            (\<exists>report. measure_end rids elapsed t = Some (Inr report) \<and> dict_get report ''successful'' = Some (PInt (int tasks)))))"
proof -
  have pos: "0 < concurrency" "0 \<le> delay" using args by (auto simp: concurrency_args_def split: if_splits)
  have cfg: "cf_queue_capacity (env_config E) = 100" "cf_max_agent_steps (env_config E) = 8"
    "cf_max_concurrency (env_config E) = concurrency"
    by (simp_all add: E measure_config_def runtime_defaults_def)
  have "runtime_validate (env_config E) = Inr ()"
    using pos few(2) by (simp add: E measure_config_def runtime_defaults_def runtime_validate_def)
  then obtain s0 where s0: "runtime_new E b = Inr s0"
    by (simp add: runtime_new_def E measure_config_def runtime_defaults_def session_store_new_def queue_new_def)
  have "int (length (measure_tasks tasks)) \<le> cf_queue_capacity (env_config E)"
    using few(1) by (simp add: measure_tasks_ok cfg)
  from batch_outcome [OF _ _ reachable.init [OF b s0] u measure_tasks_ok(2) this, of now] new_batch [OF s0]
  obtain rids s where s: "submit_all E now (measure_tasks tasks) s0 = (Inr rids, s)" "length rids = tasks"
    "\<And>n t. calm_steps E s n t \<Longrightarrow> n \<le> 43 * tasks + 2 * nat concurrency"
    "\<And>n t. calm_steps E s n t \<Longrightarrow> \<nexists>u. calm_step E t u \<Longrightarrow>
      \<forall>rid \<in> set rids. \<exists>run. runtime_wait t rid = Inr (Some run) \<and> rt_heap t rid = Some run \<and> rr_state run = SUCCEEDED"
    by (auto simp: measure_tasks_ok cfg)
  have "\<exists>report. measure_end rids elapsed t = Some (Inr report) \<and> dict_get report ''successful'' = Some (PInt (int tasks))"
    if "calm_steps E s n t" "\<nexists>u. calm_step E t u" for n t
    using gather_all [OF s(4) [OF that]] s(2) by (simp add: measure_end_def measure_report_def Let_def)
  moreover have "measure_begin E b now tasks = Inr (rids, s)" by (simp add: measure_begin_def s0 s(1))
  ultimately show ?thesis using s(3) by blast
qed

end
