(* ===== verification/Benchmark_Run.thy ===== *)
theory Benchmark_Run
  imports Benchmarks
begin

section \<open>The run of the reliability benchmark\<close>

text \<open>
  \<open>run_benchmark\<close> of \<open>benchmark_reliability.py\<close>: one task for each request, which enters the semaphore,
  calls the client and keeps whether it succeeded; \<open>gather\<close> waits for all of them. The tasks share the
  client and the provider and interleave at the suspension points of \<open>complete\<close>. The simulated provider
  does not suspend, so its answer comes in the step that calls it; an endpoint answers in a step of its
  own, with anything.
\<close>

subsection \<open>State and steps\<close>

datatype bench_task = Bn_waiting | Bn_calling nat | Bn_done "exn + bool"

record bench =
  bn_client :: client
  bn_provider :: measured
  bn_free :: nat
  bn_tasks :: "bench_task list"

definition run_benchmark ::
    "(int \<Rightarrow> nat \<Rightarrow> pyfloat) \<Rightarrow> int \<Rightarrow> int \<Rightarrow> int \<Rightarrow> pyfloat option \<Rightarrow> int \<Rightarrow> string option \<Rightarrow> string \<Rightarrow> string \<Rightarrow>
     time \<Rightarrow> exn + bench" where
  "run_benchmark random requests concurrency attempts failure_rate seed endpoint model api_key_env now =
     (case measured_provider random failure_rate seed endpoint model api_key_env of
        Inl e \<Rightarrow> Inl e
      | Inr provider \<Rightarrow>
         (case benchmark_client concurrency attempts now of
            Inl e \<Rightarrow> Inl e
          | Inr client \<Rightarrow>
             if concurrency < 0 then Inl (ValueError ''Semaphore initial value must be >= 0'')
             else
              (case benchmark_request model of
                 Inl e \<Rightarrow> Inl e
               | Inr request \<Rightarrow>
                   Inr \<lparr>bn_client = client, bn_provider = provider, bn_free = nat concurrency,
                        bn_tasks = replicate (nat requests) Bn_waiting\<rparr>)))"

definition bench_call :: "bench \<Rightarrow> nat \<Rightarrow> nat option" where
  "bench_call s i =
     (if i < length (bn_tasks s) then (case bn_tasks s ! i of Bn_calling j \<Rightarrow> Some j | _ \<Rightarrow> None) else None)"

text \<open>\<open>async with semaphore\<close> lets a task in, which calls \<open>complete\<close>.\<close>

definition bench_enter :: "nat \<Rightarrow> bench \<Rightarrow> bench option" where
  "bench_enter i s =
     (if i < length (bn_tasks s) \<and> bn_tasks s ! i = Bn_waiting \<and> 0 < bn_free s
      then Some (s\<lparr>bn_client := call_begin (bn_client s), bn_free := bn_free s - 1,
                   bn_tasks := (bn_tasks s)[i := Bn_calling (length (cl_calls (bn_client s)))]\<rparr>)
      else None)"

text \<open>After a step of its call: when \<open>complete\<close> is over, so is \<open>execute\<close>.\<close>

definition bench_settle :: "nat \<Rightarrow> nat \<Rightarrow> bench \<Rightarrow> bench" where
  "bench_settle i j s =
     (case call_at j (bn_client s) of
        Some (Call_done n r) \<Rightarrow>
          s\<lparr>bn_free := bn_free s + 1, bn_tasks := (bn_tasks s)[i := Bn_done (benchmark_execute r)]\<rparr>
      | _ \<Rightarrow> s)"

text \<open>The simulated provider's answer to a call that has reached it.\<close>

definition simulated_answer :: "time \<Rightarrow> pyfloat \<Rightarrow> nat \<Rightarrow> bench \<Rightarrow> bench" where
  "simulated_answer now rnd j s =
     (case bn_provider s of
        Real_endpoint c \<Rightarrow> s
      | Simulation p \<Rightarrow>
         (let (r, p') = simulated_complete p in
          case call_return now rnd j r (bn_client s) of
            None \<Rightarrow> s
          | Some cl \<Rightarrow> s\<lparr>bn_client := cl, bn_provider := Simulation p'\<rparr>))"

definition bench_round :: "time \<Rightarrow> pyfloat \<Rightarrow> nat \<Rightarrow> bench \<Rightarrow> bench option" where
  "bench_round now rnd i s =
     Option.bind (bench_call s i) (\<lambda>j.
     map_option (\<lambda>cl. bench_settle i j (simulated_answer now rnd j (s\<lparr>bn_client := cl\<rparr>)))
       (call_round now j (bn_client s)))"

definition bench_wake :: "nat \<Rightarrow> bench \<Rightarrow> bench option" where
  "bench_wake i s =
     Option.bind (bench_call s i) (\<lambda>j.
     map_option (\<lambda>cl. s\<lparr>bn_client := cl\<rparr>) (call_wake j (bn_client s)))"

text \<open>The endpoint answers.\<close>

definition bench_answer :: "time \<Rightarrow> pyfloat \<Rightarrow> nat \<Rightarrow> exn + llm_response \<Rightarrow> bench \<Rightarrow> bench option" where
  "bench_answer now rnd i r s =
     Option.bind (bench_call s i) (\<lambda>j.
     map_option (\<lambda>cl. bench_settle i j (s\<lparr>bn_client := cl\<rparr>)) (call_return now rnd j r (bn_client s)))"

inductive bench_step :: "bench \<Rightarrow> bench \<Rightarrow> bool" where
  enter: "bench_enter i s = Some s' \<Longrightarrow> bench_step s s'"
| round: "bench_round now rnd i s = Some s' \<Longrightarrow> bench_step s s'"
| wake: "bench_wake i s = Some s' \<Longrightarrow> bench_step s s'"
| answer: "bench_answer now rnd i r s = Some s' \<Longrightarrow> bench_step s s'"

inductive bench_reachable :: "bench \<Rightarrow> bench \<Rightarrow> bool" for s0 where
  bench_start: "bench_reachable s0 s0"
| bench_next: "bench_reachable s0 s \<Longrightarrow> bench_step s s' \<Longrightarrow> bench_reachable s0 s'"

text \<open>\<open>gather\<close>: nothing as long as a task goes on, its exception when one raises, or all outcomes.\<close>

fun gathered :: "bench_task list \<Rightarrow> (exn + bool list) option" where
  "gathered [] = Some (Inr [])"
| "gathered (Bn_done (Inl e) # ts) = Some (Inl e)"
| "gathered (Bn_done (Inr b) # ts) = map_option (map_sum id (\<lambda>bs. b # bs)) (gathered ts)"
| "gathered (t # ts) = (case gathered ts of Some (Inl e) \<Rightarrow> Some (Inl e) | _ \<Rightarrow> None)"

definition run_benchmark_end ::
    "int \<Rightarrow> int \<Rightarrow> int \<Rightarrow> int \<Rightarrow> pyfloat option \<Rightarrow> pyfloat \<Rightarrow> bench \<Rightarrow> (exn + (string, pyval) dict) option" where
  "run_benchmark_end requests concurrency attempts seed failure_rate elapsed s =
     (case gathered (bn_tasks s) of
        None \<Rightarrow> None
      | Some (Inl e) \<Rightarrow> Some (Inl e)
      | Some (Inr outcomes) \<Rightarrow>
          Some (reliability_report (bn_provider s) outcomes requests concurrency attempts seed failure_rate elapsed
            (cl_metrics (bn_client s))))"

text \<open>\<open>main\<close> up to \<open>asyncio.run\<close>: the message of \<open>SystemExit\<close>, or what \<open>run_benchmark\<close> starts.\<close>

definition reliability_main ::
    "(int \<Rightarrow> nat \<Rightarrow> pyfloat) \<Rightarrow> time \<Rightarrow> reliability_options \<Rightarrow> string + (exn + bench)" where
  "reliability_main random now opts =
     (case reliability_args (rb_requests opts) (rb_concurrency opts) (rb_attempts opts) (rb_failure_rate opts) of
        Some text \<Rightarrow> Inl text
      | None \<Rightarrow> Inr (run_benchmark random (rb_requests opts) (rb_concurrency opts) (rb_attempts opts) (rb_failure_rate opts)
          (rb_seed opts) (rb_endpoint opts) (rb_model opts) (rb_api_key_env opts) now))"

text \<open>The command needs an option: without any it raises instead of exiting.\<close>

lemma defaults_need_endpoint:
  "\<exists>text. reliability_main random now reliability_defaults = Inr (Inl (ValueError text))"
  by (simp add: reliability_main_def reliability_defaults_def reliability_args_def run_benchmark_def
      measured_provider_def)

subsection \<open>What a step moves\<close>

fun succeeded :: "call_pc \<Rightarrow> bool" where
  "succeeded (Call_done n (Inr r)) = True"
| "succeeded _ = False"

fun call_over :: "call_pc \<Rightarrow> bool" where
  "call_over (Call_done n r) = True"
| "call_over _ = False"

lemma call_over_iff: "call_over pc \<longleftrightarrow> (\<exists>n r. pc = Call_done n r)"
  by (cases pc) auto

lemma succeeded_over: "succeeded pc \<Longrightarrow> call_over pc"
  by (cases pc) auto

lemma round_moves:
  assumes "call_round now j cl = Some cl'"
  shows "\<exists>a pc. j < length (cl_calls cl) \<and> cl_calls cl ! j = Acquiring a \<and> cl_calls cl' = (cl_calls cl)[j := pc]
    \<and> (pc = Calling a \<or> (\<exists>w. pc = Sleeping a w) \<or> (\<exists>e. pc = Call_done (a - 1) (Inl e)))"
  using assms
  by (auto simp: call_round_def call_at_Some split: option.splits call_pc.splits sum.splits prod.splits)

lemma return_moves:
  assumes "call_return now rnd j r cl = Some cl'"
  shows "\<exists>a pc. j < length (cl_calls cl) \<and> cl_calls cl ! j = Calling a \<and> cl_calls cl' = (cl_calls cl)[j := pc]
    \<and> (pc = Call_done a r \<or> (\<exists>e d. r = Inl e \<and> pc = Backoff a d))"
  using assms
  by (auto simp: call_return_def call_at_Some Let_def split: option.splits call_pc.splits sum.splits if_splits)

lemma return_known:
  "call_at j cl = Some (Calling a) \<Longrightarrow> \<exists>cl'. call_return now rnd j r cl = Some cl'"
  by (auto simp: call_return_def Let_def split: sum.splits)

lemma round_known:
  "call_at j cl = Some (Acquiring a) \<Longrightarrow> \<exists>cl'. call_round now j cl = Some cl'"
  by (simp add: call_round_def split: sum.split prod.split option.split)

lemma wake_moves:
  assumes "call_wake j cl = Some cl'"
  shows "\<exists>pc. j < length (cl_calls cl) \<and> \<not> call_over (cl_calls cl ! j) \<and> cl_calls cl' = (cl_calls cl)[j := pc]
    \<and> (\<exists>a w. cl_calls cl ! j = Sleeping a w \<and> pc = Acquiring a \<or> cl_calls cl ! j = Backoff a w \<and> pc = Acquiring (Suc a))"
  using assms by (auto simp: call_wake_def call_at_Some split: option.splits call_pc.splits)

text \<open>How the provider's draws go with the call that moves.\<close>

definition drawn :: "measured \<Rightarrow> call_pc \<Rightarrow> measured \<Rightarrow> call_pc \<Rightarrow> bool" where
  "drawn m old m' new \<longleftrightarrow>
     (case m of
        Real_endpoint c \<Rightarrow> m' = m
      | Simulation p \<Rightarrow>
          m' = m \<and> provider_calls new = provider_calls old \<and> \<not> succeeded new
        \<or> m' = Simulation (p\<lparr>sp_next := Suc (sp_next p)\<rparr>) \<and> provider_calls new = Suc (provider_calls old)
            \<and> (succeeded new \<longleftrightarrow> sp_failure_rate p \<le> sp_draws p (sp_next p)))"

lemma simulated_round_moves:
  assumes r: "call_round now j (bn_client s) = Some cl" and ok: "client_ok c (bn_client s)"
    and t: "t = simulated_answer now rnd j (s\<lparr>bn_client := cl\<rparr>)"
  shows "\<exists>pc. j < length (cl_calls (bn_client s)) \<and> \<not> call_over (cl_calls (bn_client s) ! j)
    \<and> cl_calls (bn_client t) = (cl_calls (bn_client s))[j := pc]
    \<and> drawn (bn_provider s) (cl_calls (bn_client s) ! j) (bn_provider t) pc
    \<and> (\<forall>p. bn_provider s = Simulation p \<longrightarrow> (\<forall>a. pc \<noteq> Calling a))
    \<and> bn_tasks t = bn_tasks s \<and> bn_free t = bn_free s"
proof -
  obtain a pc where m: "j < length (cl_calls (bn_client s))" "cl_calls (bn_client s) ! j = Acquiring a"
    "cl_calls cl = (cl_calls (bn_client s))[j := pc]"
    "pc = Calling a \<or> (\<exists>w. pc = Sleeping a w) \<or> (\<exists>e. pc = Call_done (a - 1) (Inl e))"
    using round_moves [OF r] by blast
  have a: "1 \<le> a" using client_ok_at [OF ok, of j "Acquiring a"] m(1,2) by (simp add: call_at_Some)
  show ?thesis
  proof (cases "bn_provider s")
    case (Real_endpoint c)
    then show ?thesis using m t by (intro exI [of _ pc]) (simp add: simulated_answer_def drawn_def)
  next
    case (Simulation p)
    show ?thesis
    proof (cases "pc = Calling a")
      case False
      then have none: "call_return now rnd j r cl = None" for r
        using m by (auto simp: call_return_def call_at_def)
      then have "t = s\<lparr>bn_client := cl\<rparr>"
        using t Simulation by (simp add: simulated_answer_def Let_def split: prod.split)
      then show ?thesis using m False Simulation by (intro exI [of _ pc]) (auto simp: drawn_def)
    next
      case True
      obtain r p' where r: "simulated_complete p = (r, p')" by fastforce
      obtain cl' where ret: "call_return now rnd j r cl = Some cl'"
        using return_known [of j cl a now rnd r] m(1,3) True by (auto simp: call_at_def)
      obtain pc' where pc': "cl_calls cl' = (cl_calls cl)[j := pc']" "pc' = Call_done a r \<or> (\<exists>e d. r = Inl e \<and> pc' = Backoff a d)"
        using return_moves [OF ret] m(1,3) True by auto
      have t': "t = s\<lparr>bn_client := cl', bn_provider := Simulation p'\<rparr>"
        using t Simulation r ret by (simp add: simulated_answer_def)
      have p': "p' = p\<lparr>sp_next := Suc (sp_next p)\<rparr>" "(\<exists>x. r = Inr x) \<longleftrightarrow> sp_failure_rate p \<le> sp_draws p (sp_next p)"
        using r by (auto simp: simulated_complete_def split: if_splits)
      have "succeeded pc' \<longleftrightarrow> (\<exists>x. r = Inr x)" using pc'(2) by (cases r) auto
      then have "drawn (Simulation p) (Acquiring a) (Simulation p') pc'"
        using p' pc'(2) a by (auto simp: drawn_def)
      then show ?thesis
        using m(1,2,3) Simulation t' pc' by (intro exI [of _ pc']) auto
    qed
  qed
qed

definition none_calling :: "bench \<Rightarrow> bool" where
  "none_calling s \<longleftrightarrow> (\<forall>p. bn_provider s = Simulation p \<longrightarrow> (\<forall>a. Calling a \<notin> set (cl_calls (bn_client s))))"

definition call_moves :: "retry_config \<Rightarrow> nat \<Rightarrow> call_pc \<Rightarrow> bench \<Rightarrow> bench \<Rightarrow> bool" where
  "call_moves c j pc s t \<longleftrightarrow> j < length (cl_calls (bn_client s)) \<and> \<not> call_over (cl_calls (bn_client s) ! j)
     \<and> cl_calls (bn_client t) = (cl_calls (bn_client s))[j := pc]
     \<and> drawn (bn_provider s) (cl_calls (bn_client s) ! j) (bn_provider t) pc
     \<and> (\<forall>p. bn_provider s = Simulation p \<longrightarrow> (\<forall>a. pc \<noteq> Calling a))
     \<and> bn_tasks t = bn_tasks s \<and> bn_free t = bn_free s \<and> cl_reachable c (bn_client t)"

lemma settle_open: "\<not> call_over (cl_calls (bn_client t) ! j) \<Longrightarrow> bench_settle i j t = t"
  by (auto simp: bench_settle_def call_at_def split: call_pc.splits)

lemma bench_moves:
  assumes step: "bench_step s s'" and r: "cl_reachable c (bn_client s)" and n: "none_calling s"
  shows "(\<exists>i. bench_enter i s = Some s')
    \<or> (\<exists>i j pc t. bench_call s i = Some j \<and> s' = bench_settle i j t \<and> call_moves c j pc s t)"
  using step
proof cases
  case (round now rnd i)
  obtain j cl where j: "bench_call s i = Some j" and cl: "call_round now j (bn_client s) = Some cl"
    and s': "s' = bench_settle i j (simulated_answer now rnd j (s\<lparr>bn_client := cl\<rparr>))"
    using round by (auto simp: bench_round_def bind_eq_Some_conv)
  let ?t = "simulated_answer now rnd j (s\<lparr>bn_client := cl\<rparr>)"
  have rc: "cl_reachable c cl" by (rule cl_next [OF r cl_step.round [OF cl]])
  then have "cl_reachable c (bn_client ?t)"
    by (auto simp: simulated_answer_def split: measured.splits prod.splits option.splits
        intro: cl_next cl_step.return)
  then have "\<exists>pc. call_moves c j pc s ?t"
    using simulated_round_moves [OF cl client_ok_reachable [OF r] refl] by (auto simp: call_moves_def)
  then show ?thesis using j s' by blast
next
  case (wake i)
  obtain j cl where j: "bench_call s i = Some j" and cl: "call_wake j (bn_client s) = Some cl"
    and s': "s' = s\<lparr>bn_client := cl\<rparr>"
    using wake by (auto simp: bench_wake_def bind_eq_Some_conv)
  obtain pc where pc: "j < length (cl_calls (bn_client s))" "\<not> call_over (cl_calls (bn_client s) ! j)"
    "cl_calls cl = (cl_calls (bn_client s))[j := pc]"
    "\<exists>a w. cl_calls (bn_client s) ! j = Sleeping a w \<and> pc = Acquiring a
        \<or> cl_calls (bn_client s) ! j = Backoff a w \<and> pc = Acquiring (Suc a)"
    using wake_moves [OF cl] by blast
  have "drawn (bn_provider s) (cl_calls (bn_client s) ! j) (bn_provider s) pc"
    using pc(4) by (auto simp: drawn_def split: measured.split)
  then have "call_moves c j pc s s'"
    using pc s' cl_next [OF r cl_step.wake [OF cl]] by (auto simp: call_moves_def)
  moreover have "bench_settle i j s' = s'"
    using pc s' by (intro settle_open) auto
  ultimately show ?thesis using j by metis
next
  case (answer now rnd i res)
  obtain j cl where j: "bench_call s i = Some j" and cl: "call_return now rnd j res (bn_client s) = Some cl"
    and s': "s' = bench_settle i j (s\<lparr>bn_client := cl\<rparr>)"
    using answer by (auto simp: bench_answer_def bind_eq_Some_conv)
  obtain a pc where pc: "j < length (cl_calls (bn_client s))" "cl_calls (bn_client s) ! j = Calling a"
    "cl_calls cl = (cl_calls (bn_client s))[j := pc]"
    using return_moves [OF cl] by blast
  have real: "bn_provider s \<noteq> Simulation p" for p
    using n pc(1,2) nth_mem [OF pc(1)] by (auto simp: none_calling_def)
  then have "drawn (bn_provider s) (Calling a) (bn_provider s) pc"
    by (auto simp: drawn_def split: measured.split)
  then have "call_moves c j pc s (s\<lparr>bn_client := cl\<rparr>)"
    using pc real cl_next [OF r cl_step.return [OF cl]] by (simp add: call_moves_def)
  then show ?thesis using j s' by blast
qed blast

subsection \<open>Invariant\<close>

fun waits :: "bench_task \<Rightarrow> bool" where "waits t = (t = Bn_waiting)"

fun calls_now :: "bench_task \<Rightarrow> bool" where
  "calls_now (Bn_calling j) = True" | "calls_now _ = False"

lemma calls_now_iff: "calls_now t \<longleftrightarrow> (\<exists>j. t = Bn_calling j)"
  by (cases t) simp_all

fun finished_task :: "bench_task \<Rightarrow> bool" where
  "finished_task (Bn_done r) = True" | "finished_task _ = False"

definition bench_ok :: "retry_config \<Rightarrow> nat \<Rightarrow> nat \<Rightarrow> bench \<Rightarrow> bool" where
  "bench_ok c conc n s \<longleftrightarrow>
     (let tasks = bn_tasks s; calls = cl_calls (bn_client s) in
      cl_reachable c (bn_client s) \<and> none_calling s \<and> length tasks = n
      \<and> bn_free s + length (filter calls_now tasks) = conc
      \<and> (\<forall>i < n. \<forall>j. tasks ! i = Bn_calling j \<longrightarrow> j < length calls \<and> \<not> call_over (calls ! j))
      \<and> (\<forall>i < n. \<forall>i' < n. \<forall>j. tasks ! i = Bn_calling j \<longrightarrow> tasks ! i' = Bn_calling j \<longrightarrow> i = i')
      \<and> length (filter (\<lambda>t. t = Bn_done (Inr True)) tasks) = length (filter succeeded calls)
      \<and> length calls + length (filter waits tasks) = n
      \<and> length (filter call_over calls) = length (filter finished_task tasks))"

lemma filter_update:
  "i < length xs \<Longrightarrow> length (filter f (xs[i := x])) + (if f (xs ! i) then 1 else 0) =
     length (filter f xs) + (if f x then 1 else 0)"
proof (induction xs arbitrary: i)
  case (Cons y ys)
  show ?case
  proof (cases i)
    case (Suc j)
    then show ?thesis using Cons.IH [of j] Cons.prems by simp
  qed simp
qed simp

lemma call_ok_attempts_le: "call_ok m pc \<Longrightarrow> provider_calls pc \<le> m"
  by (cases pc) (auto intro: diff_le_self [THEN le_trans] less_imp_le)

lemma bench_call_iff: "bench_call s i = Some j \<longleftrightarrow> i < length (bn_tasks s) \<and> bn_tasks s ! i = Bn_calling j"
  by (auto simp: bench_call_def split: bench_task.splits)

lemma bench_ok_enter:
  assumes ok: "bench_ok c conc n s" and e: "bench_enter i s = Some s'"
  shows "bench_ok c conc n s'"
proof -
  let ?k = "length (cl_calls (bn_client s))"
  have i: "i < length (bn_tasks s)" "bn_tasks s ! i = Bn_waiting" "0 < bn_free s"
    and s': "s' = s\<lparr>bn_client := call_begin (bn_client s), bn_free := bn_free s - 1,
      bn_tasks := (bn_tasks s)[i := Bn_calling ?k]\<rparr>"
    using e by (auto simp: bench_enter_def split: if_splits)
  note u = filter_update [OF i(1), of _ "Bn_calling ?k", unfolded i(2)]
  have r: "cl_reachable c (call_begin (bn_client s))"
    using ok cl_next [OF _ begin_call] by (auto simp: bench_ok_def Let_def)
  have old: "\<forall>i' < n. bn_tasks s ! i' \<noteq> Bn_calling ?k" using ok by (auto simp: bench_ok_def Let_def)
  show ?thesis
    unfolding bench_ok_def Let_def s'
  proof (intro conjI)
    show "none_calling (s\<lparr>bn_client := call_begin (bn_client s), bn_free := bn_free s - 1,
        bn_tasks := (bn_tasks s)[i := Bn_calling ?k]\<rparr>)"
      using ok by (auto simp: bench_ok_def Let_def none_calling_def call_begin_def)
  qed (use ok i r old u [of calls_now] u [of waits] u [of finished_task] u [of "\<lambda>t. t = Bn_done (Inr True)"] in
      \<open>auto simp: bench_ok_def Let_def call_begin_def nth_list_update nth_append\<close>)
qed

lemma bench_ok_move:
  assumes ok: "bench_ok c conc n s" and i: "bench_call s i = Some j" and m: "call_moves c j pc s t"
  shows "bench_ok c conc n (bench_settle i j t)"
proof -
  have i': "i < length (bn_tasks s)" "bn_tasks s ! i = Bn_calling j" using i by (simp_all add: bench_call_iff)
  have j: "j < length (cl_calls (bn_client s))" "\<not> call_over (cl_calls (bn_client s) ! j)"
    and t: "cl_calls (bn_client t) = (cl_calls (bn_client s))[j := pc]" "bn_tasks t = bn_tasks s"
      "bn_free t = bn_free s" "cl_reachable c (bn_client t)"
    using m by (simp_all add: call_moves_def)
  have old: "\<not> succeeded (cl_calls (bn_client s) ! j)" using j(2) succeeded_over by blast
  note uc = filter_update [OF j(1), of _ pc, folded t(1)]
  note ut = filter_update [OF i'(1), unfolded i'(2)]
  have sole: "\<forall>i' < n. i' \<noteq> i \<longrightarrow> bn_tasks s ! i' \<noteq> Bn_calling j"
    using ok i' by (auto simp: bench_ok_def Let_def)
  have none: "none_calling t"
    using ok m set_update_subset_insert [of "cl_calls (bn_client s)" j pc]
    by (fastforce simp: none_calling_def bench_ok_def Let_def call_moves_def drawn_def split: measured.splits)
  show ?thesis
  proof (cases "call_over pc")
    case False
    then have "bench_settle i j t = t" using j(1) t(1) by (intro settle_open) simp
    then show ?thesis
      using ok t none False uc [of succeeded] uc [of call_over] j(2) old succeeded_over [of pc] sole i'
      by (auto simp: bench_ok_def Let_def nth_list_update)
  next
    case True
    then obtain k r where pc: "pc = Call_done k r" by (auto simp: call_over_iff)
    have s': "bench_settle i j t = t\<lparr>bn_free := bn_free s + 1,
        bn_tasks := (bn_tasks s)[i := Bn_done (benchmark_execute r)]\<rparr>"
      using j(1) t pc by (simp add: bench_settle_def call_at_def)
    have good: "succeeded pc \<longleftrightarrow> benchmark_execute r = Inr True"
      by (auto simp: pc benchmark_execute_def split: sum.splits)
    note u = ut [of _ "Bn_done (benchmark_execute r)"]
    show ?thesis
      unfolding bench_ok_def Let_def s'
    proof (intro conjI)
      show "none_calling (t\<lparr>bn_free := bn_free s + 1, bn_tasks := (bn_tasks s)[i := Bn_done (benchmark_execute r)]\<rparr>)"
        using none by (simp add: none_calling_def)
      show "length (filter (\<lambda>t. t = Bn_done (Inr True)) (bn_tasks (t\<lparr>bn_free := bn_free s + 1,
          bn_tasks := (bn_tasks s)[i := Bn_done (benchmark_execute r)]\<rparr>)))
        = length (filter succeeded (cl_calls (bn_client (t\<lparr>bn_free := bn_free s + 1,
          bn_tasks := (bn_tasks s)[i := Bn_done (benchmark_execute r)]\<rparr>))))"
        using ok uc [of succeeded] u [of "\<lambda>t. t = Bn_done (Inr True)"] old good
        by (auto simp: bench_ok_def Let_def split: if_splits)
    qed (use ok i' t sole u [of calls_now] u [of waits] u [of finished_task] uc [of call_over] j True in
        \<open>auto simp: bench_ok_def Let_def nth_list_update\<close>)
  qed
qed

text \<open>The draws of a simulation: each call of the provider takes the next one, and each draw that is not
  below the rate makes one request succeed.\<close>

definition draws_ok :: "sim_provider \<Rightarrow> bench \<Rightarrow> bool" where
  "draws_ok p0 s \<longleftrightarrow>
     (\<exists>k. bn_provider s = Simulation (p0\<lparr>sp_next := k\<rparr>)
        \<and> k = sum_list (map provider_calls (cl_calls (bn_client s)))
        \<and> length (filter (\<lambda>i. sp_failure_rate p0 \<le> sp_draws p0 i) [0..<k]) = length (filter succeeded (cl_calls (bn_client s))))"

lemma settle_fields [simp]:
  "bn_client (bench_settle i j t) = bn_client t" "bn_provider (bench_settle i j t) = bn_provider t"
  by (simp_all add: bench_settle_def split: option.splits call_pc.splits)

lemma draws_ok_enter: "draws_ok p0 s \<Longrightarrow> bench_enter i s = Some s' \<Longrightarrow> draws_ok p0 s'"
  by (auto simp: draws_ok_def bench_enter_def call_begin_def split: if_splits)

lemma draws_ok_move:
  assumes ok: "draws_ok p0 s" and m: "call_moves c j pc s t"
  shows "draws_ok p0 (bench_settle i j t)"
proof -
  let ?old = "cl_calls (bn_client s) ! j"
  obtain k where k: "bn_provider s = Simulation (p0\<lparr>sp_next := k\<rparr>)"
    "k = sum_list (map provider_calls (cl_calls (bn_client s)))"
    "length (filter (\<lambda>i. sp_failure_rate p0 \<le> sp_draws p0 i) [0..<k]) = length (filter succeeded (cl_calls (bn_client s)))"
    using ok by (auto simp: draws_ok_def)
  have j: "j < length (cl_calls (bn_client s))" "\<not> succeeded ?old"
    and t: "cl_calls (bn_client t) = (cl_calls (bn_client s))[j := pc]"
    using m succeeded_over by (auto simp: call_moves_def)
  note u = filter_update [OF j(1), of succeeded pc, folded t]
    and v = provider_calls_update [OF j(1), of pc, folded t]
  have "drawn (Simulation (p0\<lparr>sp_next := k\<rparr>)) ?old (bn_provider t) pc" using m k(1) by (simp add: call_moves_def)
  then consider "bn_provider t = Simulation (p0\<lparr>sp_next := k\<rparr>)" "provider_calls pc = provider_calls ?old" "\<not> succeeded pc"
    | "bn_provider t = Simulation (p0\<lparr>sp_next := Suc k\<rparr>)" "provider_calls pc = Suc (provider_calls ?old)"
      "succeeded pc \<longleftrightarrow> sp_failure_rate p0 \<le> sp_draws p0 k"
    by (auto simp: drawn_def)
  then show ?thesis
  proof cases
    case 1
    then show ?thesis using k u v j(2) by (simp add: draws_ok_def)
  next
    case 2
    then show ?thesis using k u v j(2)
      by (auto simp: draws_ok_def intro!: exI [of _ "Suc k"] split: if_splits)
  qed
qed

lemma bench_ok_reachable:
  assumes "bench_reachable s0 s" and "bench_ok c conc n s0"
  shows "bench_ok c conc n s"
  using assms
proof induction
  case (bench_next s s')
  then have ok: "bench_ok c conc n s" by simp
  then have "cl_reachable c (bn_client s)" "none_calling s" by (simp_all add: bench_ok_def Let_def)
  from bench_moves [OF bench_next.hyps(2) this] show ?case
    using bench_ok_enter [OF ok] bench_ok_move [OF ok] by blast
qed

lemma draws_ok_reachable:
  assumes "bench_reachable s0 s" and "bench_ok c conc n s0" and "draws_ok p0 s0"
  shows "draws_ok p0 s"
  using assms
proof induction
  case (bench_next s s')
  then have ok: "bench_ok c conc n s" and d: "draws_ok p0 s" using bench_ok_reachable by blast+
  then have "cl_reachable c (bn_client s)" "none_calling s" by (simp_all add: bench_ok_def Let_def)
  from bench_moves [OF bench_next.hyps(2) this] show ?case
    using draws_ok_enter [OF d] draws_ok_move [OF d] by blast
qed

text \<open>As long as the outcomes are not all in, some task can go on.\<close>

lemma bench_progress:
  assumes ok: "bench_ok c conc n s" and "0 < conc" and more: "\<exists>t \<in> set (bn_tasks s). \<not> finished_task t"
  shows "\<exists>s'. bench_step s s'"
proof (cases "\<exists>i < n. \<exists>j. bn_tasks s ! i = Bn_calling j")
  case True
  then obtain i j where ij: "i < n" "bn_tasks s ! i = Bn_calling j" by blast
  then have c: "bench_call s i = Some j" using ok by (simp add: bench_call_iff bench_ok_def Let_def)
  have j: "j < length (cl_calls (bn_client s))" "\<not> call_over (cl_calls (bn_client s) ! j)"
    using ok ij by (auto simp: bench_ok_def Let_def)
  show ?thesis
  proof (cases "cl_calls (bn_client s) ! j")
    case (Acquiring a)
    then obtain cl where "call_round 0 j (bn_client s) = Some cl"
      using j(1) round_known [of j "bn_client s" a 0] by (auto simp: call_at_def)
    then have "\<exists>s'. bench_round 0 0 i s = Some s'" using c by (simp add: bench_round_def)
    then show ?thesis using bench_step.round by blast
  next
    case (Calling a)
    then obtain cl where "call_return 0 0 j (Inl QueueFull) (bn_client s) = Some cl"
      using j(1) return_known [of j "bn_client s" a 0 0 "Inl QueueFull"] by (auto simp: call_at_def)
    then have "\<exists>s'. bench_answer 0 0 i (Inl QueueFull) s = Some s'" using c by (simp add: bench_answer_def)
    then show ?thesis using bench_step.answer by blast
  next
    case (Call_done k r)
    then show ?thesis using j(2) by simp
  next
    case (Sleeping a w)
    then have "\<exists>s'. bench_wake i s = Some s'" using c j(1) by (simp add: bench_wake_def call_wake_def call_at_def)
    then show ?thesis using bench_step.wake by blast
  next
    case (Backoff a d)
    then have "\<exists>s'. bench_wake i s = Some s'" using c j(1) by (simp add: bench_wake_def call_wake_def call_at_def)
    then show ?thesis using bench_step.wake by blast
  qed
next
  case False
  then have none: "filter calls_now (bn_tasks s) = []"
    using ok by (auto simp: filter_empty_conv in_set_conv_nth bench_ok_def Let_def calls_now_iff)
  obtain i where i: "i < length (bn_tasks s)" "\<not> finished_task (bn_tasks s ! i)"
    using more by (auto simp: in_set_conv_nth)
  then have "bn_tasks s ! i = Bn_waiting" using False ok
    by (cases "bn_tasks s ! i") (auto simp: bench_ok_def Let_def)
  moreover have "0 < bn_free s" using ok none assms(2) by (simp add: bench_ok_def Let_def)
  ultimately have "\<exists>s'. bench_enter i s = Some s'" using i(1) by (simp add: bench_enter_def)
  then show ?thesis using enter by blast
qed

end
