(* ===== verification/Benchmarks_Properties.thy ===== *)
theory Benchmarks_Properties
  imports Benchmark_Run Runtime_Cases
begin

section \<open>What the benchmarks measure\<close>

text \<open>
  The numbers of the reliability benchmark mean what they say: a request succeeds when one of its
  attempts is not made to fail, and the successes that are reported are those that the client counts.
  The concurrency benchmark is bounded by what the runtime admits.
\<close>

subsection \<open>A simulated request\<close>

text \<open>The answers of the provider to the attempts of the first request.\<close>

definition simulated_script :: "sim_provider \<Rightarrow> (nat \<Rightarrow> pyfloat) \<Rightarrow> (nat \<Rightarrow> pyfloat) \<Rightarrow> script" where
  "simulated_script p jitter late =
     \<lparr>sc_answer = (\<lambda>a. fst (simulated_complete (p\<lparr>sp_next := a - 1\<rparr>))), sc_random = jitter, sc_late = late\<rparr>"

lemma only_one:
  "(\<forall>i\<ge>a. i < Suc a \<longrightarrow> P i) \<longleftrightarrow> P a" "(\<exists>i\<ge>a. i < Suc a \<and> P i) \<longleftrightarrow> P (a :: nat)"
  by (auto simp: less_Suc_eq)

lemma simulated_decisive:
  "(\<exists>e. snd (first_decisive (sc_answer (simulated_script p jitter late)) a left) = Inl (TransientLLMError e))
     \<and> (\<forall>i. a \<le> i \<longrightarrow> i < a + max 1 left \<longrightarrow> sp_draws p (i - 1) < sp_failure_rate p)
   \<or> (\<exists>r. snd (first_decisive (sc_answer (simulated_script p jitter late)) a left) = Inr r)
     \<and> (\<exists>i. a \<le> i \<and> i < a + max 1 left \<and> sp_failure_rate p \<le> sp_draws p (i - 1))"
proof (induction "sc_answer (simulated_script p jitter late)" a left rule: first_decisive.induct)
  case (1 a left)
  show ?case
  proof (cases "sp_draws p (a - 1) < sp_failure_rate p")
    case True
    then have ans: "sc_answer (simulated_script p jitter late) a = Inl (TransientLLMError ''injected transient failure'')"
      by (simp add: simulated_script_def simulated_complete_def)
    have range: "a \<le> i \<and> i < a + max 1 (Suc (Suc left)) \<longleftrightarrow> i = a \<or> Suc a \<le> i \<and> i < Suc a + max 1 (Suc left)" for i
      by auto
    have "first_decisive (sc_answer (simulated_script p jitter late)) a (Suc (Suc left)) =
        first_decisive (sc_answer (simulated_script p jitter late)) (Suc a) (Suc left)" by (simp add: ans)
    then show ?thesis using 1 [OF ans] True range by (metis is_transient.simps not_less)
  next
    case False
    then show ?thesis by (auto simp: simulated_script_def simulated_complete_def intro!: exI [of _ a])
  qed
qed (simp_all add: simulated_script_def simulated_complete_def only_one)

text \<open>In a simulation with arguments that the benchmark accepts, the first request succeeds exactly
  when one of its first \<open>attempts\<close> draws is not below the failure rate - whatever jitter, delays and
  lateness of the sleeps: the breaker never gets in the way.\<close>

theorem simulated_request_succeeds:
  assumes "reliability_args requests concurrency attempts (Some rate) = None"
    and "benchmark_client concurrency attempts now = Inr s" and "\<And>n. 0 \<le> late n"
  shows "\<exists>now' s' n r. alone (simulated_script (simulated_new random rate seed) jitter late) 0 (5 * nat attempts)
      (t, call_begin s) = (now', s') \<and> cl_calls s' = [Call_done n r]
    \<and> benchmark_execute r = Inr (\<exists>i < nat attempts. rate \<le> random seed i)"
proof -
  let ?p = "simulated_new random rate seed"
  let ?sc = "simulated_script ?p jitter late"
  have pos: "0 < attempts" using assms(1) by (auto simp: reliability_args_def split: if_splits)
  then obtain left where left: "nat attempts = Suc left" "attempts = 1 + int left"
    using that [of "nat attempts - 1"] by simp
  have s: "cl_retry s = \<lparr>rc_max_attempts = attempts, rc_base_delay_seconds = 1/100, rc_max_delay_seconds = 1/10,
      rc_jitter_ratio = 1/4\<rparr>" "wf_bucket (cl_limiter s)" "1 \<le> tb_capacity (cl_limiter s)"
    "tolerates left (cl_breaker s)" "cl_calls s = []"
    using accepted_arguments_work(1) [OF assms(1), of now] assms(2) left by auto
  have r: "ready (cl_retry s) 1 (call_begin s)" using s by (simp add: ready_def call_begin_def)
  have late: "0 \<le> sc_late ?sc n" for n using assms(3) by (simp add: simulated_script_def)
  obtain now' s' n r where run: "alone ?sc 0 (5 * Suc left) (t, call_begin s) = (now', s')" "cl_calls s' = [Call_done n r]"
    "(n, r) = first_decisive (sc_answer ?sc) 1 (Suc left)"
    using alone_ends [OF r late, of left 0 t] s(1,4) left by (auto simp: call_begin_def)
  have draws: "(\<exists>i. 1 \<le> i \<and> i < 1 + max 1 (Suc left) \<and> P (i - 1)) \<longleftrightarrow> (\<exists>i < Suc left. P i)" for P
  proof
    assume "\<exists>i < Suc left. P i"
    then obtain i where "i < Suc left" "P i" by blast
    then show "\<exists>i. 1 \<le> i \<and> i < 1 + max 1 (Suc left) \<and> P (i - 1)" by (intro exI [of _ "Suc i"]) simp
  next
    assume "\<exists>i. 1 \<le> i \<and> i < 1 + max 1 (Suc left) \<and> P (i - 1)"
    then obtain i where "1 \<le> i" "i < Suc (Suc left)" "P (i - 1)" by auto
    then show "\<exists>i < Suc left. P i" by (intro exI [of _ "i - 1"]) auto
  qed
  have "snd (first_decisive (sc_answer ?sc) 1 (Suc left)) = r" using run(3) by (metis snd_conv)
  then have "(\<exists>e. r = Inl (TransientLLMError e)) \<and> \<not> (\<exists>i < Suc left. rate \<le> random seed i)
      \<or> (\<exists>x. r = Inr x) \<and> (\<exists>i < Suc left. rate \<le> random seed i)"
    using simulated_decisive [of ?p jitter late 1 "Suc left"] draws [of "\<lambda>i. rate \<le> random seed i"]
    by (auto simp: simulated_new_def not_le)
  then have "benchmark_execute r = Inr (\<exists>i < Suc left. rate \<le> random seed i)"
    by (auto simp: benchmark_execute_def)
  then show ?thesis using run(1,2) left(1) by auto
qed

theorem simulated_request_succeeds_witness:
  "\<exists>s now' s' n r. benchmark_client 20 4 0 = Inr s
    \<and> alone (simulated_script (simulated_new (\<lambda>_ i. if i = 2 then 1 else 0) (1/2) 42) (\<lambda>_. 0) (\<lambda>_. 0)) 0 20
      (0, call_begin s) = (now', s') \<and> cl_calls s' = [Call_done n r] \<and> benchmark_execute r = Inr True"
proof -
  have a: "reliability_args 1000 20 4 (Some (1/2)) = None" by (simp add: reliability_args_def)
  obtain s where s: "benchmark_client 20 4 0 = Inr s" using accepted_arguments_work(1) [OF a, of 0] by blast
  have z: "(0::pyfloat) \<le> (\<lambda>_. 0) n" for n :: nat by simp
  have "\<exists>i < nat 4. (1/2 :: pyfloat) \<le> (if i = 2 then 1 else 0)" by (intro exI [of _ 2]) simp
  then show ?thesis
    using simulated_request_succeeds [OF a s z, of "\<lambda>_ i. if i = 2 then 1 else 0" 42 "\<lambda>_. 0" 0] s by simp
qed

subsection \<open>The counts of a benchmark\<close>

definition successes_ok :: "client \<Rightarrow> bool" where
  "successes_ok s \<longleftrightarrow> metric (cl_metrics s) ''llm_success_total'' = of_nat (length (filter succeeded (cl_calls s)))"

lemma successes_update:
  assumes "successes_ok s" and "i < length (cl_calls s)" and "\<not> succeeded (cl_calls s ! i)"
    and "cl_calls s' = (cl_calls s)[i := pc]"
    and "metric (cl_metrics s') ''llm_success_total'' =
      metric (cl_metrics s) ''llm_success_total'' + (if succeeded pc then 1 else 0)"
  shows "successes_ok s'"
  using assms filter_update [OF assms(2), of succeeded pc] by (auto simp: successes_ok_def split: if_splits)

lemma successes_counted: "cl_reachable c s \<Longrightarrow> successes_ok s"
proof (induction rule: cl_reachable.induct)
  case (cl_init l b s)
  then show ?case by (auto simp: client_new_def successes_ok_def split: sum.splits)
next
  case (cl_next s s')
  from cl_next.hyps(2) show ?case
  proof (cases rule: cl_step.cases)
    case begin_call
    then show ?thesis using cl_next.IH by (simp add: call_begin_def successes_ok_def)
  next
    case (round now i)
    then show ?thesis
      by (auto simp: call_round_def call_at_Some split: option.splits call_pc.splits sum.splits prod.splits
          intro!: successes_update [OF cl_next.IH, of i])
  next
    case (return now rnd i result)
    then show ?thesis
      by (auto simp: call_return_def call_at_Some Let_def split: option.splits call_pc.splits sum.splits if_splits
          intro!: successes_update [OF cl_next.IH, of i])
  next
    case (wake i)
    then show ?thesis
      by (auto simp: call_wake_def call_at_Some split: option.splits call_pc.splits
          intro!: successes_update [OF cl_next.IH, of i])
  next
    case (cancelled i)
    then show ?thesis
      by (auto simp: call_cancelled_def call_at_Some split: option.splits call_pc.splits
          intro!: successes_update [OF cl_next.IH, of i])
  qed
qed

lemma run_benchmark_start:
  assumes "reliability_args requests concurrency attempts failure_rate = None"
    and "run_benchmark random requests concurrency attempts failure_rate seed endpoint model api_key_env now = Inr s"
  shows "bench_ok \<lparr>rc_max_attempts = attempts, rc_base_delay_seconds = 1/100, rc_max_delay_seconds = 1/10,
      rc_jitter_ratio = 1/4\<rparr> (nat concurrency) (nat requests) s"
    and "failure_rate = Some rate \<Longrightarrow> draws_ok (simulated_new random rate seed) s"
proof -
  let ?c = "\<lparr>rc_max_attempts = attempts, rc_base_delay_seconds = 1/100, rc_max_delay_seconds = 1/10,
      rc_jitter_ratio = 1/4\<rparr>"
  obtain provider client where p: "measured_provider random failure_rate seed endpoint model api_key_env = Inr provider"
    and cl: "benchmark_client concurrency attempts now = Inr client"
    and s: "s = \<lparr>bn_client = client, bn_provider = provider, bn_free = nat concurrency,
        bn_tasks = replicate (nat requests) Bn_waiting\<rparr>"
    using assms(2) by (auto simp: run_benchmark_def split: sum.splits if_splits)
  have calls: "cl_calls client = []"
    using accepted_arguments_work(1) [OF assms(1), of now] cl by auto
  obtain l b where "client_new ?c l b [] = Inr client"
    using cl by (auto simp: benchmark_client_def split: sum.splits)
  then have r: "cl_reachable ?c client" by (rule cl_init)
  have none: "none_calling s" by (simp add: none_calling_def s calls)
  show "bench_ok ?c (nat concurrency) (nat requests) s"
    using r none calls by (simp add: bench_ok_def s)
  show "draws_ok (simulated_new random rate seed) s" if "failure_rate = Some rate"
  proof -
    have "provider = Simulation (simulated_new random rate seed)" using p that by (simp add: measured_provider_def)
    then show ?thesis using calls by (auto simp: draws_ok_def s simulated_new_def)
  qed
qed

lemma gathered_None: "gathered ts = None \<Longrightarrow> \<exists>t \<in> set ts. \<not> finished_task t"
  by (induction ts rule: gathered.induct) (auto split: option.splits)

lemma gathered_outcomes:
  "gathered ts = Some (Inr bs) \<Longrightarrow> length bs = length ts
     \<and> length (filter id bs) = length (filter (\<lambda>t. t = Bn_done (Inr True)) ts) \<and> (\<forall>t \<in> set ts. finished_task t)"
proof (induction ts arbitrary: bs rule: gathered.induct)
  case (3 b ts)
  then obtain z where z: "gathered ts = Some z" "map_sum id (\<lambda>bs. b # bs) z = Inr bs" by auto
  then obtain bs' where "gathered ts = Some (Inr bs')" "bs = b # bs'" by (cases z) auto
  then show ?case using 3(1) by auto
qed (auto split: option.splits sum.splits)

text \<open>C40: the reliability benchmark never has more than \<open>concurrency\<close> calls open, it can go on until all
  its outcomes are in, and then its report is right, however the requests interleave: the successful
  and the failed requests are all requests, the client has counted as many successes, and in a
  simulation these are exactly the draws, among those that its attempts have consumed, that are not
  below the failure rate, with at most \<open>attempts\<close> draws for each request.\<close>

theorem benchmark_counts_agree:
  assumes "reliability_args requests concurrency attempts failure_rate = None"
    and "run_benchmark random requests concurrency attempts failure_rate seed endpoint model api_key_env now = Inr s0"
    and "bench_reachable s0 s"
  shows "length (filter (\<lambda>pc. \<not> call_over pc) (cl_calls (bn_client s))) \<le> nat concurrency
    \<and> (gathered (bn_tasks s) = None \<longrightarrow> (\<exists>s'. bench_step s s'))
    \<and> (\<forall>report. run_benchmark_end requests concurrency attempts seed failure_rate elapsed s = Some (Inr report) \<longrightarrow>
        (\<exists>k n. dict_get report ''successful'' = Some (PInt (int k)) \<and> dict_get report ''failed'' = Some (PInt (requests - int k))
          \<and> int k \<le> requests \<and> metric (cl_metrics (bn_client s)) ''llm_success_total'' = of_nat k
          \<and> metric (cl_metrics (bn_client s)) ''llm_attempts_total'' = of_nat n \<and> n \<le> nat attempts * nat requests
          \<and> (\<forall>rate. failure_rate = Some rate \<longrightarrow> k = card {i. i < n \<and> rate \<le> random seed i})))"
proof -
  define c where "c = \<lparr>rc_max_attempts = attempts, rc_base_delay_seconds = 1/100, rc_max_delay_seconds = 1/10,
      rc_jitter_ratio = 1/4 :: pyfloat\<rparr>"
  have pos: "0 < requests" "0 < concurrency" "0 < attempts"
    using assms(1) by (auto simp: reliability_args_def min_def split: if_splits)
  note ok0 = run_benchmark_start [OF assms(1,2), folded c_def]
  note ok = bench_ok_reachable [OF assms(3) ok0(1)]
  let ?calls = "cl_calls (bn_client s)"
  have r: "cl_reachable c (bn_client s)" using ok by (simp add: bench_ok_def Let_def)
  note cok = client_ok_reachable [OF r]
  have over: "length (filter (\<lambda>pc. \<not> call_over pc) ?calls) + length (filter call_over ?calls) = length ?calls"
    using sum_length_filter_compl [of call_over ?calls] by simp
  have parts: "length (filter waits ts) + length (filter calls_now ts) + length (filter finished_task ts) = length ts" for ts
  proof (induction ts)
    case (Cons t ts)
    then show ?case by (cases t) simp_all
  qed simp
  have few: "length (filter (\<lambda>pc. \<not> call_over pc) ?calls) \<le> nat concurrency"
  proof -
    have "bn_free s + length (filter calls_now (bn_tasks s)) = nat concurrency"
      "length ?calls + length (filter waits (bn_tasks s)) = length (bn_tasks s)"
      "length (filter call_over ?calls) = length (filter finished_task (bn_tasks s))"
      using ok by (simp_all add: bench_ok_def Let_def)
    then show ?thesis using over parts [of "bn_tasks s"] by linarith
  qed
  have go: "\<exists>s'. bench_step s s'" if "gathered (bn_tasks s) = None"
    using bench_progress [OF ok _ gathered_None [OF that]] pos by simp
  have rep: "\<exists>k n. dict_get report ''successful'' = Some (PInt (int k)) \<and> dict_get report ''failed'' = Some (PInt (requests - int k))
          \<and> int k \<le> requests \<and> metric (cl_metrics (bn_client s)) ''llm_success_total'' = of_nat k
          \<and> metric (cl_metrics (bn_client s)) ''llm_attempts_total'' = of_nat n \<and> n \<le> nat attempts * nat requests
          \<and> (\<forall>rate. failure_rate = Some rate \<longrightarrow> k = card {i. i < n \<and> rate \<le> random seed i})"
    if e: "run_benchmark_end requests concurrency attempts seed failure_rate elapsed s = Some (Inr report)" for report
  proof -
    obtain outcomes where o: "gathered (bn_tasks s) = Some (Inr outcomes)"
      and report: "reliability_report (bn_provider s) outcomes requests concurrency attempts seed failure_rate elapsed
          (cl_metrics (bn_client s)) = Inr report"
      using e by (auto simp: run_benchmark_end_def split: option.splits sum.splits)
    let ?k = "length (filter id outcomes)" and ?n = "sum_list (map provider_calls ?calls)"
    have k: "?k = length (filter succeeded ?calls)" "length outcomes = nat requests"
      using gathered_outcomes [OF o] ok by (auto simp: bench_ok_def Let_def)
    have calls: "length ?calls = nat requests"
    proof -
      have "filter waits (bn_tasks s) = []" using gathered_outcomes [OF o] by (auto simp: filter_empty_conv)
      then show ?thesis using ok by (simp add: bench_ok_def Let_def)
    qed
    have le: "int ?k \<le> requests" using length_filter_le [of id outcomes] k(2) pos(1) by linarith
    have succ: "metric (cl_metrics (bn_client s)) ''llm_success_total'' = of_nat ?k"
      using successes_counted [OF r] by (simp add: successes_ok_def k(1))
    have att: "metric (cl_metrics (bn_client s)) ''llm_attempts_total'' = of_nat ?n"
      using cok by (simp add: client_ok_def)
    have "provider_calls pc \<le> nat attempts" if "pc \<in> set ?calls" for pc
      using cok that call_ok_attempts_le [of "nat attempts" pc] by (simp add: client_ok_def c_def)
    then have "?n \<le> nat attempts * nat requests"
      using sum_list_mono [of ?calls provider_calls "\<lambda>_. nat attempts"] calls by (simp add: sum_list_triv mult.commute)
    moreover have "?k = card {i. i < ?n \<and> rate \<le> random seed i}" if "failure_rate = Some rate" for rate
    proof -
      have "draws_ok (simulated_new random rate seed) s"
        by (rule draws_ok_reachable [OF assms(3) ok0(1) ok0(2) [OF that]])
      then have "?k = length (filter (\<lambda>i. rate \<le> random seed i) [0..<?n])"
        by (auto simp: draws_ok_def simulated_new_def k(1))
      also have "\<dots> = card {i. i < ?n \<and> rate \<le> random seed i}"
        by (subst distinct_card [symmetric]) (auto intro!: arg_cong [where f = card])
      finally show ?thesis .
    qed
    moreover have "dict_get report ''successful'' = Some (PInt (int ?k)) \<and> dict_get report ''failed'' = Some (PInt (requests - int ?k))"
      using report by (auto simp: reliability_report_def Let_def split: if_splits)
    ultimately show ?thesis using le succ att by blast
  qed
  show ?thesis using few go rep by blast
qed

text \<open>One request, whose first draw is not below the rate.\<close>

lemma one_request:
  "\<exists>s0 s. run_benchmark (\<lambda>_ _. 1) 1 1 2 (Some (1/2)) 42 None ''m'' [] 0 = Inr s0 \<and> bench_reachable s0 s
     \<and> gathered (bn_tasks s) = Some (Inr [True])"
proof -
  let ?p = "simulated_new (\<lambda>_ _. 1) (1/2) 42"
  obtain s0 where s0: "run_benchmark (\<lambda>_ _. 1) 1 1 2 (Some (1/2)) 42 None ''m'' [] 0 = Inr s0"
    "bn_provider s0 = Simulation ?p" "bn_free s0 = 1" "bn_tasks s0 = [Bn_waiting]"
    "benchmark_client 1 2 0 = Inr (bn_client s0)"
  proof -
    obtain cl where "benchmark_client 1 2 0 = Inr cl"
      using accepted_arguments_work(1) [of 1 1 2 None 0] by (auto simp: reliability_args_def)
    moreover obtain r where "benchmark_request ''m'' = Inr r" using benchmark_request_ok by blast
    ultimately show thesis
      using that [of "\<lparr>bn_client = cl, bn_provider = Simulation ?p, bn_free = 1, bn_tasks = [Bn_waiting]\<rparr>"]
      by (simp add: run_benchmark_def measured_provider_def)
  qed
  have "cl_calls cl = [] \<and> tb_capacity (cl_limiter cl) = 1 \<and> tb_tokens (cl_limiter cl) = 1
      \<and> tb_updated_at (cl_limiter cl) = 0 \<and> tb_refill_rate (cl_limiter cl) = 1000 \<and> br_state (cl_breaker cl) = CB_CLOSED"
    if "benchmark_client 1 2 0 = Inr cl" for cl
    using that
    by (auto simp: benchmark_client_def bucket_new_def rate_limit_validate_def breaker_new_def client_new_def
        breaker_validate_def breaker_defaults_def retry_validate_def split: if_splits)
  note cl = this [OF s0(5)]
  define s1 where "s1 = s0\<lparr>bn_client := call_begin (bn_client s0), bn_free := 0, bn_tasks := [Bn_calling 0]\<rparr>"
  have e: "bench_enter 0 s0 = Some s1" using s0 cl by (simp add: bench_enter_def s1_def)
  obtain cl1 where c1: "call_round 0 0 (bn_client s1) = Some cl1" "cl_calls cl1 = [Calling 1]"
    using cl by (simp add: s1_def call_begin_def call_round_def call_at_def acquire_check_def acquire_round_def
        bucket_refill_def Let_def before_call_def take_probe_def)
  obtain s2 where s2: "bench_round 0 0 0 s1 = Some s2" "bn_tasks s2 = [Bn_done (Inr True)]"
    using c1 s0(2)
    by (simp add: bench_round_def bench_call_def s1_def simulated_answer_def simulated_complete_def simulated_new_def
        call_return_def call_at_def bench_settle_def benchmark_execute_def)
  have "bench_reachable s0 s2"
    by (rule bench_next [OF bench_next [OF bench_start bench_step.enter [OF e]] bench_step.round [OF s2(1)]])
  then show ?thesis using s0(1) s2(2) by auto
qed

theorem benchmark_counts_agree_witness:
  "\<exists>s0 s report n. bench_reachable s0 s \<and> run_benchmark_end 1 1 2 42 (Some (1/2)) 3 s = Some (Inr report)
     \<and> dict_get report ''successful'' = Some (PInt 1) \<and> metric (cl_metrics (bn_client s)) ''llm_success_total'' = 1
     \<and> metric (cl_metrics (bn_client s)) ''llm_attempts_total'' = of_nat n \<and> n \<le> 2"
proof -
  obtain s0 s where s: "run_benchmark (\<lambda>_ _. 1) 1 1 2 (Some (1/2)) 42 None ''m'' [] 0 = Inr s0" "bench_reachable s0 s"
    "gathered (bn_tasks s) = Some (Inr [True])"
    using one_request by blast
  have a: "reliability_args 1 1 2 (Some (1/2)) = None" by (simp add: reliability_args_def)
  obtain report where report: "run_benchmark_end 1 1 2 42 (Some (1/2)) 3 s = Some (Inr report)"
    "dict_get report ''successful'' = Some (PInt 1)"
    using s(3) by (simp add: run_benchmark_end_def reliability_report_def Let_def)
  obtain k n where kn: "dict_get report ''successful'' = Some (PInt (int k))"
    "metric (cl_metrics (bn_client s)) ''llm_success_total'' = of_nat k"
    "metric (cl_metrics (bn_client s)) ''llm_attempts_total'' = of_nat n" "n \<le> nat 2 * nat 1"
    using benchmark_counts_agree [OF a s(1,2), of 3] report(1) by blast
  have "int k = 1" using kn(1) report(2) by simp
  then have "k = 1" by simp
  then show ?thesis using s(2) report kn by auto
qed

subsection \<open>What a runtime admits\<close>

lemma unfinished_placed:
  assumes i: "rt_inv E s" and c: "\<not> rt_closed s"
  shows "finite {rid. unfinished s rid}"
    and "card {rid. unfinished s rid} \<le> length (tq_items (rt_queue s)) + nat (cf_max_concurrency (env_config E))"
proof -
  let ?L = "{tid. live (rt_execs s) tid}"
  have "sched (run_state_of s) (qids s) (rt_execs s)" using rt_inv0D(4) [OF rt_invD(1) [OF i]] by (simp add: inv_sched_def)
  then have sub: "{rid. unfinished s rid} \<subseteq> set (qids s) \<union> exec_run s ` ?L"
    using sched_covered by (fastforce simp: unfinished_def split: option.splits)
  have fin: "finite (set (qids s) \<union> exec_run s ` ?L)" using live_workers(1) [OF i c] by simp
  show "finite {rid. unfinished s rid}" by (rule finite_subset [OF sub fin])
  have "card {rid. unfinished s rid} \<le> card (set (qids s)) + card (exec_run s ` ?L)"
    using card_mono [OF fin sub] card_Un_le [of "set (qids s)" "exec_run s ` ?L"] by linarith
  also have "card (set (qids s)) \<le> length (tq_items (rt_queue s))" using card_length [of "qids s"] by simp
  also have "card (exec_run s ` ?L) \<le> card ?L" using live_workers(1) [OF i c] by (rule card_image_le)
  also have "card ?L \<le> nat (cf_max_concurrency (env_config E))"
    using live_workers(2) [OF i c] rt_inv0D(5) [OF rt_invD(1) [OF i]] by (simp add: inv_workers_def)
  finally show "card {rid. unfinished s rid} \<le> length (tq_items (rt_queue s)) + nat (cf_max_concurrency (env_config E))"
    by simp
qed

lemma backlog_full:
  assumes i: "rt_inv E s" and v: "runtime_validate (env_config E) = Inr ()" and c: "\<not> rt_closed s"
    and n: "cf_queue_capacity (env_config E) + cf_max_concurrency (env_config E) \<le> int (card {rid. unfinished s rid})"
  shows "queue_full (rt_queue s)"
proof -
  have "wf_queue (rt_queue s)" "tq_capacity (rt_queue s) = nat (cf_queue_capacity (env_config E))"
    using rt_inv0D(6) [OF rt_invD(1) [OF i]] by (simp_all add: inv_queue_def)
  moreover have "cf_queue_capacity (env_config E) \<le> int (length (tq_items (rt_queue s)))"
    using unfinished_placed(2) [OF i c] n runtime_validateD [OF v] by linarith
  ultimately show ?thesis by (simp add: queue_full_def wf_queue_def)
qed



end
