(* ===== verification/Lost_Task.thy ===== *)
theory Lost_Task
  imports Runtime_Cases Runtime_Progress
begin

section \<open>A retried run and the worker of its first execution\<close>

text \<open>
  \<open>_tasks\<close> maps a run to its execution task, and a worker that comes back from its task removes the
  entry of the run - whatever task it names by then. A run that has failed can be retried at once, and
  another worker can take it before the first one is back: then the entry that is removed is the new
  task's.
\<close>

lemma time_out_and_retry:
  assumes r: "reachable E s" and u: "uuids_ok E" and c: "\<not> rt_closed s" and st: "rt_started s"
    and w: "i < length (rt_workers s)" "wk_pc (rt_workers s ! i) = W_idle"
    and new: "qids s = []" "rt_execs s = []" "rt_tasks s = []" and input: "strip input \<noteq> []"
  shows "\<exists>rid s'. reachable E s' \<and> \<not> rt_closed s' \<and> rid \<in> set (rt_runs s') \<and> qids s' = [rid]
    \<and> run_state_of s' rid = Some READY \<and> rt_tasks s' = [(rid, 0)]
    \<and> (\<exists>x. rt_execs s' = [x] \<and> et_run x = rid \<and> et_pc x = Exec_done Returned)
    \<and> (\<exists>r. rt_heap s' rid = Some r \<and> rr_kind r = SIMPLE \<and> rr_state r = READY)
    \<and> rt_workers s' = (rt_workers s)[i := (rt_workers s ! i)\<lparr>wk_pc := W_busy rid 0\<rparr>]"
proof -
  from submit_and_pick [OF r u c st w new(1) input refl, of 0 SIMPLE None] new(2,3)
  obtain rid s1 s2 r2 where s2: "submit E 0 input (Inr SIMPLE) None None s = (Inr rid, s1)" "worker_pick i s1 = Some s2"
    "reachable E s2" "exec_at s2 0 = Some Not_started" "exec_run s2 0 = rid" "\<not> et_cancel (rt_execs s2 ! 0)"
    "rt_heap s2 rid = Some r2" "rr_state r2 = READY" "rr_kind r2 = SIMPLE" "rid \<in> set (rt_runs s2)"
    "rt_workers s2 = (rt_workers s)[i := (rt_workers s ! i)\<lparr>wk_pc := W_busy rid 0\<rparr>]"
    "rt_execs s2 = [\<lparr>et_run = rid, et_pc = Not_started, et_cancel = False, et_began = 0\<rparr>]"
    "rt_tasks s2 = [(rid, 0)]" "\<not> rt_closed s2" "qids s2 = []"
    by auto
  obtain s3 r3 coro where s3: "exec_start E 0 0 s2 = Some s3" "run_state_of s3 = (run_state_of s2)(rid \<mapsto> RUNNING)"
    "rt_heap s3 rid = Some r3" "rt_execs s3 = [\<lparr>et_run = rid, et_pc = Driving coro, et_cancel = False, et_began = 0\<rparr>]"
    "rt_workers s3 = rt_workers s2" "qids s3 = []" "rt_tasks s3 = rt_tasks s2" "rt_closed s3 = rt_closed s2"
    "rt_runs s3 = rt_runs s2"
    using exec_start_runs [OF s2(4,6), of E 0] s2(5,7,8,12,15) by (auto simp: run_state_of_def)
  have r3': "reachable E s3" by (rule reachable.step [OF s2(3) rt_step.exec_start [OF s3(1)]])
  have x3: "exec_at s3 0 = Some (Driving coro)" "exec_run s3 0 = rid" by (simp_all add: exec_at_def s3(4))
  have st3: "rr_state r3 = RUNNING" using fun_cong [OF s3(2), of rid] s3(3) by (simp add: run_state_of_def)
  obtain s4 where s4: "exec_timeout E 0 0 s3 = Some s4" "run_state_of s4 = (run_state_of s3)(rid \<mapsto> FAILED)"
    "rt_execs s4 = (rt_execs s3)[0 := (rt_execs s3 ! 0)\<lparr>et_pc := Exec_done Returned\<rparr>]"
    "rt_runs s4 = rt_runs s3" "qids s4 = []" "rt_closed s4 = rt_closed s3" "rt_workers s4 = rt_workers s3"
    "rt_tasks s4 = rt_tasks s3"
    using exec_timeout_fails [OF reachable_inv [OF r3' u] x3(1), of r3 0] x3(2) s3(3,6,9) st3 s2(10) by auto
  have r4: "reachable E s4" by (rule reachable.step [OF r3' rt_step.exec_timeout [OF s4(1)]])
  note i4 = reachable_inv [OF r4 u]
  have "\<not> queue_full (rt_queue s4)" using rt_inv0D(6) [OF rt_invD(1) [OF i4]] s4(5)
    by (auto simp: inv_queue_def wf_queue_def queue_full_def)
  then obtain s5 where s5: "retry E 0 rid s4 = (Inr rid, s5)" "run_state_of s5 = (run_state_of s4)(rid \<mapsto> READY)"
    "qids s5 = [rid]" "rt_execs s5 = rt_execs s4" "rt_workers s5 = rt_workers s4" "rt_tasks s5 = rt_tasks s4"
    "rt_closed s5 = rt_closed s4" "rt_runs s5 = rt_runs s4"
    using retry_revives [OF i4, of rid 0] s4(2,4,5) s3(9) s2(10) by auto
  have "reachable E s5" using reachable.step [OF r4 rt_step.retry, of 0 rid] s5(1) by simp
  moreover have "rt_execs s5 = [\<lparr>et_run = rid, et_pc = Exec_done Returned, et_cancel = False, et_began = 0\<rparr>]"
    by (simp add: s5(4) s4(3) s3(4))
  moreover have "rt_workers s5 = (rt_workers s)[i := (rt_workers s ! i)\<lparr>wk_pc := W_busy rid 0\<rparr>]"
    by (simp add: s5(5) s4(7) s3(5) s2(11))
  moreover have "rt_tasks s5 = [(rid, 0)]" by (simp add: s5(6) s4(8) s3(7) s2(13))
  moreover have "\<not> rt_closed s5" "rid \<in> set (rt_runs s5)"
    using s2(10,14) by (simp_all add: s5(7,8) s4(4,6) s3(8,9))
  moreover have "extends s2 s5"
  proof -
    have "extends s4 s5" using step_extends [OF rt_step.retry [of E s4 0 rid] i4 u] s5(1) by simp
    then show ?thesis
      using step_extends [OF rt_step.exec_start [OF s3(1)] reachable_inv [OF s2(3) u] u]
        step_extends [OF rt_step.exec_timeout [OF s4(1)] reachable_inv [OF r3' u] u]
      by (meson extends_trans)
  qed
  then obtain r5 where r5: "rt_heap s5 rid = Some r5" "grows r2 r5"
    using s2(7) unfolding extends_def by blast
  moreover have "rr_kind r5 = SIMPLE" using r5(2) s2(9) by (simp add: grows_def)
  moreover have "rr_state r5 = READY" using fun_cong [OF s5(2), of rid] r5(1) by (simp add: run_state_of_def)
  ultimately show ?thesis using s5(2,3) by (intro exI [of _ rid] exI [of _ s5]) simp
qed

text \<open>The second execution is under way when the first worker comes back.\<close>

lemma retried_task_forgotten:
  assumes r: "reachable E s" and u: "uuids_ok E" and c: "\<not> rt_closed s" and st: "rt_started s"
    and w: "i < length (rt_workers s)" "j < length (rt_workers s)" "i \<noteq> j"
      "wk_pc (rt_workers s ! i) = W_idle" "wk_pc (rt_workers s ! j) = W_idle"
    and new: "qids s = []" "rt_execs s = []" "rt_tasks s = []" and input: "strip input \<noteq> []"
  shows "\<exists>rid s' k. reachable E s' \<and> \<not> rt_closed s' \<and> run_state_of s' rid = Some WAITING
    \<and> exec_at s' 1 = Some (At_llm ''simple.generate'' k t) \<and> exec_run s' 1 = rid
    \<and> \<not> et_cancel (rt_execs s' ! 1) \<and> wk_pc (rt_workers s' ! i) = W_idle
    \<and> wk_pc (rt_workers s' ! j) = W_busy rid 1 \<and> rt_tasks s' = [] \<and> rid \<in> set (rt_runs s')"
proof -
  obtain rid s1 x r1 where s1: "reachable E s1" "\<not> rt_closed s1" "rid \<in> set (rt_runs s1)" "qids s1 = [rid]"
    "run_state_of s1 rid = Some READY" "rt_tasks s1 = [(rid, 0)]" "rt_execs s1 = [x]" "et_run x = rid"
    "et_pc x = Exec_done Returned" "rt_heap s1 rid = Some r1" "rr_kind r1 = SIMPLE" "rr_state r1 = READY"
    "rt_workers s1 = (rt_workers s)[i := (rt_workers s ! i)\<lparr>wk_pc := W_busy rid 0\<rparr>]"
    using time_out_and_retry [OF r u c st w(1,4) new input] by (elim exE conjE) (rule that)
  note i1 = reachable_inv [OF s1(1) u]
  have nc: "\<not> wk_cancel (rt_workers s1 ! j)"
    using inv_liveD(3) [OF rt_invD(2) [OF i1], of "rt_workers s1 ! j"] s1(2,13) w(2) by auto
  obtain s2 where s2: "worker_pick j s1 = Some s2" "rt_heap s2 = rt_heap s1"
    "rt_execs s2 = [x, \<lparr>et_run = rid, et_pc = Not_started, et_cancel = False, et_began = 0\<rparr>]"
    "rt_tasks s2 = [(rid, 1)]" "rt_closed s2 = rt_closed s1" "rt_runs s2 = rt_runs s1"
    "rt_workers s2 = (rt_workers s1)[j := (rt_workers s1 ! j)\<lparr>wk_pc := W_busy rid 1\<rparr>]"
    using worker_pick_starts [OF i1, of j rid "[]"] s1(4,5,6,7,13) w nc by auto
  have r2: "reachable E s2" by (rule reachable.step [OF s1(1) rt_step.worker_pick [OF s2(1)]])
  have x2: "exec_at s2 1 = Some Not_started" "\<not> et_cancel (rt_execs s2 ! 1)" "exec_run s2 1 = rid"
    by (simp_all add: exec_at_def s2(3))
  have "rt_heap s2 (exec_run s2 1) = Some r1" using x2(3) s1(10) s2(2) by simp
  from simple_until_answer [OF r2 u x2(1,2) this s1(12,11), of t t undefined]
  obtain s3 s4 k y where s4: "exec_start E t 1 s2 = Some s3" "exec_drive E t 1 s3 = Some s4"
    "exec_at s4 1 = Some (At_llm ''simple.generate'' k t)" "run_state_of s4 = (run_state_of s2)(rid \<mapsto> WAITING)"
    "exec_run s4 1 = rid" "rt_workers s4 = rt_workers s2" "rt_runs s4 = rt_runs s2" "reachable E s4"
    "rt_execs s4 = (rt_execs s2)[1 := y]" "et_cancel y = et_cancel (rt_execs s2 ! 1)" "rt_tasks s4 = rt_tasks s2"
    "rt_closed s4 = rt_closed s2"
    unfolding x2(3) by blast
  have w4: "rt_workers s4 = (rt_workers s)[i := (rt_workers s ! i)\<lparr>wk_pc := W_busy rid 0\<rparr>,
      j := (rt_workers s ! j)\<lparr>wk_pc := W_busy rid 1\<rparr>]"
    using w(3) by (simp add: s4(6) s2(7) s1(13))
  have d4: "et_pc (rt_execs s4 ! 0) = Exec_done Returned" by (simp add: s4(9) s2(3) s1(9))
  obtain s5 where s5: "worker_resume i s4 = Some s5" "rt_heap s5 = rt_heap s4" "rt_execs s5 = rt_execs s4"
    "rt_tasks s5 = dict_pop rid (rt_tasks s4)" "rt_workers s5 = (rt_workers s4)[i := (rt_workers s4 ! i)\<lparr>wk_pc := W_idle\<rparr>]"
    "rt_runs s5 = rt_runs s4" "rt_closed s5 = rt_closed s4"
    using worker_resume_done [OF reachable_inv [OF s4(8) u], of i rid 0 Returned] w w4 d4 by auto
  have "reachable E s5" by (rule reachable.step [OF s4(8) rt_step.worker_resume [OF s5(1)]])
  moreover have "exec_at s5 1 = Some (At_llm ''simple.generate'' k t)" "exec_run s5 1 = rid"
    using s4(3,5) by (simp_all add: exec_at_def s5(3) split: if_splits)
  moreover have "\<not> et_cancel (rt_execs s5 ! 1)" using x2(2) by (simp add: s5(3) s4(9,10) s2(3))
  moreover have "run_state_of s5 rid = Some WAITING"
    unfolding state_heap_cong [OF s5(2)] s4(4) by simp
  moreover have "wk_pc (rt_workers s5 ! i) = W_idle" "wk_pc (rt_workers s5 ! j) = W_busy rid 1"
    using w by (simp_all add: s5(5) w4)
  moreover have "rt_tasks s5 = []" by (simp add: s5(4) s4(11) s2(4))
  moreover have "\<not> rt_closed s5" "rid \<in> set (rt_runs s5)"
    using s1(2,3) by (simp_all add: s5(6,7) s4(7,12) s2(5,6))
  ultimately show ?thesis by blast
qed

text \<open>\<open>cancel\<close> and \<open>close\<close> find no task to cancel.\<close>

lemma cancel_without_task:
  assumes i: "rt_inv E s" and st: "run_state_of s rid = Some t" "\<not> terminal t"
    and task: "dict_get (rt_tasks s) rid = None"
  shows "\<exists>s'. cancel E now rid s = (Inr True, s') \<and> run_state_of s' rid = Some CANCELLED
    \<and> rt_execs s' = rt_execs s"
proof -
  have "rid \<in> set (rt_runs s)" using rt_inv0D(2) [OF rt_invD(1) [OF i]] st by (auto simp: inv_registry_def)
  then obtain run where run: "runs_get s rid = Some run" "rr_state run = t"
    using st(1) by (auto simp: runs_get_def run_state_of_def)
  show ?thesis unfolding cancel_eq [OF i run(1)] using run(2) st task by simp
qed

lemma close_without_tasks:
  assumes i: "rt_inv E s" and c: "\<not> rt_closed s" and task: "rt_tasks s = []"
  shows "\<exists>s'. close_begin E now s = (Inr (), s') \<and> rt_closed s' \<and> rt_execs s' = rt_execs s \<and> rt_gathered s' = []"
proof -
  have i0: "rt_inv0 E (s\<lparr>rt_closed := True\<rparr>)"
    by (rule rt_inv0_cong [OF rt_invD(1) [OF i]]) (simp_all add: rt_inv_world [OF i])
  obtain s1 where "close_runs E now (rt_runs s) (s\<lparr>rt_closed := True\<rparr>) = (Inr (), s1)"
    "rt_closed s1" "rt_execs s1 = rt_execs s" "rt_tasks s1 = []"
    using close_runs_inv [OF i0, of now "rt_runs s"] task by auto
  then show ?thesis using c by (simp add: close_begin_def Let_def)
qed

text \<open>
  A run times out, is retried and taken by the second worker, and then the first worker comes back. Now
  \<open>cancel\<close> answers \<open>True\<close> and leaves the task, which waits for the model, as it is; and \<open>close\<close> does not
  gather the task either.
\<close>

theorem retried_task_is_out_of_reach:
  assumes "reachable E s" and "uuids_ok E" and "\<not> rt_closed s" and "rt_started s"
    and "i < length (rt_workers s)" and "j < length (rt_workers s)" and "i \<noteq> j"
    and "wk_pc (rt_workers s ! i) = W_idle" and "wk_pc (rt_workers s ! j) = W_idle"
    and "qids s = []" and "rt_execs s = []" and "rt_tasks s = []" and "strip input \<noteq> []"
  shows "\<exists>s1 rid k. reachable E s1 \<and> \<not> rt_closed s1 \<and> run_state_of s1 rid = Some WAITING
    \<and> exec_at s1 1 = Some (At_llm ''simple.generate'' k t) \<and> exec_run s1 1 = rid
    \<and> (\<exists>s2. cancel E now rid s1 = (Inr True, s2) \<and> run_state_of s2 rid = Some CANCELLED
        \<and> exec_at s2 1 = exec_at s1 1 \<and> exec_cancelled E later 1 s2 = None)
    \<and> (\<exists>s2. close_begin E now s1 = (Inr (), s2) \<and> rt_closed s2 \<and> rt_gathered s2 = []
        \<and> exec_at s2 1 = exec_at s1 1 \<and> exec_cancelled E later 1 s2 = None)"
proof -
  obtain rid s1 k where s1: "reachable E s1" "\<not> rt_closed s1" "run_state_of s1 rid = Some WAITING"
    "exec_at s1 1 = Some (At_llm ''simple.generate'' k t)" "exec_run s1 1 = rid" "\<not> et_cancel (rt_execs s1 ! 1)"
    "rt_tasks s1 = []"
    using retried_task_forgotten [OF assms, of t] by (elim exE conjE) (rule that)
  note i = reachable_inv [OF s1(1) assms(2)]
  have same: "exec_at s2 1 = exec_at s1 1" "exec_cancelled E later 1 s2 = None" if "rt_execs s2 = rt_execs s1" for s2
    using that s1(6) by (simp_all add: exec_at_def exec_cancelled_def)
  show ?thesis
    using s1(1-5) cancel_without_task [OF i s1(3), of now] close_without_tasks [OF i s1(2,7), of now] same s1(7)
    by (intro exI [of _ s1] exI [of _ rid] exI [of _ k]) fastforce
qed

end
