(* ===== verification/Findings.thy ===== *)
theory Findings
  imports Runtime_Cases Resilience_Properties Api Leases Lost_Task Wired_Service Benchmarks_Properties
begin

section \<open>Where the code departs from its intent\<close>

text \<open>
  Executions and facts that show a behaviour the code or its documents do not mean to have: a
  worker that is lost, a run that is stranded, a gauge that is stale, a breaker that counts the
  wrong caller, settings without effect and requests without a proper answer.
\<close>

subsection \<open>Workers\<close>

text \<open>
  \<open>cancel\<close> of a run whose task has not had its first turn ends the task as cancelled; the \<open>await\<close> in
  the worker then raises, and the worker is gone for good, although the runtime is open. With one
  worker nothing is executed any more.
\<close>

theorem cancel_before_start_loses_worker:
  "\<exists>s s1 s2 s3. demo_at Not_started READY s \<and> cancel small_env 5 demo_run s = (Inr True, s1)
     \<and> exec_cancelled small_env 5 0 s1 = Some s2 \<and> worker_resume 0 s2 = Some s3
     \<and> reachable small_env s3 \<and> \<not> rt_closed s3 \<and> (\<forall>i. worker_pick i s3 = None)"
proof -
  obtain s where s: "demo_at Not_started READY s" using ex_demo_picked by blast
  obtain s1 where s1: "cancel small_env 5 demo_run s = (Inr True, s1)" "reachable small_env s1"
    "rt_workers s1 = rt_workers s" "exec_at s1 0 = Some Not_started" "et_cancel (rt_execs s1 ! 0)" "\<not> rt_closed s1"
    using cancel_reaches_task [OF demo_atD(6) [OF s] small_uuids_ok _ demo_atD(5) [OF s] _ _ demo_atD(2) [OF s], of 5] s
    by (auto simp: demo_at_def)
  define s2 where "s2 = set_exec 0 (Exec_done Cancelled_task) s1"
  have s2: "exec_cancelled small_env 5 0 s1 = Some s2"
    using exec_cancelled_unstarted [OF s1(4,5)] by (simp add: s2_def)
  have r2: "reachable small_env s2" by (rule reachable.step [OF s1(2) rt_step.exec_cancelled [OF s2]])
  have x: "0 < length (rt_execs s1)" using s1(4) by (auto simp: exec_at_def split: if_splits)
  have w: "rt_workers s2 = [\<lparr>wk_pc = W_busy demo_run 0, wk_cancel = False\<rparr>]"
    using s s1(3) by (auto simp: s2_def set_exec_def demo_at_def)
  have done2: "et_pc (rt_execs s2 ! 0) = Exec_done Cancelled_task" using x by (simp add: s2_def set_exec_def)
  have i2: "rt_inv small_env s2" using r2 small_uuids_ok by (rule reachable_inv)
  obtain s3 where s3: "worker_resume 0 s2 = Some s3"
    "rt_workers s3 = [\<lparr>wk_pc = W_dead, wk_cancel = False\<rparr>]" "rt_closed s3 = rt_closed s2"
    using worker_resume_done [OF i2, of 0 demo_run 0 "Cancelled_task"] w done2 by auto
  have "reachable small_env s3" by (rule reachable.step [OF r2 rt_step.worker_resume [OF s3(1)]])
  moreover have "worker_pick i s3 = None" for i
    by (cases i) (simp_all add: worker_pick_def s3(2))
  moreover have "\<not> rt_closed s3" using s1(6) s3(3) by (simp add: s2_def set_exec_def)
  ultimately show ?thesis using s s1(1) s2 s3(1) by blast
qed

text \<open>A finished run does not survive a submission when the unfinished runs fill the registry.\<close>

lemma full_registry_evicts:
  assumes i: "rt_inv E s" and c: "\<not> rt_closed s" and st: "run_state_of s rid = Some CANCELLED"
    and full: "cf_max_run_records (env_config E) \<le> 1 + int (card {x. unfinished s x})"
    and fin: "finite {x. unfinished s x}"
  shows "rid \<notin> set (rt_runs (cleanup_runs E now 1 (snd (runtime_start E s))))"
proof
  let ?t = "snd (runtime_start E s)"
  let ?c = "cleanup_runs E now 1 ?t"
  assume reg: "rid \<in> set (rt_runs ?c)"
  note cl = cleanup_runs_inv [OF runtime_start_inv [OF i], where now = now and reserve = 1]
  have "rt_heap ?t = rt_heap s" by (simp add: runtime_start_def Let_def set_gauge_def)
  then have states: "run_state_of ?c = run_state_of s" by (intro state_heap_cong) (simp add: cl(5))
  have d: "distinct (rt_runs ?c)" and un: "{x. unfinished s x} \<subseteq> set (rt_runs ?c)"
    using rt_inv0D(2) [OF rt_invD(1) [OF cl(1)]]
    by (auto simp: inv_registry_def unfinished_def states split: option.splits)
  have "rid \<notin> {x. unfinished s x}" using st by (simp add: unfinished_def)
  then have "Suc (card {x. unfinished s x}) \<le> card (set (rt_runs ?c))"
    using card_mono [of "set (rt_runs ?c)" "insert rid {x. unfinished s x}"] un reg fin by simp
  then have "1 + int (card {x. unfinished s x}) \<le> int (length (rt_runs ?c))"
    using d by (simp add: distinct_card)
  moreover have "\<not> unfinished ?c rid" using st by (simp add: unfinished_def states)
  ultimately show False using cl(7) reg full by auto
qed

text \<open>The \<open>finally\<close> block of a cancelled task, for a run that was reclaimed.\<close>

lemma cancelled_evicted_raises:
  assumes i: "rt_inv E s" and pc: "exec_at s tid = Some (At_llm step k began)"
    and x: "et_cancel (rt_execs s ! tid)" and st: "run_state_of s (exec_run s tid) = Some CANCELLED"
    and reg: "exec_run s tid \<notin> set (rt_runs s)"
  shows "\<exists>s'. exec_cancelled E now tid s = Some s'
    \<and> exec_at s' tid = Some (Exec_done (Raised (KeyError (exec_run s tid))))
    \<and> rt_workers s' = rt_workers s \<and> rt_closed s' = rt_closed s \<and> qids s' = qids s"
proof -
  have key: "exec_run s tid \<notin> fst ` set (rt_completion s)"
    using rt_inv0D(2) [OF rt_invD(1) [OF i]] reg by (simp add: inv_registry_def)
  have tid: "tid < length (rt_execs s)" using pc by (simp add: exec_at_def split: if_splits)
  show ?thesis
    using pc x st key tid
    by (auto simp: exec_cancelled_def interrupt_def back_to_running_def fsm_if_current_eq legal_simps
        exec_fail_def Let_def fsm_if_allowed_eq may_move_def exec_finally_def completion_put_eq exec_at_def)
qed

lemma crowded_unfinished:
  assumes "run_state_of s rid = Some CANCELLED" and "run_state_of s b = Some READY" "run_state_of s c = Some READY"
    and "b \<noteq> c" and i: "rt_inv E s"
  shows "finite {x. unfinished s x}" "2 \<le> card {x. unfinished s x}"
proof -
  have "{x. unfinished s x} \<subseteq> set (rt_runs s)"
    using rt_inv0D(2) [OF rt_invD(1) [OF i]] by (auto simp: inv_registry_def unfinished_def split: option.splits)
  then show f: "finite {x. unfinished s x}" by (rule finite_subset) simp
  have "{b, c} \<subseteq> {x. unfinished s x}" using assms(2,3) by (simp add: unfinished_def)
  then show "2 \<le> card {x. unfinished s x}" using card_mono [OF f, of "{b, c}"] assms(4) by simp
qed

text \<open>
  A run is cancelled while it waits for the model, and before its task has its turn a submission
  reclaims it from the full registry. The \<open>finally\<close> block of the task then does not find the
  completion event: \<open>KeyError\<close> ends the task, and with it the worker.
\<close>

theorem eviction_loses_worker:
  "\<exists>s s1 s2 s3 s4. demo_crowded s \<and> cancel small_env 5 demo_run s = (Inr True, s1)
     \<and> submit small_env 6 ''hello'' (Inr SIMPLE) None None s1 = (Inl (RunQueueFullError 1), s2)
     \<and> exec_cancelled small_env 7 0 s2 = Some s3
     \<and> exec_at s3 0 = Some (Exec_done (Raised (KeyError demo_run)))
     \<and> worker_resume 0 s3 = Some s4 \<and> reachable small_env s4 \<and> \<not> rt_closed s4
     \<and> length (qids s4) = 2 \<and> (\<forall>i. worker_pick i s4 = None)"
proof -
  obtain s where s: "demo_crowded s" using ex_demo_crowded by blast
  obtain k began b c where f: "reachable small_env s" "\<not> rt_closed s" "length (qids s) = 2"
    "exec_at s 0 = Some (At_llm ''simple.generate'' k began)" "exec_run s 0 = demo_run"
    "rt_workers s = [\<lparr>wk_pc = W_busy demo_run 0, wk_cancel = False\<rparr>]"
    "dict_get (rt_tasks s) demo_run = Some 0" "run_state_of s demo_run = Some WAITING"
    "b \<noteq> c" "demo_run \<notin> {b, c}" "run_state_of s b = Some READY" "run_state_of s c = Some READY"
    using s unfolding demo_crowded_def by blast
  obtain s1 where s1: "cancel small_env 5 demo_run s = (Inr True, s1)" "reachable small_env s1"
    "run_state_of s1 = (run_state_of s)(demo_run \<mapsto> CANCELLED)" "rt_workers s1 = rt_workers s"
    "exec_at s1 0 = Some (At_llm ''simple.generate'' k began)" "et_cancel (rt_execs s1 ! 0)"
    "exec_run s1 0 = exec_run s 0" "\<not> rt_closed s1" "qids s1 = qids s"
    using cancel_reaches_task [OF f(1) small_uuids_ok f(2,8) _ f(7,4), of 5] by auto
  have i1: "rt_inv small_env s1" using s1(2) small_uuids_ok by (rule reachable_inv)
  have st: "run_state_of s1 demo_run = Some CANCELLED" "run_state_of s1 b = Some READY"
    "run_state_of s1 c = Some READY" using s1(3) f(10-12) by auto
  have "length (qids s1) = 2" unfolding s1(9) by (rule f(3))
  then have q: "queue_full (rt_queue s1)" using small_capacity [OF i1] by (simp add: queue_full_def)
  have inp: "strip ''hello'' \<noteq> []" by code_simp
  have "cf_max_run_records (env_config small_env) = 3" "cf_queue_retry_after_seconds (env_config small_env) = 1"
    by (simp_all add: small_env_def small_config_def runtime_defaults_def)
  note cfg = this
  have gone: "demo_run \<notin> set (rt_runs (cleanup_runs small_env 6 1 (snd (runtime_start small_env s1))))"
    using crowded_unfinished [OF st f(9) i1]
    by (intro full_registry_evicts [OF i1 s1(8) st(1)]) (simp_all add: cfg)
  obtain s2 where s2: "submit small_env 6 ''hello'' (Inr SIMPLE) None None s1 = (Inl (RunQueueFullError 1), s2)"
    "demo_run \<notin> set (rt_runs s2)" "run_state_of s2 = run_state_of s1" "rt_execs s2 = rt_execs s1"
    "qids s2 = qids s1" "rt_workers s2 = rt_workers (snd (runtime_start small_env s1))" "\<not> rt_closed s2"
    using submit_full [OF i1 s1(8) inp q, of 6 SIMPLE None] gone by (auto simp: cfg)
  have r2: "reachable small_env s2"
    using reachable.step [OF s1(2) rt_step.submit, of 6 "''hello''" "Inr SIMPLE" None None] s2(1) by simp
  have i2: "rt_inv small_env s2" using r2 small_uuids_ok by (rule reachable_inv)
  have "rt_workers s1 \<noteq> []" by (simp add: s1(4) f(6))
  then have w2: "rt_workers s2 = [\<lparr>wk_pc = W_busy demo_run 0, wk_cancel = False\<rparr>]"
    using start_again [OF i1 _ s1(8)] by (simp add: s2(6) s1(4) f(6))
  have x2: "exec_at s2 0 = Some (At_llm ''simple.generate'' k began)" "et_cancel (rt_execs s2 ! 0)"
    "exec_run s2 0 = demo_run" using s1(5,6,7) f(5) by (simp_all add: exec_at_def s2(4) split: if_splits)
  obtain s3 where s3: "exec_cancelled small_env 7 0 s2 = Some s3"
    "exec_at s3 0 = Some (Exec_done (Raised (KeyError demo_run)))" "rt_workers s3 = rt_workers s2"
    "rt_closed s3 = rt_closed s2" "qids s3 = qids s2"
    using cancelled_evicted_raises [OF i2 x2(1,2), of 7] x2(3) s2(2,3) st(1) by auto
  have r3: "reachable small_env s3" by (rule reachable.step [OF r2 rt_step.exec_cancelled [OF s3(1)]])
  have d3: "et_pc (rt_execs s3 ! 0) = Exec_done (Raised (KeyError demo_run))"
    using s3(2) by (simp add: exec_at_def split: if_splits)
  obtain s4 where s4: "worker_resume 0 s3 = Some s4" "qids s4 = qids s3"
    "rt_workers s4 = [\<lparr>wk_pc = W_dead, wk_cancel = False\<rparr>]" "rt_closed s4 = rt_closed s3"
    using worker_resume_done [OF reachable_inv [OF r3 small_uuids_ok], of 0 demo_run 0 "Raised (KeyError demo_run)"]
      w2 s3(3) d3 by auto
  have "reachable small_env s4" by (rule reachable.step [OF r3 rt_step.worker_resume [OF s4(1)]])
  moreover have "worker_pick i s4 = None" for i by (cases i) (simp_all add: worker_pick_def s4(3))
  moreover have "length (qids s4) = 2" unfolding s4(2) s3(5) s2(5) s1(9) by (rule f(3))
  ultimately show ?thesis using s s1(1) s2(1,7) s3(1,2,4) s4(1,4) by blast
qed

text \<open>
  A worker that comes back removes the entry of its run in \<open>_tasks\<close>, not that of its task. In the system
  of the default configuration a run times out, is retried and taken by a second worker, and then the
  first worker comes back. The task of the second execution is under way and waits for the model, but
  \<open>cancel\<close> answers \<open>True\<close> without asking it to stop, and \<open>close\<close> neither cancels it nor waits for it.
\<close>

theorem retried_task_escapes:
  "\<exists>sy s rid k. built app_defaults 0 plain_uuids plain_codec sy \<and> reachable (sy_env sy) s \<and> \<not> rt_closed s
    \<and> exec_at s 1 = Some (At_llm ''simple.generate'' k 7) \<and> exec_run s 1 = rid
    \<and> (\<exists>s'. cancel (sy_env sy) 8 rid s = (Inr True, s') \<and> run_state_of s' rid = Some CANCELLED
        \<and> exec_at s' 1 = exec_at s 1 \<and> exec_cancelled (sy_env sy) 9 1 s' = None)
    \<and> (\<exists>s'. close_begin (sy_env sy) 8 s = (Inr (), s') \<and> rt_closed s' \<and> rt_gathered s' = []
        \<and> exec_at s' 1 = exec_at s 1 \<and> exec_cancelled (sy_env sy) 9 1 s' = None)"
proof -
  obtain sy where b: "built app_defaults 0 plain_uuids plain_codec sy" using plain_built by blast
  note st = built_starts [OF b]
  let ?s = "snd (runtime_start (sy_env sy) (sy_runtime sy))"
  have w: "0 < length (rt_workers ?s)" "1 < length (rt_workers ?s)" using st(9) by (simp_all add: app_defaults_fields)
  have "strip ''hello'' \<noteq> []" by code_simp
  from retried_task_is_out_of_reach [OF st(1) builtD(1) [OF b] st(2,3) w _ st(10) [OF w(1)] st(10) [OF w(2)] st(4-6) this]
  show ?thesis using b by (metis zero_neq_one)
qed

text \<open>
  \<open>retry\<close> does not look at the closed flag: a failed run of a closed runtime becomes READY and queued
  again, with its completion event cleared, and no worker is left to take it.
\<close>

theorem retry_after_close_strands_run:
  "\<exists>s s1 s2. demo_failed s \<and> close_begin small_env 600 s = (Inr (), s1)
     \<and> retry small_env 601 demo_run s1 = (Inr demo_run, s2) \<and> rt_closed s2
     \<and> run_state_of s2 demo_run = Some READY \<and> dict_get (rt_completion s2) demo_run = Some False
     \<and> (\<forall>i. worker_pick i s2 = None)"
proof -
  obtain s where s: "demo_failed s" using ex_demo_failed by blast
  then have f: "reachable small_env s" "run_state_of s demo_run = Some FAILED" "demo_run \<in> set (rt_runs s)"
    "qids s = []" "\<not> rt_closed s" unfolding demo_failed_def by blast+
  have i: "rt_inv small_env s" using f(1) small_uuids_ok by (rule reachable_inv)
  define s1 where "s1 = snd (close_begin small_env 600 s)"
  have r1: "reachable small_env s1"
    unfolding s1_def by (rule reachable.step [OF f(1) rt_step.close_begin])
  have i1: "rt_inv small_env s1" using r1 small_uuids_ok by (rule reachable_inv)
  obtain t where t: "close_runs small_env 600 (rt_runs s) (s\<lparr>rt_closed := True\<rparr>) = (Inr (), t)"
    and same: "run_state_of t = (\<lambda>rid. if rid \<in> set (rt_runs s) \<and> unfinished (s\<lparr>rt_closed := True\<rparr>) rid
          then Some CANCELLED else run_state_of (s\<lparr>rt_closed := True\<rparr>) rid)"
    and regs: "rt_runs t = rt_runs s" "rt_queue t = rt_queue s" "rt_closed t"
    using close_runs_inv [OF rt_inv0_cong [OF rt_invD(1) [OF i]], of "s\<lparr>rt_closed := True\<rparr>" 600 "rt_runs s"]
    by (auto simp: rt_inv_world [OF i])
  have fc: "rt_closed (fold task_cancel xs u) = rt_closed u" "run_state_of (fold task_cancel xs u) = run_state_of u"
    "rt_runs (fold task_cancel xs u) = rt_runs u" "rt_queue (fold task_cancel xs u) = rt_queue u" for xs u
    by (induction xs arbitrary: u) simp_all
  have c: "close_begin small_env 600 s = (Inr (), s1)" "rt_closed s1" "run_state_of s1 = run_state_of t"
    "rt_runs s1 = rt_runs s" "rt_queue s1 = rt_queue s"
    using f(5) t regs by (simp_all add: s1_def close_begin_def Let_def fc)
  have same_state: "run_state_of (s\<lparr>rt_closed := True\<rparr>) = run_state_of s" by (rule state_heap_cong) simp
  have "\<not> unfinished (s\<lparr>rt_closed := True\<rparr>) demo_run"
    using f(2) by (auto simp: unfinished_def run_state_of_def)
  then have st: "run_state_of s1 demo_run = Some FAILED"
    using f(2) by (simp add: c(3) same same_state)
  then obtain run where run: "runs_get s1 demo_run = Some run" "rr_state run = FAILED"
    using c(4) f(3) by (auto simp: runs_get_def run_state_of_def)
  have "tq_capacity (rt_queue s1) = 2"
    using rt_inv0D(6) [OF rt_invD(1) [OF i1]] by (simp add: inv_queue_def small_env_def small_config_def)
  then have q: "\<not> queue_full (rt_queue s1)" using f(4) c(5) by (simp add: queue_full_def)
  define s2 where "s2 = snd (retry small_env 601 demo_run s1)"
  have re: "retry small_env 601 demo_run s1 = (Inr demo_run, s2)"
    using run q by (simp add: s2_def retry_eq [OF i1])
  have s2: "s2 = incr ''runs_retried_total'' 1 (update_registry_metrics (retried small_env 601 demo_run s1))"
    using run q by (simp add: s2_def retry_eq [OF i1])
  have ws: "rt_workers s2 = rt_workers s1" "rt_closed s2 = rt_closed s1"
    by (simp_all add: s2 retried_def Let_def)
  have dead: "\<forall>w \<in> set (rt_workers s1). wk_cancel w \<or> wk_pc w = W_dead"
    using inv_liveD(4) [OF rt_invD(2) [OF i1]] c(2) by blast
  have "worker_pick i s2 = None" for i
  proof (cases "i < length (rt_workers s1)")
    case True
    then have "wk_cancel (rt_workers s1 ! i) \<or> wk_pc (rt_workers s1 ! i) = W_dead" using dead by simp
    then show ?thesis by (auto simp: worker_pick_def ws)
  qed (simp add: worker_pick_def ws)
  moreover have "run_state_of s2 demo_run = Some READY" "dict_get (rt_completion s2) demo_run = Some False"
    using st by (auto simp: s2 retried_def Let_def run_state_of_def fsm_effect_heap)
  ultimately show ?thesis using s c(1,2) re ws(2) by auto
qed

text \<open>
  The gauge \<open>run_queue_depth\<close>, which \<open>/healthz\<close> reports, is not updated when a worker takes a task:
  from then until the next update it counts one run too many.
\<close>

theorem queue_gauge_is_stale:
  assumes "rt_inv E s" and "i < length (rt_workers s)" "wk_pc (rt_workers s ! i) = W_idle"
    "\<not> wk_cancel (rt_workers s ! i)"
    and "qids s = rid # rest" and "run_state_of s rid = Some READY"
    and "metric (w_metrics (rt_world s)) ''run_queue_depth'' = of_nat (queue_qsize (rt_queue s))"
  shows "\<exists>s'. worker_pick i s = Some s'
    \<and> metric (w_metrics (rt_world s')) ''run_queue_depth'' = of_nat (queue_qsize (rt_queue s')) + 1"
proof -
  obtain s' where s': "worker_pick i s = Some s'" "qids s' = rest"
    "rt_execs s' = rt_execs s @ [\<lparr>et_run = rid, et_pc = Not_started, et_cancel = False, et_began = 0\<rparr>]"
    using worker_pick_starts [OF assms(1-6)] by blast
  have "rt_world s' = rt_world s"
  proof -
    obtain task q where q: "queue_get (rt_queue s) = Some (task, q)" "task_run_id task = rid"
      using assms(5) by (auto simp: queue_get_def map_eq_Cons_conv)
    show ?thesis
      using s'(1,3) assms(2-4) q
      by (auto simp: worker_pick_def Let_def set_worker_def item_done_def update_registry_metrics_def
          set_gauge_def split: option.splits if_splits sum.splits)
  qed
  moreover have "queue_qsize (rt_queue s) = Suc (queue_qsize (rt_queue s'))"
    using arg_cong [OF assms(5), of length] arg_cong [OF s'(2), of length] by (simp add: queue_qsize_def)
  ultimately show ?thesis using s'(1) assms(7) by auto
qed

subsection \<open>Resilience\<close>

text \<open>
  A capacity below one passes the checks of the configuration, but \<open>complete\<close> asks for one token: every
  call of the client raises \<open>ValueError\<close> and the provider is never reached.
\<close>

theorem small_capacity_refuses_every_call:
  assumes "rate_limit_validate c = Inr ()" and "rl_capacity c < 1"
    and "bucket_new c t0 = Inr l" and "call_at i s = Some (Acquiring a)" and "cl_limiter s = l"
  shows "call_round now i s = Some (set_call i (Call_done (a - 1)
    (Inl (ValueError ''requested tokens must be in (0, capacity]''))) s)"
  using assms by (auto simp: call_round_def acquire_check_def bucket_new_def)

text \<open>
  A probe slot is not tied to the caller who took it. With one probe allowed: call A passes while
  the breaker is closed, failures open it, probe B passes after the recovery time, and the
  cancellation of A frees the slot of B, so that probe C passes while B is still out.
\<close>

theorem foreign_release_admits_second_probe:
  assumes "br_state b = CB_CLOSED" and "cb_failure_threshold (br_config b) = 1" and "br_failure_count b = 0"
    and "cb_half_open_max_calls (br_config b) = 1" and "cb_recovery_timeout_seconds (br_config b) \<le> t"
    and "b1 = fold breaker_exec [B_call 0, B_failure 0, B_call t] b"
  shows "br_state b1 = CB_HALF_OPEN \<and> fst (before_call t b1) \<noteq> Inr ()
    \<and> fst (before_call t (release_probe b1)) = Inr ()"
proof -
  have c: "breaker_exec (B_call 0) b = b" using assms(1) by (simp add: before_call_def take_probe_def)
  define b0 where "b0 = b\<lparr>br_failure_count := 1, br_state := CB_OPEN, br_opened_at := Some 0, br_half_open_calls := 0\<rparr>"
  have f: "breaker_exec (B_failure 0) b = b0" using assms(2,3) by (simp add: record_failure_def Let_def b0_def)
  have b1: "b1 = b0\<lparr>br_state := CB_HALF_OPEN, br_half_open_calls := 1\<rparr>"
    using assms(4-6) c f by (simp add: before_call_def take_probe_def opened_or_zero_def b0_def)
  show ?thesis using assms(4) by (simp add: b1 b0_def before_call_def take_probe_def release_probe_def)
qed

text \<open>A success that arrives late closes an open breaker at once, inside the recovery time.\<close>

theorem late_success_skips_recovery:
  "br_state (record_success b) = CB_CLOSED \<and> fst (before_call now (record_success b)) = Inr ()"
  by (simp add: record_success_def before_call_def take_probe_def)

text \<open>The jitter is added on top of the maximal delay.\<close>

theorem backoff_exceeds_maximum:
  "backoff_sleep retry_defaults 6 (1/2) = 9 \<and> rc_max_delay_seconds retry_defaults < 9"
  by (simp add: backoff_sleep_def backoff_delay_def retry_defaults_def Let_def)

lemma backoff_bounds:
  assumes "retry_validate c = Inr ()" and "0 \<le> rnd" and "rnd \<le> 1"
  shows "backoff_delay c a \<le> backoff_sleep c a rnd"
    and "backoff_sleep c a rnd \<le> 2 * rc_max_delay_seconds c"
proof -
  note v = retry_validateD [OF assms(1)]
  let ?d = "backoff_delay c a" and ?j = "rc_jitter_ratio c * rnd"
  have d: "0 \<le> ?d" "?d \<le> rc_max_delay_seconds c" using v by (auto simp: backoff_delay_def)
  have "rc_jitter_ratio c * rnd \<le> 1 * 1" using v assms by (intro mult_mono) auto
  then have j: "0 \<le> ?j" "?j \<le> 1" using v assms by simp_all
  have s: "backoff_sleep c a rnd = ?d + ?d * ?j"
    by (simp add: backoff_sleep_def Let_def mult.assoc)
  have "0 \<le> ?d * ?j" "?d * ?j \<le> ?d * 1" using d j by (auto intro: mult_left_mono simp del: mult_1_right)
  then show "?d \<le> backoff_sleep c a rnd" "backoff_sleep c a rnd \<le> 2 * rc_max_delay_seconds c"
    using s d by auto
qed

subsection \<open>Providers\<close>

text \<open>
  \<open>provider.temperature\<close> and \<open>provider.max_tokens\<close> are checked and then never used: the request that
  is sent does not depend on them.
\<close>

theorem generation_settings_have_no_effect:
  "request_payload (c\<lparr>pc_temperature := t, pc_max_tokens := n\<rparr>) request = request_payload c request"
  by (simp add: request_payload_def)

text \<open>A \<open>null\<close> content, as a tool call or a refusal has it, is returned as the text \<open>None\<close>.\<close>

theorem null_content_becomes_text:
  assumes "repr PNone = ''None''"
    and "loads raw = Json (PDict [(''choices'', PList [PDict [(''message'', PDict [(''content'', PNone)])]])])"
  shows "\<exists>d. decode_response repr int_of loads c request raw = Inr d \<and> dc_content d = ''None''"
  using assms
  by (simp add: decode_response_def read_choice_def index_key_def index_zero_def usage_get_def
      optional_int_def py_str_def Let_def)

text \<open>A malformed \<open>usage\<close> raises outside the \<open>try\<close>: the error is neither transient nor an LLM error.\<close>

theorem malformed_usage_escapes:
  assumes "loads raw = Json (PDict [(''choices'', PList [PDict [(''message'', PDict [(''content'', PStr ''hi'')])]]),
      (''usage'', PList [PInt 1])])"
  shows "\<exists>e. decode_response repr int_of loads c request raw = Inl e \<and> \<not> is_agent_runtime_error e"
  using assms
  by (simp add: decode_response_def read_choice_def index_key_def index_zero_def usage_get_def Let_def)

subsection \<open>Interfaces\<close>

text \<open>
  An input of blanks passes the constraints of the request and is refused by \<open>submit\<close> with a
  \<open>ValueError\<close>, for which no handler is registered: the client gets a server error.
\<close>

theorem blank_input_is_a_server_error:
  assumes "request_valid q" and "blank (rq_input q)"
  shows "api_submit errors E now q (Some rt) = (server_error, Some rt)"
  using assms by (simp add: api_submit_def submit_def Let_def handle_exception_def)

text \<open>
  \<open>acquire\<close> by the present owner returns \<open>True\<close> without extending the lease: the owner is told that it
  holds the resource for a new period, and loses it at the end of the old one.
\<close>

theorem acquire_does_not_extend:
  assumes "holder now r d = Some w" and "lease_validate r w ttl = Inr ()"
  shows "lease_acquire now r w ttl d = (Inr True, d)"
  using memory_leases.held [OF assms(2,1)] by simp

subsection \<open>Benchmarks\<close>

text \<open>
  The concurrency benchmark accepts any number of tasks and submits them one after the other to a runtime
  with the default queue. With more tasks than the queue and the workers have room for, a submission
  raises as long as no run has finished, and nothing catches the error.
\<close>

theorem benchmark_overruns_queue:
  assumes "reachable E s" and "uuids_ok E" and "\<not> rt_closed s" and "env_config E = measure_config tasks n delay"
    and "concurrency_args tasks n delay = None" and "int (card {rid. unfinished s rid}) = 100 + n"
    and "index < length (measure_tasks (nat tasks))"
  shows "\<exists>s'. submit E now (measure_tasks (nat tasks) ! index) (Inr SIMPLE) None None s =
    (Inl (RunQueueFullError 1), s')"
proof -
  note i = reachable_inv [OF assms(1,2)] and v = reachable_valid [OF assms(1)]
  have "\<not> blank (''benchmark task '' @ xs)" for xs by (simp add: not_blank_ConsI is_space_def)
  then have input: "strip (measure_tasks (nat tasks) ! index) \<noteq> []" using assms(7) by (simp add: measure_tasks_def)
  have cfg: "cf_queue_capacity (env_config E) + cf_max_concurrency (env_config E) = 100 + n"
    "cf_queue_retry_after_seconds (env_config E) = 1"
    by (simp_all add: assms(4) measure_config_def runtime_defaults_def)
  show ?thesis
    using submit_full [OF i assms(3) input backlog_full [OF i v assms(3)], of now SIMPLE None] assms(6) cfg by auto
qed

end
