(* ===== verification/Cli.thy ===== *)
theory Cli
  imports Factory Runtime_Example
begin

section \<open>The command line\<close>

text \<open>
  The command \<open>run\<close> of \<open>cli.py\<close>: the arguments that its parser accepts, and \<open>_run_once\<close> cut at its
  one suspension, the \<open>wait\<close> for the run, during which the runtime takes its steps. What is printed
  is the value that is serialised; the server itself is not part of the program.
\<close>

record run_args =
  ra_input :: string
  ra_pattern :: string
  ra_session_id :: "string option"
  ra_audit :: bool

text \<open>The parser refuses a pattern that is not the value of a kind.\<close>

definition pattern_choices :: "string list" where
  "pattern_choices = map kind_value all_kinds"

definition parse_run ::
    "string \<Rightarrow> string option \<Rightarrow> string option \<Rightarrow> bool \<Rightarrow> run_args option" where
  "parse_run text pattern session_id audit =
     (let p = (case pattern of None \<Rightarrow> kind_value SIMPLE | Some p \<Rightarrow> p) in
      if p \<in> set pattern_choices
      then Some \<lparr>ra_input = text, ra_pattern = p, ra_session_id = session_id, ra_audit = audit\<rparr>
      else None)"

text \<open>Up to the \<open>wait\<close>. A call that raises leaves by way of the \<open>finally\<close> block.\<close>

definition run_once_begin :: "env \<Rightarrow> time \<Rightarrow> run_args \<Rightarrow> runtime \<Rightarrow> (exn + string) \<times> runtime" where
  "run_once_begin E now a s =
     (case agent_kind_of (ra_pattern a) of
        Inl e \<Rightarrow> (Inl e, s)
      | Inr kind \<Rightarrow> submit E now (ra_input a) (Inr kind) (ra_session_id a) None s)"

definition wait_timeout :: "runtime_config \<Rightarrow> time" where
  "wait_timeout c = cf_run_timeout_seconds c + 5"

text \<open>The exit status, for the run it waited for.\<close>

definition exit_status :: "run_record \<Rightarrow> int" where
  "exit_status run = (if state_value (rr_state run) = ''succeeded'' then 0 else 1)"

definition run_once_output :: "run_args \<Rightarrow> run_record \<Rightarrow> runtime \<Rightarrow> (string, pyval) dict" where
  "run_once_output a run s =
     run_to_dict run
     @ (if ra_audit a
        then [(''audit'', PList (map PDict (audit_events (Some (rr_trace_id run)) s)))] else [])"

text \<open>
  After the \<open>wait\<close>, which raised \<open>e\<close> or returned the run: the output and the exit status, and the
  \<open>close\<close> of the \<open>finally\<close> block up to its own suspension.
\<close>

definition run_once_end ::
    "env \<Rightarrow> time \<Rightarrow> run_args \<Rightarrow> exn + run_record \<Rightarrow> runtime \<Rightarrow>
     (exn + (string, pyval) dict \<times> int) \<times> runtime" where
  "run_once_end E now a waited s =
     (let result = (case waited of
                      Inl e \<Rightarrow> Inl e
                    | Inr run \<Rightarrow> Inr (run_once_output a run s, exit_status run))
      in case close_begin E now s of
           (Inl e, s1) \<Rightarrow> (Inl e, s1)
         | (Inr _, s1) \<Rightarrow> (result, s1))"

text \<open>The command \<open>serve\<close>, and \<open>main\<close>: the configuration is loaded before the command is looked at.\<close>

definition parse_serve :: "string option \<Rightarrow> int option \<Rightarrow> string \<times> int" where
  "parse_serve host port =
     (case host of None \<Rightarrow> ''127.0.0.1'' | Some h \<Rightarrow> h, case port of None \<Rightarrow> 8080 | Some p \<Rightarrow> p)"

datatype command = Command_run run_args | Command_serve string int

text \<open>What \<open>main\<close> goes on to: a run, a server for the file, or the end with a message.\<close>

datatype program = Runs app_config run_args | Serves string string int | Stops string

definition cli_main :: "(string \<Rightarrow> exn + app_config) \<Rightarrow> bool \<Rightarrow> string \<Rightarrow> command \<Rightarrow> exn + program" where
  "cli_main load has_uvicorn config_path command =
     (case load config_path of
        Inl e \<Rightarrow> Inl e
      | Inr config \<Rightarrow>
         (case command of
            Command_run a \<Rightarrow> Inr (Runs config a)
          | Command_serve host port \<Rightarrow>
              if has_uvicorn then Inr (Serves config_path host port)
              else Inr (Stops ''uvicorn is unavailable; install the api extra'')))"

subsection \<open>Facts\<close>

text \<open>Neither command does anything with a configuration that does not load.\<close>

lemma main_needs_configuration:
  "cli_main load has_uvicorn path cmd = Inr p \<Longrightarrow> \<exists>config. load path = Inr config"
  by (auto simp: cli_main_def split: sum.splits)

text \<open>Every choice of the parser is a kind, so that the conversion in \<open>_run_once\<close> does not raise.\<close>

lemma parsed_kind:
  assumes "parse_run text pattern session_id audit = Some a"
  shows "\<exists>kind. agent_kind_of (ra_pattern a) = Inr kind
    \<and> run_once_begin E now a s = submit E now text (Inr kind) session_id None s"
  using assms
  by (auto simp: parse_run_def pattern_choices_def run_once_begin_def Let_def split: if_splits)

lemma exit_status_0: "exit_status run = 0 \<longleftrightarrow> rr_state run = SUCCEEDED"
  by (cases "rr_state run") (simp_all add: exit_status_def)

lemma close_begin_ok:
  assumes "rt_inv E s"
  shows "\<exists>s'. close_begin E now s = (Inr (), s') \<and> rt_closed s'"
proof (cases "rt_closed s")
  case False
  have "rt_inv0 E (s\<lparr>rt_closed := True\<rparr>)"
    using rt_invD(1) [OF assms] by (rule rt_inv0_cong) (simp_all add: rt_inv_world [OF assms])
  then obtain t where t: "close_runs E now (rt_runs s) (s\<lparr>rt_closed := True\<rparr>) = (Inr (), t)" "rt_closed t"
    using close_runs_inv [of E "s\<lparr>rt_closed := True\<rparr>" now "rt_runs s"] by auto
  have "rt_closed (fold task_cancel xs u) = rt_closed u" for xs u by (induction xs arbitrary: u) simp_all
  then show ?thesis using False t by (simp add: close_begin_def Let_def)
qed (simp add: close_begin_def)

text \<open>
  Whatever the \<open>wait\<close> did, the runtime is closed in the end, and what it raised is not replaced by an
  error of \<open>close\<close>.
\<close>

lemma run_once_closes:
  assumes "rt_inv E s"
  shows "\<exists>s'. rt_closed s' \<and> run_once_end E now a waited s =
    (case waited of Inl e \<Rightarrow> Inl e | Inr run \<Rightarrow> Inr (run_once_output a run s, exit_status run), s')"
  using close_begin_ok [OF assms, of now] by (auto simp: run_once_end_def)

lemma output_without_audit: "\<not> ra_audit a \<Longrightarrow> run_once_output a run s = run_to_dict run"
  by (simp add: run_once_output_def)

end
